(* ===== verification/Prelude.thy ===== *)
theory Prelude
  imports Complex_Main "HOL-Library.Sublist" "HOL-Library.Product_Lexorder"
    "HOL-Library.List_Lexorder" "HOL-Library.Char_ord"
begin

text \<open>
  Shared vocabulary of the development: the text model (a Python \<open>str\<close> is a list of code
  points below 256, a Python \<open>bytes\<close> a list of bytes, both the Isabelle type
  \<open>string\<close>), the character classes and the splitting functions of the validators, the
  result type of a function that raises, and the generic facts on lists and finite dictionaries
  that the components share.
\<close>

named_theorems step_simps \<open>unfolding rules of the state-passing operations\<close>
named_theorems result_simps \<open>rules that read off the result of a fallible operation\<close>

type_synonym bytes = string
type_synonym path = string
type_synonym hash = string

section \<open>Functions that raise\<close>

text \<open>A Python call that may raise returns \<open>Inl\<close> of the error or \<open>Inr\<close> of the value.\<close>

fun bind_result :: "'e + 'a \<Rightarrow> ('a \<Rightarrow> 'e + 'b) \<Rightarrow> 'e + 'b" where
  "bind_result (Inl e) k = Inl e"
| "bind_result (Inr x) k = k x"

lemma bind_result_Inr [result_simps]:
  "bind_result m k = Inr y \<longleftrightarrow> (\<exists>x. m = Inr x \<and> k x = Inr y)"
  by (cases m) auto

lemma bind_result_assoc:
  "bind_result (bind_result m k) h = bind_result m (\<lambda>x. bind_result (k x) h)"
  by (cases m) auto

text \<open>The check \<open>if bad: raise e\<close>.\<close>

definition require :: "bool \<Rightarrow> 'e \<Rightarrow> 'e + unit" where
  "require ok e = (if ok then Inr () else Inl e)"

lemma require_Inr [result_simps]: "require ok e = Inr u \<longleftrightarrow> ok"
  by (simp add: require_def)

lemma require_simps [simp]: "require True e = Inr ()" "require False e = Inl e"
  by (simp_all add: require_def)

section \<open>Characters\<close>

definition is_digit :: "char \<Rightarrow> bool" where
  "is_digit c \<longleftrightarrow> 48 \<le> (of_char c :: nat) \<and> (of_char c :: nat) \<le> 57"

definition is_lower :: "char \<Rightarrow> bool" where
  "is_lower c \<longleftrightarrow> 97 \<le> (of_char c :: nat) \<and> (of_char c :: nat) \<le> 122"

definition is_upper :: "char \<Rightarrow> bool" where
  "is_upper c \<longleftrightarrow> 65 \<le> (of_char c :: nat) \<and> (of_char c :: nat) \<le> 90"

definition is_lower_alnum :: "char \<Rightarrow> bool" where
  "is_lower_alnum c \<longleftrightarrow> is_lower c \<or> is_digit c"

definition is_lower_hex :: "char \<Rightarrow> bool" where
  "is_lower_hex c \<longleftrightarrow> is_digit c \<or> (97 \<le> (of_char c :: nat) \<and> (of_char c :: nat) \<le> 102)"

definition is_hex :: "char \<Rightarrow> bool" where
  "is_hex c \<longleftrightarrow> is_lower_hex c \<or> (65 \<le> (of_char c :: nat) \<and> (of_char c :: nat) \<le> 70)"

text \<open>White space as \<open>str.strip\<close> sees it, on code points below 256.\<close>

definition is_space :: "char \<Rightarrow> bool" where
  "is_space c \<longleftrightarrow> (let n = (of_char c :: nat) in
     (9 \<le> n \<and> n \<le> 13) \<or> (28 \<le> n \<and> n \<le> 32) \<or> n = 133 \<or> n = 160)"

definition py_strip :: "string \<Rightarrow> string" where
  "py_strip s = rev (dropWhile is_space (rev (dropWhile is_space s)))"

section \<open>Splitting\<close>

text \<open>\<open>str.split(sep)\<close> for a one-character separator: never empty, keeps empty parts.\<close>

fun split_on :: "char \<Rightarrow> string \<Rightarrow> string list" where
  "split_on d [] = [[]]"
| "split_on d (c # cs) =
     (if c = d then [] # split_on d cs
      else (case split_on d cs of [] \<Rightarrow> [[c]] | p # ps \<Rightarrow> (c # p) # ps))"

fun join_on :: "char \<Rightarrow> string list \<Rightarrow> string" where
  "join_on d [] = []"
| "join_on d [p] = p"
| "join_on d (p # q # ps) = p @ d # join_on d (q # ps)"

lemma split_on_not_Nil [simp]: "split_on d s \<noteq> []"
  by (induction s) (auto split: list.splits)

lemma join_split [simp]: "join_on d (split_on d s) = s"
proof (induction s)
  case (Cons c cs)
  then show ?case
    by (cases "split_on d cs") (auto, metis join_on.simps(2,3) list.exhaust append_Cons)+
qed simp

lemma split_on_no_sep: "p \<in> set (split_on d s) \<Longrightarrow> d \<notin> set p"
proof (induction s arbitrary: p)
  case (Cons c cs)
  then show ?case by (cases "split_on d cs") (auto split: if_splits)
qed simp

lemma split_on_whole: "d \<notin> set p \<Longrightarrow> split_on d p = [p]"
  by (induction p) auto

lemma split_on_append: "d \<notin> set p \<Longrightarrow> split_on d (p @ d # s) = p # split_on d s"
  by (induction p) auto

lemma split_join:
  "ps \<noteq> [] \<Longrightarrow> \<forall>p\<in>set ps. d \<notin> set p \<Longrightarrow> split_on d (join_on d ps) = ps"
proof (induction d ps rule: join_on.induct)
  case (3 d p q ps)
  then show ?case by (simp add: split_on_append)
qed (auto simp: split_on_whole)

text \<open>The slug shape \<^verbatim>\<open>[a-z0-9]+(?:-[a-z0-9]+)*\<close>, as the parts between the hyphens.\<close>

definition kebab :: "string \<Rightarrow> bool" where
  "kebab s \<longleftrightarrow> list_all (\<lambda>p. p \<noteq> [] \<and> list_all is_lower_alnum p) (split_on CHR ''-'' s)"

lemma kebab_not_Nil: "kebab s \<Longrightarrow> s \<noteq> []"
  by (auto simp: kebab_def)

text \<open>A natural number in decimal, as \<open>str(n)\<close> writes it.\<close>

fun digits :: "nat \<Rightarrow> string" where
  "digits n = (if n < 10 then [char_of (48 + n)] else digits (n div 10) @ [char_of (48 + n mod 10)])"

declare digits.simps [simp del]

section \<open>Lists and dictionaries\<close>

text \<open>\<open>list(dict.fromkeys(xs))\<close>: duplicates removed, first occurrences kept in order.\<close>

fun dedup_key :: "('a \<Rightarrow> 'k) \<Rightarrow> 'k set \<Rightarrow> 'a list \<Rightarrow> 'a list" where
  "dedup_key f seen [] = []"
| "dedup_key f seen (x # xs) =
     (if f x \<in> seen then dedup_key f seen xs else x # dedup_key f (insert (f x) seen) xs)"

lemma dedup_key_subset: "set (dedup_key f seen xs) \<subseteq> set xs"
  by (induction f seen xs rule: dedup_key.induct) auto

lemma dedup_key_keys: "f ` set (dedup_key f seen xs) = f ` set xs - seen"
  by (induction f seen xs rule: dedup_key.induct) auto

lemma dedup_key_distinct: "distinct (map f (dedup_key f seen xs))"
proof (induction f seen xs rule: dedup_key.induct)
  case (2 f seen x xs)
  then show ?case
    using dedup_key_keys [of f "insert (f x) seen" xs] by (auto simp: image_iff)
qed simp

lemma dedup_key_id: "distinct (map f xs) \<Longrightarrow> f ` set xs \<inter> seen = {} \<Longrightarrow> dedup_key f seen xs = xs"
  by (induction f seen xs rule: dedup_key.induct) auto

text \<open>\<open>next((x for x in xs if p(x)), None)\<close> is \<open>List.find\<close>.\<close>

lemma find_Some_in: "List.find P xs = Some x \<Longrightarrow> x \<in> set xs \<and> P x"
  by (induction xs) (auto split: if_splits)

lemma find_None: "List.find P xs = None \<longleftrightarrow> (\<forall>x\<in>set xs. \<not> P x)"
  by (induction xs) auto

lemma find_unique:
  assumes "x \<in> set xs" "P x" "\<And>y. y \<in> set xs \<Longrightarrow> P y \<Longrightarrow> y = x"
  shows "List.find P xs = Some x"
proof (cases "List.find P xs")
  case None
  with assms(1,2) show ?thesis by (simp add: find_None)
next
  case (Some y)
  with find_Some_in [OF Some] assms(3) show ?thesis by blast
qed

lemma option_eqI: "(\<And>w. a = Some w \<longleftrightarrow> b = Some w) \<Longrightarrow> a = b"
  by (cases a; cases b) auto

lemma distinct_map_inj: "distinct (map f xs) \<Longrightarrow> x \<in> set xs \<Longrightarrow> y \<in> set xs \<Longrightarrow> f x = f y \<Longrightarrow> x = y"
  by (simp add: distinct_map inj_on_def)

lemma map_of_key_Some:
  "distinct (map f xs) \<Longrightarrow>
   map_of (map (\<lambda>x. (f x, x)) xs) k = Some y \<longleftrightarrow> y \<in> set xs \<and> f y = k"
  by (auto simp: map_of_eq_Some_iff comp_def)

lemma map_of_key_None:
  "map_of (map (\<lambda>x. (f x, x)) xs) k = None \<longleftrightarrow> (\<forall>x\<in>set xs. f x \<noteq> k)"
  by (force simp: map_of_eq_None_iff)

end
