(* ===== verification/Topics.thy ===== *)
theory Topics
  imports Prelude
begin

text \<open>
  The canonical topic registry of \<open>src/src/workctx/domain/topics.py\<close> and its read side in
  \<open>topics/registry.py\<close>: the models with their validators, the integrity check of the registry,
  and the resolution of a slug or alias. The Unicode step of the normalisation (case folding,
  NFKD, removal of combining marks) is the argument \<open>nf\<close>; the filtering of letters and
  digits is the model's.
\<close>

section \<open>Data\<close>

datatype topic_status = ACTIVE | MERGED | ARCHIVED

record topic_distinction =
  note_slug :: string
  note_reason :: string

record topic =
  topic_slug :: string
  topic_name :: string
  topic_scope :: string
  topic_aliases :: "string list"
  topic_status :: topic_status
  merged_into :: "string option"
  topic_created_at :: int
  distinct_from :: "topic_distinction list"

record topic_registry =
  registry_version :: int
  topics :: "topic list"

datatype match_kind = By_slug | By_alias

record topic_resolution =
  requested :: string
  resolved :: topic
  matched_by :: match_kind
  merged_from :: "string option"

datatype topic_error =
    Validation string
  | Topic_not_found string
  | Topic_mutation string
  | Topic_duplicate string
  | Topic_registry_invalid

section \<open>Field validators\<close>

definition topic_lookup_key :: "(string \<Rightarrow> string) \<Rightarrow> string \<Rightarrow> string" where
  "topic_lookup_key nf value = filter is_lower_alnum (nf value)"

definition single_line :: "string \<Rightarrow> bool" where
  "single_line value \<longleftrightarrow>
     value = py_strip value
     \<and> \<not> (\<exists>c\<in>set value. c = CHR 0x0D \<or> c = CHR 0x0A)
     \<and> \<not> (\<exists>c\<in>set value. (of_char c :: nat) < 32 \<or> (of_char c :: nat) = 127)"

definition topic_slug_ok :: "string \<Rightarrow> bool" where
  "topic_slug_ok s \<longleftrightarrow> kebab s \<and> 1 \<le> length s \<and> length s \<le> 100"

definition distinction_ok :: "topic_distinction \<Rightarrow> bool" where
  "distinction_ok d \<longleftrightarrow>
     topic_slug_ok (note_slug d)
     \<and> 1 \<le> length (note_reason d) \<and> length (note_reason d) \<le> 1000
     \<and> single_line (note_reason d)"

definition valid_aliases :: "(string \<Rightarrow> string) \<Rightarrow> string list \<Rightarrow> bool" where
  "valid_aliases nf values \<longleftrightarrow>
     (\<forall>v\<in>set values. single_line v \<and> v \<noteq> [])
     \<and> (\<forall>v\<in>set values. topic_lookup_key nf v \<noteq> [])
     \<and> distinct (map (topic_lookup_key nf) values)"

definition topic_fields_ok :: "(string \<Rightarrow> string) \<Rightarrow> topic \<Rightarrow> bool" where
  "topic_fields_ok nf t \<longleftrightarrow>
     topic_slug_ok (topic_slug t)
     \<and> 1 \<le> length (topic_name t) \<and> length (topic_name t) \<le> 200 \<and> single_line (topic_name t)
     \<and> 1 \<le> length (topic_scope t) \<and> length (topic_scope t) \<le> 500 \<and> single_line (topic_scope t)
     \<and> valid_aliases nf (topic_aliases t)
     \<and> (case merged_into t of None \<Rightarrow> True | Some m \<Rightarrow> topic_slug_ok m)
     \<and> (\<forall>d\<in>set (distinct_from t). distinction_ok d)
     \<and> distinct (map note_slug (distinct_from t))"

text \<open>The model validator \<open>require_lifecycle_shape\<close>, error by error.\<close>

definition require_lifecycle_shape :: "topic \<Rightarrow> topic_error + topic" where
  "require_lifecycle_shape t =
     bind_result
       (if topic_status t = MERGED
        then (case merged_into t of
                None \<Rightarrow> Inl (Validation ''merged topics require merged_into'')
              | Some m \<Rightarrow> require (m \<noteq> topic_slug t)
                            (Validation ''a topic cannot merge into itself''))
        else require (merged_into t = None)
               (Validation ''only merged topics may declare merged_into''))
       (\<lambda>_. if \<exists>d\<in>set (distinct_from t). note_slug d = topic_slug t
            then Inl (Validation ''a topic cannot be distinct from itself'')
            else Inr t)"

definition validate_topic :: "(string \<Rightarrow> string) \<Rightarrow> topic \<Rightarrow> topic_error + topic" where
  "validate_topic nf t =
     (if topic_fields_ok nf t then require_lifecycle_shape t
      else Inl (Validation ''field''))"

definition topic_ok :: "(string \<Rightarrow> string) \<Rightarrow> topic \<Rightarrow> bool" where
  "topic_ok nf t \<longleftrightarrow>
     topic_fields_ok nf t
     \<and> (topic_status t = MERGED \<longleftrightarrow> merged_into t \<noteq> None)
     \<and> merged_into t \<noteq> Some (topic_slug t)
     \<and> topic_slug t \<notin> note_slug ` set (distinct_from t)"

lemma validate_topic_iff: "validate_topic nf t = Inr u \<longleftrightarrow> u = t \<and> topic_ok nf t"
  by (auto simp: validate_topic_def require_lifecycle_shape_def topic_ok_def result_simps image_iff
      split: option.splits if_splits) metis+

section \<open>Registry integrity\<close>

text \<open>
  \<open>require_registry_integrity\<close> walks the topics once, threading the dictionary
  \<open>alias_owners\<close> from alias key to the slug that owns it. The two loops are the two
  functions below; \<open>by_slug\<close> and \<open>slug_keys\<close> are the dictionaries built before the walk.
\<close>

fun check_aliases ::
  "(string \<Rightarrow> string) \<Rightarrow> (string \<rightharpoonup> topic) \<Rightarrow> topic \<Rightarrow> (string \<rightharpoonup> string)
     \<Rightarrow> string list \<Rightarrow> topic_error + (string \<rightharpoonup> string)" where
  "check_aliases nf slug_keys t owners [] = Inr owners"
| "check_aliases nf slug_keys t owners (alias # rest) =
     (let k = topic_lookup_key nf alias in
      if k = topic_lookup_key nf (topic_slug t)
      then Inl (Validation ''a topic alias cannot equal its own slug'')
      else if (case slug_keys k of
                 None \<Rightarrow> False
               | Some o' \<Rightarrow> \<not> (topic_status o' = MERGED \<and> merged_into o' = Some (topic_slug t)))
      then Inl (Validation ''a topic alias cannot equal another topic slug'')
      else if (case owners k of None \<Rightarrow> False | Some p \<Rightarrow> p \<noteq> topic_slug t)
      then Inl (Validation ''topic aliases must be globally unique'')
      else check_aliases nf slug_keys t (owners(k \<mapsto> topic_slug t)) rest)"

definition check_merge_target :: "(string \<rightharpoonup> topic) \<Rightarrow> topic \<Rightarrow> topic_error + unit" where
  "check_merge_target by_slug t =
     (if topic_status t = MERGED
      then (case by_slug (case merged_into t of None \<Rightarrow> [] | Some m \<Rightarrow> m) of
              None \<Rightarrow> Inl (Validation ''merged_into must identify an existing topic'')
            | Some target \<Rightarrow> require (topic_status target = ACTIVE)
                               (Validation ''merged_into must identify an active topic''))
      else Inr ())"

fun check_topics ::
  "(string \<Rightarrow> string) \<Rightarrow> (string \<rightharpoonup> topic) \<Rightarrow> (string \<rightharpoonup> topic) \<Rightarrow> (string \<rightharpoonup> string)
     \<Rightarrow> topic list \<Rightarrow> topic_error + unit" where
  "check_topics nf by_slug slug_keys owners [] = Inr ()"
| "check_topics nf by_slug slug_keys owners (t # ts) =
     bind_result (check_aliases nf slug_keys t owners (topic_aliases t)) (\<lambda>owners'.
     bind_result (check_merge_target by_slug t) (\<lambda>_.
     if \<exists>d\<in>set (distinct_from t). by_slug (note_slug d) = None
     then Inl (Validation ''distinct_from must identify an existing topic'')
     else check_topics nf by_slug slug_keys owners' ts))"

definition require_registry_integrity ::
  "(string \<Rightarrow> string) \<Rightarrow> topic_registry \<Rightarrow> topic_error + topic_registry" where
  "require_registry_integrity nf r =
     (let ts = topics r;
          by_slug = map_of (map (\<lambda>t. (topic_slug t, t)) ts);
          slug_keys = map_of (map (\<lambda>t. (topic_lookup_key nf (topic_slug t), t)) ts)
      in if \<not> distinct (map topic_slug ts)
         then Inl (Validation ''topic slugs must be unique'')
         else if \<not> distinct (map (topic_lookup_key nf \<circ> topic_slug) ts)
         then Inl (Validation ''topic slugs must be unique after normalization'')
         else bind_result (check_topics nf by_slug slug_keys Map.empty ts) (\<lambda>_. Inr r))"

text \<open>\<open>TopicRegistry.model_validate\<close>: every topic is valid, the version is 1, then integrity.\<close>

definition validate_registry ::
  "(string \<Rightarrow> string) \<Rightarrow> topic_registry \<Rightarrow> topic_error + topic_registry" where
  "validate_registry nf r =
     (if registry_version r = 1 \<and> list_all (topic_ok nf) (topics r)
      then require_registry_integrity nf r
      else Inl (Validation ''field''))"

section \<open>Resolution\<close>

definition registry_get :: "topic_registry \<Rightarrow> string \<Rightarrow> topic option" where
  "registry_get r s = List.find (\<lambda>t. topic_slug t = s) (topics r)"

definition has_alias_key :: "(string \<Rightarrow> string) \<Rightarrow> string \<Rightarrow> topic \<Rightarrow> bool" where
  "has_alias_key nf k t \<longleftrightarrow> (\<exists>a\<in>set (topic_aliases t). topic_lookup_key nf a = k)"

definition resolve ::
  "(string \<Rightarrow> string) \<Rightarrow> topic_registry \<Rightarrow> string \<Rightarrow> topic_resolution option" where
  "resolve nf r value =
     (case registry_get r value of
        Some exact \<Rightarrow>
          (case topic_status exact of
             MERGED \<Rightarrow>
               (case registry_get r (case merged_into exact of None \<Rightarrow> [] | Some m \<Rightarrow> m) of
                  None \<Rightarrow> None
                | Some target \<Rightarrow>
                    Some \<lparr>requested = value, resolved = target, matched_by = By_slug,
                          merged_from = Some (topic_slug exact)\<rparr>)
           | ACTIVE \<Rightarrow>
               Some \<lparr>requested = value, resolved = exact, matched_by = By_slug, merged_from = None\<rparr>
           | ARCHIVED \<Rightarrow> None)
      | None \<Rightarrow>
          (case List.find
                  (\<lambda>t. topic_status t = ACTIVE \<and> has_alias_key nf (topic_lookup_key nf value) t)
                  (topics r) of
             None \<Rightarrow> None
           | Some t \<Rightarrow>
               Some \<lparr>requested = value, resolved = t, matched_by = By_alias, merged_from = None\<rparr>))"

definition active_topics :: "topic_registry \<Rightarrow> topic list" where
  "active_topics r = filter (\<lambda>t. topic_status t = ACTIVE) (topics r)"

text \<open>\<open>resolve_active_topic\<close> and \<open>require_active_slug\<close> of \<open>topics/registry.py\<close>.\<close>

definition resolve_active_topic ::
  "(string \<Rightarrow> string) \<Rightarrow> topic_registry \<Rightarrow> string \<Rightarrow> topic_error + topic" where
  "resolve_active_topic nf r value =
     (case resolve nf r value of
        None \<Rightarrow> Inl (Topic_not_found value)
      | Some res \<Rightarrow>
          if topic_status (resolved res) \<noteq> ACTIVE then Inl (Topic_not_found value)
          else Inr (resolved res))"

definition require_active_slug :: "topic_registry \<Rightarrow> string \<Rightarrow> topic_error + topic" where
  "require_active_slug r s =
     (case registry_get r s of
        None \<Rightarrow> Inl (Topic_not_found s)
      | Some t \<Rightarrow> if topic_status t \<noteq> ACTIVE then Inl (Topic_not_found s) else Inr t)"

text \<open>\<open>documents_by_topic\<close>: the documents (path and authored topic values) grouped by the
  active topic their values resolve to.\<close>

type_synonym tagged_document = "path \<times> string list"

definition documents_by_topic ::
  "(string \<Rightarrow> string) \<Rightarrow> topic_registry \<Rightarrow> tagged_document list \<Rightarrow> (string \<rightharpoonup> path set)" where
  "documents_by_topic nf r docs =
     foldl (\<lambda>g (p, values).
        foldl (\<lambda>g v. case resolve nf r v of
                       None \<Rightarrow> g
                     | Some res \<Rightarrow>
                         g(topic_slug (resolved res) \<mapsto>
                             insert p (case g (topic_slug (resolved res)) of
                                         None \<Rightarrow> {} | Some ps \<Rightarrow> ps)))
              g values)
       (map_of (map (\<lambda>t. (topic_slug t, {})) (active_topics r))) docs"

section \<open>What the integrity check accepts\<close>

text \<open>The registry invariant, stated without the walk.\<close>

definition registry_wf :: "(string \<Rightarrow> string) \<Rightarrow> topic list \<Rightarrow> bool" where
  "registry_wf nf ts \<longleftrightarrow>
     distinct (map topic_slug ts)
     \<and> distinct (map (topic_lookup_key nf \<circ> topic_slug) ts)
     \<and> (\<forall>t\<in>set ts. \<forall>a\<in>set (topic_aliases t).
          topic_lookup_key nf a \<noteq> topic_lookup_key nf (topic_slug t))
     \<and> (\<forall>t\<in>set ts. \<forall>a\<in>set (topic_aliases t). \<forall>u\<in>set ts.
          topic_lookup_key nf (topic_slug u) = topic_lookup_key nf a
            \<longrightarrow> topic_status u = MERGED \<and> merged_into u = Some (topic_slug t))
     \<and> (\<forall>t\<in>set ts. \<forall>u\<in>set ts. \<forall>a\<in>set (topic_aliases t). \<forall>b\<in>set (topic_aliases u).
          topic_lookup_key nf a = topic_lookup_key nf b \<longrightarrow> topic_slug t = topic_slug u)
     \<and> (\<forall>t\<in>set ts. topic_status t = MERGED \<longrightarrow>
          (\<exists>u\<in>set ts. merged_into t = Some (topic_slug u) \<and> topic_status u = ACTIVE))
     \<and> (\<forall>t\<in>set ts. note_slug ` set (distinct_from t) \<subseteq> topic_slug ` set ts)"

lemma check_aliases_Inr:
  "check_aliases nf sk t owners as = Inr owners' \<longleftrightarrow>
     (\<forall>a\<in>set as.
        topic_lookup_key nf a \<noteq> topic_lookup_key nf (topic_slug t)
        \<and> (\<forall>u. sk (topic_lookup_key nf a) = Some u \<longrightarrow>
               topic_status u = MERGED \<and> merged_into u = Some (topic_slug t))
        \<and> (\<forall>p. owners (topic_lookup_key nf a) = Some p \<longrightarrow> p = topic_slug t))
     \<and> owners' = (\<lambda>k. if k \<in> topic_lookup_key nf ` set as then Some (topic_slug t) else owners k)"
proof (induction as arbitrary: owners)
  case Nil
  then show ?case by auto
next
  case (Cons a as)
  show ?case
  proof (cases "topic_lookup_key nf a \<noteq> topic_lookup_key nf (topic_slug t)
        \<and> (\<forall>u. sk (topic_lookup_key nf a) = Some u \<longrightarrow>
               topic_status u = MERGED \<and> merged_into u = Some (topic_slug t))
        \<and> (\<forall>p. owners (topic_lookup_key nf a) = Some p \<longrightarrow> p = topic_slug t)")
    case True
    then have "check_aliases nf sk t owners (a # as) =
        check_aliases nf sk t (owners(topic_lookup_key nf a \<mapsto> topic_slug t)) as"
      by (auto simp: Let_def split: option.splits)
    with True show ?thesis by (auto simp: Cons.IH fun_eq_iff)
  next
    case False
    then have "\<exists>e. check_aliases nf sk t owners (a # as) = Inl e"
      by (auto simp: Let_def split: option.splits)
    with False show ?thesis by auto
  qed
qed

definition owners_agree :: "(string \<Rightarrow> string) \<Rightarrow> (string \<rightharpoonup> string) \<Rightarrow> topic \<Rightarrow> bool" where
  "owners_agree nf owners t \<longleftrightarrow>
     (\<forall>a\<in>set (topic_aliases t). \<forall>p. owners (topic_lookup_key nf a) = Some p \<longrightarrow> p = topic_slug t)"

definition share_no_alias :: "(string \<Rightarrow> string) \<Rightarrow> topic \<Rightarrow> topic \<Rightarrow> bool" where
  "share_no_alias nf t u \<longleftrightarrow>
     (\<forall>a\<in>set (topic_aliases t). \<forall>b\<in>set (topic_aliases u).
        topic_lookup_key nf a = topic_lookup_key nf b \<longrightarrow> topic_slug t = topic_slug u)"

definition alias_avoids_slugs ::
  "(string \<Rightarrow> string) \<Rightarrow> (string \<rightharpoonup> topic) \<Rightarrow> topic \<Rightarrow> bool" where
  "alias_avoids_slugs nf sk t \<longleftrightarrow>
     (\<forall>a\<in>set (topic_aliases t).
        topic_lookup_key nf a \<noteq> topic_lookup_key nf (topic_slug t)
        \<and> (\<forall>u. sk (topic_lookup_key nf a) = Some u \<longrightarrow>
               topic_status u = MERGED \<and> merged_into u = Some (topic_slug t)))"

lemma share_no_alias_refl [simp]: "share_no_alias nf t t"
  by (simp add: share_no_alias_def)

lemma share_no_alias_sym: "share_no_alias nf t u \<Longrightarrow> share_no_alias nf u t"
  by (force simp: share_no_alias_def)

lemma owners_agree_extend:
  assumes "owners_agree nf owners t"
  shows "owners_agree nf (\<lambda>k. if k \<in> topic_lookup_key nf ` set (topic_aliases t)
                              then Some (topic_slug t) else owners k) u
     \<longleftrightarrow> owners_agree nf owners u \<and> share_no_alias nf t u"
  using assms unfolding owners_agree_def share_no_alias_def image_iff by (auto; metis)

lemma check_topics_Inr:
  "check_topics nf bs sk owners ts = Inr () \<longleftrightarrow>
     (\<forall>t\<in>set ts. alias_avoids_slugs nf sk t \<and> owners_agree nf owners t
         \<and> check_merge_target bs t = Inr ()
         \<and> (\<forall>d\<in>set (distinct_from t). bs (note_slug d) \<noteq> None))
     \<and> (\<forall>t\<in>set ts. \<forall>u\<in>set ts. share_no_alias nf t u)"
proof (induction ts arbitrary: owners)
  case Nil
  then show ?case by simp
next
  case (Cons t ts)
  let ?own = "\<lambda>k. if k \<in> topic_lookup_key nf ` set (topic_aliases t)
                  then Some (topic_slug t) else owners k"
  have step: "check_topics nf bs sk owners (t # ts) = Inr () \<longleftrightarrow>
      alias_avoids_slugs nf sk t \<and> owners_agree nf owners t
      \<and> check_merge_target bs t = Inr ()
      \<and> (\<forall>d\<in>set (distinct_from t). bs (note_slug d) \<noteq> None)
      \<and> check_topics nf bs sk ?own ts = Inr ()"
    unfolding check_topics.simps result_simps check_aliases_Inr alias_avoids_slugs_def
      owners_agree_def by (auto split: if_splits)
  show ?case
  proof (cases "owners_agree nf owners t")
    case True
    show ?thesis
      unfolding step Cons.IH owners_agree_extend [OF True]
      by (auto dest: share_no_alias_sym)
  next
    case False
    with step show ?thesis by simp
  qed
qed

lemma check_merge_target_Inr:
  "check_merge_target bs t = Inr () \<longleftrightarrow>
     (topic_status t = MERGED \<longrightarrow>
        (\<exists>u. bs (case merged_into t of None \<Rightarrow> [] | Some m \<Rightarrow> m) = Some u
             \<and> topic_status u = ACTIVE))"
  by (auto simp: check_merge_target_def result_simps split: option.splits)

text \<open>
  C26: The registry validator accepts exactly the well-formed registries: version 1, every topic
  valid, slugs unique also after normalisation, no alias that clashes with a slug (except the slug
  of a topic merged into its owner) or with an alias of another topic, every merged topic points
  at an active one, every distinction names a topic of the registry; and it returns the registry
  unchanged.
\<close>

theorem validate_registry_iff:
  "validate_registry nf r = Inr r' \<longleftrightarrow>
     r' = r \<and> registry_version r = 1 \<and> (\<forall>t\<in>set (topics r). topic_ok nf t)
     \<and> registry_wf nf (topics r)"
proof (cases "distinct (map topic_slug (topics r))
    \<and> distinct (map (topic_lookup_key nf \<circ> topic_slug) (topics r))")
  case True
  let ?ts = "topics r"
  let ?bs = "map_of (map (\<lambda>t. (topic_slug t, t)) ?ts)"
  let ?sk = "map_of (map (\<lambda>t. (topic_lookup_key nf (topic_slug t), t)) ?ts)"
  have bs: "?bs k = Some u \<longleftrightarrow> u \<in> set ?ts \<and> topic_slug u = k" for k u
    using True by (intro map_of_key_Some) simp
  have sk: "?sk k = Some u \<longleftrightarrow> u \<in> set ?ts \<and> topic_lookup_key nf (topic_slug u) = k" for k u
    using True map_of_key_Some [of "topic_lookup_key nf \<circ> topic_slug" ?ts k u]
    by (simp add: comp_def)
  have distinctions: "(\<forall>d\<in>set (distinct_from t). ?bs (note_slug d) \<noteq> None)
      \<longleftrightarrow> note_slug ` set (distinct_from t) \<subseteq> topic_slug ` set ?ts" for t
    by (simp add: map_of_key_None subset_iff image_iff) metis
  have avoid: "alias_avoids_slugs nf ?sk t \<longleftrightarrow>
      (\<forall>a\<in>set (topic_aliases t).
          topic_lookup_key nf a \<noteq> topic_lookup_key nf (topic_slug t))
      \<and> (\<forall>a\<in>set (topic_aliases t). \<forall>u\<in>set ?ts.
          topic_lookup_key nf (topic_slug u) = topic_lookup_key nf a
            \<longrightarrow> topic_status u = MERGED \<and> merged_into u = Some (topic_slug t))" for t
    unfolding alias_avoids_slugs_def sk by blast
  have merge: "check_merge_target ?bs t = Inr () \<longleftrightarrow>
      (topic_status t = MERGED \<longrightarrow>
        (\<exists>u\<in>set ?ts. merged_into t = Some (topic_slug u) \<and> topic_status u = ACTIVE))"
    if "topic_ok nf t" for t
    using that unfolding check_merge_target_Inr bs topic_ok_def by (auto split: option.splits)
  have "check_topics nf ?bs ?sk Map.empty ?ts = Inr () \<longleftrightarrow> registry_wf nf ?ts"
    if "\<forall>t\<in>set ?ts. topic_ok nf t"
  proof -
    have "(\<forall>t\<in>set ?ts. check_merge_target ?bs t = Inr ()) \<longleftrightarrow>
        (\<forall>t\<in>set ?ts. topic_status t = MERGED \<longrightarrow>
          (\<exists>u\<in>set ?ts. merged_into t = Some (topic_slug u) \<and> topic_status u = ACTIVE))"
      using that merge by simp
    then show ?thesis
      using True
      unfolding check_topics_Inr distinctions avoid registry_wf_def share_no_alias_def
        ball_conj_distrib by (simp add: owners_agree_def conj_ac)
  qed
  then show ?thesis
    using True
    by (auto simp: validate_registry_def require_registry_integrity_def Let_def result_simps
        list_all_iff split: if_splits)
next
  case False
  then show ?thesis
    by (auto simp: validate_registry_def require_registry_integrity_def registry_wf_def Let_def
        split: if_splits)
qed

section \<open>Resolution in a well-formed registry\<close>

lemma registry_get_Some:
  "distinct (map topic_slug (topics r)) \<Longrightarrow>
   registry_get r s = Some t \<longleftrightarrow> t \<in> set (topics r) \<and> topic_slug t = s"
  unfolding registry_get_def
  by (metis (mono_tags, lifting) find_Some_in find_unique distinct_map_inj)

lemma registry_get_None: "registry_get r s = None \<longleftrightarrow> s \<notin> topic_slug ` set (topics r)"
  by (auto simp: registry_get_def find_None)

lemma wf_distinct: "registry_wf nf ts \<Longrightarrow> distinct (map topic_slug ts)"
  by (simp add: registry_wf_def)

lemma wf_slug_inj:
  "registry_wf nf ts \<Longrightarrow> t \<in> set ts \<Longrightarrow> u \<in> set ts \<Longrightarrow> topic_slug t = topic_slug u \<Longrightarrow> t = u"
  by (meson wf_distinct distinct_map_inj)

lemma wf_merged_target:
  "registry_wf nf ts \<Longrightarrow> t \<in> set ts \<Longrightarrow> topic_status t = MERGED \<Longrightarrow>
   \<exists>u\<in>set ts. merged_into t = Some (topic_slug u) \<and> topic_status u = ACTIVE"
  by (simp add: registry_wf_def)

lemma wf_alias_owner:
  assumes "registry_wf nf ts" "t \<in> set ts" "u \<in> set ts" "has_alias_key nf k t" "has_alias_key nf k u"
  shows "t = u"
proof -
  obtain a b where "a \<in> set (topic_aliases t)" "topic_lookup_key nf a = k"
      "b \<in> set (topic_aliases u)" "topic_lookup_key nf b = k"
    using assms(4,5) by (auto simp: has_alias_key_def)
  with assms(1-3) have "topic_slug t = topic_slug u"
    unfolding registry_wf_def by metis
  then show ?thesis by (rule wf_slug_inj [OF assms(1-3)])
qed

text \<open>The two ways a value resolves, over the topics as a set.\<close>

definition resolves_to ::
  "(string \<Rightarrow> string) \<Rightarrow> topic_registry \<Rightarrow> string \<Rightarrow> topic \<Rightarrow> bool" where
  "resolves_to nf r v t \<longleftrightarrow>
     t \<in> set (topics r) \<and> topic_status t = ACTIVE
     \<and> (topic_slug t = v
        \<or> (\<exists>u\<in>set (topics r). topic_slug u = v \<and> topic_status u = MERGED
             \<and> merged_into u = Some (topic_slug t))
        \<or> (v \<notin> topic_slug ` set (topics r) \<and> has_alias_key nf (topic_lookup_key nf v) t))"

lemma resolve_topic_iff:
  assumes wf: "registry_wf nf (topics r)"
  shows "(\<exists>res. resolve nf r v = Some res \<and> resolved res = t) \<longleftrightarrow> resolves_to nf r v t"
proof (cases "registry_get r v")
  case None
  let ?P = "\<lambda>t. topic_status t = ACTIVE \<and> has_alias_key nf (topic_lookup_key nf v) t"
  have out: "v \<notin> topic_slug ` set (topics r)"
    using None by (simp add: registry_get_None)
  have "List.find ?P (topics r) = Some t \<longleftrightarrow> t \<in> set (topics r) \<and> ?P t"
    using find_Some_in [of ?P "topics r" t] find_unique [of t "topics r" ?P]
      wf_alias_owner [OF wf] by blast
  with None out show ?thesis
    by (auto simp: resolve_def resolves_to_def split: option.splits)
next
  case (Some e)
  then have e: "e \<in> set (topics r)" "topic_slug e = v"
    by (simp_all add: registry_get_Some [OF wf_distinct [OF wf]])
  have uniq: "u = e" if "u \<in> set (topics r)" "topic_slug u = v" for u
    using wf_slug_inj [OF wf that(1) e(1)] that(2) e(2) by simp
  show ?thesis
  proof (cases "topic_status e")
    case MERGED
    then obtain u where u: "u \<in> set (topics r)" "merged_into e = Some (topic_slug u)"
        "topic_status u = ACTIVE"
      using wf_merged_target [OF wf e(1)] by blast
    have "registry_get r (topic_slug u) = Some u"
      using u(1) by (simp add: registry_get_Some [OF wf_distinct [OF wf]])
    moreover have "resolves_to nf r v t \<longleftrightarrow> t = u"
    proof
      assume t: "resolves_to nf r v t"
      then have "topic_slug t \<noteq> v"
        using uniq [of t] MERGED by (auto simp: resolves_to_def)
      moreover have "v \<in> topic_slug ` set (topics r)"
        using e by blast
      ultimately obtain w where "w \<in> set (topics r)" "topic_slug w = v"
          "merged_into w = Some (topic_slug t)"
        using t by (auto simp: resolves_to_def)
      with uniq [of w] u(2) have "topic_slug t = topic_slug u" by simp
      with t show "t = u" using wf_slug_inj [OF wf _ u(1)] by (simp add: resolves_to_def)
    next
      assume "t = u"
      moreover have "\<exists>w\<in>set (topics r). topic_slug w = v \<and> topic_status w = MERGED
          \<and> merged_into w = Some (topic_slug u)"
        using u(2) e MERGED by blast
      ultimately show "resolves_to nf r v t" using u(1,3) by (simp add: resolves_to_def)
    qed
    ultimately show ?thesis
      using Some MERGED u by (auto simp: resolve_def)
  next
    case ACTIVE
    then have "resolves_to nf r v t \<longleftrightarrow> t = e"
      using e uniq unfolding resolves_to_def by (metis image_eqI topic_status.distinct(1))
    then show ?thesis using Some ACTIVE by (auto simp: resolve_def)
  next
    case ARCHIVED
    then have "\<not> resolves_to nf r v t"
      using e uniq unfolding resolves_to_def
      by (metis image_eqI topic_status.distinct(3,5))
    then show ?thesis using Some ARCHIVED by (auto simp: resolve_def)
  qed
qed

definition resolve_slug :: "(string \<Rightarrow> string) \<Rightarrow> topic_registry \<Rightarrow> string \<Rightarrow> string option" where
  "resolve_slug nf r v = map_option (topic_slug \<circ> resolved) (resolve nf r v)"

lemma resolve_slug_Some:
  assumes "registry_wf nf (topics r)"
  shows "resolve_slug nf r v = Some s \<longleftrightarrow> (\<exists>t. resolves_to nf r v t \<and> topic_slug t = s)"
  unfolding resolve_slug_def resolve_topic_iff [OF assms, symmetric] by auto

text \<open>
  C27: In a well-formed registry resolution ends at a topic of the registry that is active, so no
  alias, merged or canonical spelling ever yields an archived, merged or foreign topic; and two
  registries with the same topics in another order resolve every value to the same topic.
\<close>

theorem resolve_active_order_free:
  assumes "validate_registry nf r = Inr r"
  shows "(\<forall>v res. resolve nf r v = Some res \<longrightarrow>
            resolved res \<in> set (topics r) \<and> topic_status (resolved res) = ACTIVE)
       \<and> (\<forall>q v. validate_registry nf q = Inr q \<longrightarrow> set (topics q) = set (topics r) \<longrightarrow>
            map_option resolved (resolve nf q v) = map_option resolved (resolve nf r v))"
proof (intro conjI allI impI)
  have wf: "registry_wf nf (topics r)"
    using assms by (simp add: validate_registry_iff)
  {
    fix v res
    assume "resolve nf r v = Some res"
    then show "resolved res \<in> set (topics r)" "topic_status (resolved res) = ACTIVE"
      using resolve_topic_iff [OF wf, of v "resolved res"] by (auto simp: resolves_to_def)
  }
  fix q v
  assume q: "validate_registry nf q = Inr q" "set (topics q) = set (topics r)"
  then have wfq: "registry_wf nf (topics q)"
    by (simp add: validate_registry_iff)
  have "resolves_to nf q v t \<longleftrightarrow> resolves_to nf r v t" for t
    using q(2) by (simp add: resolves_to_def)
  then have "map_option resolved (resolve nf q v) = Some t
      \<longleftrightarrow> map_option resolved (resolve nf r v) = Some t" for t
    using resolve_topic_iff [OF wf, of v t] resolve_topic_iff [OF wfq, of v t] by simp
  then show "map_option resolved (resolve nf q v) = map_option resolved (resolve nf r v)"
    by (metis not_None_eq)
qed

text \<open>A small registry, for the witnesses.\<close>

definition sample_topic :: "string \<Rightarrow> string list \<Rightarrow> topic" where
  "sample_topic slug aliases =
     \<lparr>topic_slug = slug, topic_name = slug, topic_scope = ''scope'', topic_aliases = aliases,
      topic_status = ACTIVE, merged_into = None, topic_created_at = 0, distinct_from = []\<rparr>"

definition sample_registry :: topic_registry where
  "sample_registry = \<lparr>registry_version = 1,
     topics = [sample_topic ''billing'' [''bills''], sample_topic ''search'' []]\<rparr>"

lemma sample_registry_valid: "validate_registry id sample_registry = Inr sample_registry"
  by code_simp

theorem resolve_active_order_free_witness:
  "topic_status (resolved (the (resolve id sample_registry ''bills''))) = ACTIVE"
proof -
  have "resolve id sample_registry ''bills'' \<noteq> None"
    by code_simp
  then show ?thesis
    using resolve_active_order_free [OF sample_registry_valid] by auto
qed

theorem validate_registry_iff_witness: "registry_wf id (topics sample_registry)"
  using validate_registry_iff [of id sample_registry sample_registry] sample_registry_valid by simp

end
