(* ===== verification/TopicGuard.thy ===== *)
theory TopicGuard
  imports Topics
begin

text \<open>
  The duplicate guard of \<open>src/src/workctx/topics/guard.py\<close>: a spelling is reduced to its
  meaningful tokens, two reductions are compared by equality, token inclusion and Levenshtein
  distance, and the registry is searched for the best match per canonical topic. Distances are
  exact rationals (\<open>previous[-1] / denominator\<close> is a float in the code; the two orders agree
  for texts shorter than \<open>2 ^ 26\<close> characters).
\<close>

section \<open>Normalisation\<close>

datatype duplicate_rule = EXACT | TOKEN_SUBSET | EDIT_DISTANCE

record normalized_subject =
  tokens :: "string list"
  compact_text :: string

record topic_duplicate_match =
  match_slug :: string
  match_name :: string
  matched_value :: string
  match_rule :: duplicate_rule
  match_distance :: rat

definition edit_distance_threshold :: rat where
  "edit_distance_threshold = 1 / 5"

definition min_edit_length :: nat where
  "min_edit_length = 5"

definition stopwords :: "string list" where
  "stopwords = [''a'', ''an'', ''and'', ''de'', ''del'', ''el'', ''for'', ''la'', ''las'', ''los'',
     ''of'', ''para'', ''the'', ''y'']"

definition qualifiers :: "string list" where
  "qualifiers = [''demo'', ''demostracion'', ''pilot'', ''piloto'', ''poc'', ''prototype'',
     ''prototipo'', ''prueba'', ''pruebas'', ''run'', ''runs'', ''test'', ''testing'', ''tests'',
     ''version'']"

definition months :: "string list" where
  "months = [''apr'', ''abril'', ''april'', ''ago'', ''agosto'', ''aug'', ''august'', ''dec'',
     ''december'', ''dic'', ''diciembre'', ''ene'', ''enero'', ''feb'', ''febrero'', ''february'',
     ''jan'', ''january'', ''jul'', ''julio'', ''july'', ''jun'', ''june'', ''junio'', ''mar'',
     ''march'', ''marzo'', ''may'', ''mayo'', ''nov'', ''november'', ''noviembre'', ''oct'',
     ''october'', ''octubre'', ''sep'', ''sept'', ''september'', ''septiembre'']"

text \<open>\<^verbatim>\<open>re.findall("[a-z0-9]+", text)\<close>: the maximal runs; \<open>acc\<close> is the open run, reversed.\<close>

fun findall_tokens :: "string \<Rightarrow> string \<Rightarrow> string list" where
  "findall_tokens acc [] = (if acc = [] then [] else [rev acc])"
| "findall_tokens acc (c # cs) =
     (if is_lower_alnum c then findall_tokens (c # acc) cs
      else if acc = [] then findall_tokens [] cs
      else rev acc # findall_tokens [] cs)"

definition all_digits :: "string \<Rightarrow> bool" where
  "all_digits s \<longleftrightarrow> s \<noteq> [] \<and> list_all is_digit s"

definition is_version :: "string \<Rightarrow> bool" where
  "is_version token \<longleftrightarrow>
     (\<exists>p\<in>set [''v'', ''ver'', ''version'', ''versao'', ''versione''].
        prefix p token \<and> all_digits (drop (length p) token))"

definition is_qualified_run :: "string \<Rightarrow> bool" where
  "is_qualified_run token \<longleftrightarrow>
     (\<exists>p\<in>set [''test'', ''testing'', ''tests'', ''prueba'', ''pruebas'', ''poc'', ''demo'',
              ''demostracion'', ''prototype'', ''prototipo'', ''pilot'', ''piloto''].
        prefix p token \<and> list_all is_digit (drop (length p) token))"

definition skipped_token :: "bool \<Rightarrow> string \<Rightarrow> bool" where
  "skipped_token has_numeric_date_fragment token \<longleftrightarrow>
     token \<in> set stopwords \<or> token \<in> set qualifiers
     \<or> (has_numeric_date_fragment \<and> token \<in> set months)
     \<or> all_digits token \<or> is_version token \<or> is_qualified_run token"

definition normalize_subject :: "(string \<Rightarrow> string) \<Rightarrow> string \<Rightarrow> normalized_subject" where
  "normalize_subject nf value =
     (let raw = findall_tokens [] (nf value);
          dated = list_ex all_digits raw;
          ts = sort (remdups (filter (\<lambda>t. \<not> skipped_token dated t) raw))
      in \<lparr>tokens = ts, compact_text = concat ts\<rparr>)"

section \<open>Levenshtein distance\<close>

text \<open>
  One row of the dynamic program: \<open>row_cells lc right previous last\<close> are the cells after
  \<open>last\<close>, where \<open>previous\<close> is the part of the row above that starts at the cell above \<open>last\<close>.
\<close>

fun row_cells :: "'a \<Rightarrow> 'a list \<Rightarrow> nat list \<Rightarrow> nat \<Rightarrow> nat list" where
  "row_cells lc (rc # rs) (p # q # ps) cur =
     (let v = min (min (cur + 1) (q + 1)) (p + (if lc \<noteq> rc then 1 else 0))
      in v # row_cells lc rs (q # ps) v)"
| "row_cells lc _ _ cur = []"

fun edit_rows :: "nat \<Rightarrow> 'a list \<Rightarrow> 'a list \<Rightarrow> nat list \<Rightarrow> nat list" where
  "edit_rows i [] right previous = previous"
| "edit_rows i (lc # ls) right previous =
     edit_rows (Suc i) ls right (Suc i # row_cells lc right previous (Suc i))"

definition levenshtein :: "'a list \<Rightarrow> 'a list \<Rightarrow> nat" where
  "levenshtein left right = last (edit_rows 0 left right [0..<Suc (length right)])"

definition normalized_edit_distance :: "string \<Rightarrow> string \<Rightarrow> rat" where
  "normalized_edit_distance left right =
     (if left = right then 0
      else let d = max (length left) (length right)
           in if d = 0 then 0 else of_nat (levenshtein left right) / of_nat d)"

section \<open>Comparison and search\<close>

definition compare_subjects ::
  "normalized_subject \<Rightarrow> normalized_subject \<Rightarrow> duplicate_rule option \<times> rat" where
  "compare_subjects left right =
     (if tokens left = [] \<or> tokens right = [] then (None, 1)
      else let distance = normalized_edit_distance (compact_text left) (compact_text right)
           in if compact_text left = compact_text right then (Some EXACT, 0)
              else if set (tokens left) \<subset> set (tokens right) \<or> set (tokens right) \<subset> set (tokens left)
              then (Some TOKEN_SUBSET, distance)
              else if min (length (compact_text left)) (length (compact_text right)) \<ge> min_edit_length
                      \<and> distance \<le> edit_distance_threshold
              then (Some EDIT_DISTANCE, distance)
              else (None, distance))"

definition unique_normalized_values ::
  "(string \<Rightarrow> string) \<Rightarrow> string list \<Rightarrow> (string \<times> normalized_subject) list" where
  "unique_normalized_values nf values =
     (let pairs = filter (\<lambda>(v, s). tokens s \<noteq> []) (map (\<lambda>v. (v, normalize_subject nf v)) values)
      in sort_key (\<lambda>(v, s). ((tokens s, compact_text s), v))
           (dedup_key (\<lambda>(v, s). (tokens s, compact_text s)) {} pairs))"

definition canonical_topic :: "topic \<Rightarrow> topic_registry \<Rightarrow> topic" where
  "canonical_topic t r =
     (if topic_status t \<noteq> MERGED then t
      else case registry_get r (case merged_into t of None \<Rightarrow> [] | Some m \<Rightarrow> m) of
             None \<Rightarrow> t | Some target \<Rightarrow> target)"

fun rule_order :: "duplicate_rule \<Rightarrow> nat" where
  "rule_order EXACT = 0"
| "rule_order TOKEN_SUBSET = 1"
| "rule_order EDIT_DISTANCE = 2"

type_synonym match_score = "nat \<times> rat \<times> string"

text \<open>The inner loops over the candidate and the existing spellings: the least score wins.\<close>

definition better_score ::
  "(match_score \<times> duplicate_rule) option \<Rightarrow> normalized_subject \<Rightarrow> string \<times> normalized_subject
     \<Rightarrow> (match_score \<times> duplicate_rule) option" where
  "better_score best candidate existing =
     (case compare_subjects candidate (snd existing) of
        (None, _) \<Rightarrow> best
      | (Some rule, distance) \<Rightarrow>
          (let score = (rule_order rule, distance, fst existing)
           in case best of
                None \<Rightarrow> Some (score, rule)
              | Some (b, _) \<Rightarrow> if score < b then Some (score, rule) else best))"

definition best_match ::
  "(string \<times> normalized_subject) list \<Rightarrow> (string \<times> normalized_subject) list
     \<Rightarrow> (match_score \<times> duplicate_rule) option" where
  "best_match candidates existing_values =
     foldl (\<lambda>best c. foldl (\<lambda>b e. better_score b (snd c) e) best existing_values) None candidates"

definition match_key :: "topic_duplicate_match \<Rightarrow> match_score" where
  "match_key m = (rule_order (match_rule m), match_distance m, matched_value m)"

text \<open>\<open>matches\<close> is a dictionary by canonical slug: an association list in insertion order.\<close>

fun put_match :: "topic_duplicate_match \<Rightarrow> (string \<times> topic_duplicate_match) list
     \<Rightarrow> (string \<times> topic_duplicate_match) list" where
  "put_match m [] = [(match_slug m, m)]"
| "put_match m ((k, old) # rest) =
     (if k = match_slug m then (k, if match_key m < match_key old then m else old) # rest
      else (k, old) # put_match m rest)"

definition entry_match ::
  "(string \<Rightarrow> string) \<Rightarrow> topic_registry \<Rightarrow> (string \<times> normalized_subject) list \<Rightarrow> topic
     \<Rightarrow> topic_duplicate_match option" where
  "entry_match nf r candidates entry =
     (let canonical = canonical_topic entry r;
          existing = unique_normalized_values nf
            ([topic_name entry, topic_slug entry] @ topic_aliases entry
             @ [topic_name canonical, topic_slug canonical])
      in case best_match candidates existing of
           None \<Rightarrow> None
         | Some ((_, distance, value), rule) \<Rightarrow>
             Some \<lparr>match_slug = topic_slug canonical, match_name = topic_name canonical,
                   matched_value = value, match_rule = rule, match_distance = distance\<rparr>)"

definition find_duplicate_topics ::
  "(string \<Rightarrow> string) \<Rightarrow> string \<Rightarrow> string \<Rightarrow> topic_registry \<Rightarrow> topic_duplicate_match list" where
  "find_duplicate_topics nf candidate_name candidate_slug r =
     (let candidates = unique_normalized_values nf [candidate_name, candidate_slug]
      in if candidates = [] then []
         else let matches = foldl (\<lambda>ms entry. case entry_match nf r candidates entry of
                                                None \<Rightarrow> ms | Some m \<Rightarrow> put_match m ms)
                              [] (topics r)
              in sort_key (\<lambda>m. (rule_order (match_rule m), match_distance m, match_slug m))
                   (map snd matches))"

section \<open>The dynamic program computes the edit distance\<close>

text \<open>Edit scripts and their cost: the specification, independent of any evaluation order.\<close>

inductive edits :: "'a list \<Rightarrow> 'a list \<Rightarrow> nat \<Rightarrow> bool" where
  edit_done: "edits [] [] 0"
| edit_keep: "edits xs ys n \<Longrightarrow> edits (x # xs) (x # ys) n"
| edit_subst: "edits xs ys n \<Longrightarrow> edits (x # xs) (y # ys) (Suc n)"
| edit_insert: "edits xs ys n \<Longrightarrow> edits xs (y # ys) (Suc n)"
| edit_delete: "edits xs ys n \<Longrightarrow> edits (x # xs) ys (Suc n)"

fun lev :: "'a list \<Rightarrow> 'a list \<Rightarrow> nat" where
  "lev [] ys = length ys"
| "lev xs [] = length xs"
| "lev (x # xs) (y # ys) =
     min (min (lev (x # xs) ys + 1) (lev xs (y # ys) + 1)) (lev xs ys + (if x \<noteq> y then 1 else 0))"

lemma lev_Nil2 [simp]: "lev xs [] = length xs"
  by (cases xs) simp_all

lemma edits_Nil1: "edits [] ys (length ys)"
  by (induction ys) (auto intro: edits.intros)

lemma edits_Nil2: "edits xs [] (length xs)"
  by (induction xs) (auto intro: edits.intros)

lemma lev_edits: "edits xs ys (lev xs ys)"
proof (induction xs ys rule: lev.induct)
  case (3 x xs y ys)
  have "edits (x # xs) (y # ys) (lev (x # xs) ys + 1)"
    and "edits (x # xs) (y # ys) (lev xs (y # ys) + 1)"
    and "edits (x # xs) (y # ys) (lev xs ys + (if x \<noteq> y then 1 else 0))"
    using 3 by (auto intro: edits.intros)
  then show ?case by (auto simp: min_def)
qed (use edits_Nil1 edits_Nil2 in \<open>auto intro: edits.intros\<close>)

lemma lev_insert_le: "lev xs (y # ys) \<le> Suc (lev xs ys)"
  by (cases xs) simp_all

lemma lev_delete_le: "lev (x # xs) ys \<le> Suc (lev xs ys)"
  by (cases ys) simp_all

lemma lev_Cons_same: "lev (x # xs) (x # ys) \<le> lev xs ys"
  by simp

lemma edits_lev_le: "edits xs ys n \<Longrightarrow> lev xs ys \<le> n"
proof (induction rule: edits.induct)
  case (edit_keep xs ys n x)
  then show ?case using lev_Cons_same [of x xs ys] by linarith
next
  case (edit_subst xs ys n x y)
  then show ?case by (auto simp: min_def)
next
  case (edit_insert xs ys n y)
  then show ?case using lev_insert_le [of xs y ys] by linarith
next
  case (edit_delete xs ys n x)
  then show ?case using lev_delete_le [of x xs ys] by linarith
qed simp

lemma edits_snoc:
  assumes "edits xs ys n"
  shows "edits (xs @ [x]) (ys @ [x]) n" "edits (xs @ [x]) (ys @ [y]) (Suc n)"
    "edits xs (ys @ [y]) (Suc n)" "edits (xs @ [x]) ys (Suc n)"
  using assms by (induction rule: edits.induct) (auto intro: edits.intros)

lemma edits_rev: "edits xs ys n \<Longrightarrow> edits (rev xs) (rev ys) n"
  by (induction rule: edits.induct) (auto intro: edits_snoc edit_done)

lemma lev_rev: "lev (rev xs) (rev ys) = lev xs ys"
  using edits_lev_le [OF edits_rev [OF lev_edits [of xs ys]]]
    edits_lev_le [OF edits_rev [OF lev_edits [of "rev xs" "rev ys"]]] by simp

definition lev_row :: "'a list \<Rightarrow> 'a list \<Rightarrow> nat list" where
  "lev_row l right = map (\<lambda>j. lev (rev l) (rev (take j right))) [0..<Suc (length right)]"

lemma upt_Suc_map: "[0..<Suc n] = 0 # map Suc [0..<n]"
  by (simp add: upt_conv_Cons map_Suc_upt del: upt_Suc)

lemma row_cells_lev:
  "row_cells lc rs (map (\<lambda>j. lev l (rev (pre @ take j rs))) [0..<Suc (length rs)])
       (lev (lc # l) (rev pre))
   = map (\<lambda>j. lev (lc # l) (rev (pre @ take (Suc j) rs))) [0..<length rs]"
proof (induction rs arbitrary: pre)
  case Nil
  then show ?case by simp
next
  case (Cons rc rs)
  let ?prev = "\<lambda>p r. map (\<lambda>j. lev l (rev (p @ take j r))) [0..<Suc (length r)]"
  have split: "?prev pre (rc # rs) = lev l (rev pre) # ?prev (pre @ [rc]) rs"
    by (subst upt_Suc_map) (simp add: comp_def del: upt_Suc)
  have head: "?prev (pre @ [rc]) rs
      = lev l (rc # rev pre) # map (\<lambda>j. lev l (rev (pre @ [rc] @ take (Suc j) rs))) [0..<length rs]"
    by (subst upt_Suc_map) (simp add: comp_def del: upt_Suc)
  have cell: "min (min (lev (lc # l) (rev pre) + 1) (lev l (rc # rev pre) + 1))
      (lev l (rev pre) + (if lc \<noteq> rc then 1 else 0)) = lev (lc # l) (rev (pre @ [rc]))"
    by simp
  have "row_cells lc (rc # rs) (?prev pre (rc # rs)) (lev (lc # l) (rev pre))
      = lev (lc # l) (rev (pre @ [rc]))
        # row_cells lc rs (?prev (pre @ [rc]) rs) (lev (lc # l) (rev (pre @ [rc])))"
    unfolding split head by (simp only: row_cells.simps cell Let_def)
  also have "\<dots> = lev (lc # l) (rev (pre @ [rc]))
      # map (\<lambda>j. lev (lc # l) (rev ((pre @ [rc]) @ take (Suc j) rs))) [0..<length rs]"
    by (subst Cons.IH) simp
  also have "\<dots> = map (\<lambda>j. lev (lc # l) (rev (pre @ take (Suc j) (rc # rs)))) [0..<length (rc # rs)]"
    unfolding list.size(4) add_Suc_right add_0_right
    by (subst upt_Suc_map) (simp add: comp_def del: upt_Suc lev.simps)
  finally show ?case .
qed

lemma edit_rows_lev:
  "edit_rows (length l) ls right (lev_row l right) = lev_row (l @ ls) right"
proof (induction ls arbitrary: l)
  case (Cons lc ls)
  have "Suc (length l) # row_cells lc right (lev_row l right) (Suc (length l))
      = lev_row (l @ [lc]) right"
    using row_cells_lev [of lc right "rev l" "[]"]
    unfolding lev_row_def by (subst (2) upt_Suc_map) (simp add: comp_def del: upt_Suc)
  then show ?case
    using Cons [of "l @ [lc]"] by simp
qed simp

lemma levenshtein_lev: "levenshtein xs ys = lev xs ys"
proof -
  have "[0..<Suc (length ys)] = lev_row [] ys"
    unfolding lev_row_def by (rule nth_equalityI) (simp_all del: upt_Suc)
  then have "levenshtein xs ys = last (lev_row xs ys)"
    using edit_rows_lev [of "[]" xs ys] by (simp add: levenshtein_def)
  also have "\<dots> = lev (rev xs) (rev ys)"
    unfolding lev_row_def by simp
  finally show ?thesis by (simp add: lev_rev)
qed

text \<open>
  C31: The row-by-row program of \<open>normalized_edit_distance\<close> computes the Levenshtein distance: some
  script of insertions, deletions and substitutions of that cost turns one text into the other,
  and no cheaper script does.
\<close>

theorem levenshtein_minimal:
  "edits xs ys (levenshtein xs ys) \<and> (\<forall>n. edits xs ys n \<longrightarrow> levenshtein xs ys \<le> n)"
  by (simp add: levenshtein_lev lev_edits edits_lev_le)

theorem levenshtein_minimal_witness:
  "edits ''data'' ''date'' 1 \<and> levenshtein ''data'' ''date'' \<le> 1"
proof -
  have "edits ''data'' ''date'' (Suc 0)"
    by (intro edit_keep edit_subst edit_done)
  then show ?thesis
    using levenshtein_minimal [of "''data''" "''date''"] by auto
qed

section \<open>The search misses no exact duplicate\<close>

definition pair_score ::
  "normalized_subject \<Rightarrow> string \<times> normalized_subject \<Rightarrow> (match_score \<times> duplicate_rule) option" where
  "pair_score candidate existing =
     (case compare_subjects candidate (snd existing) of
        (None, _) \<Rightarrow> None
      | (Some rule, distance) \<Rightarrow> Some ((rule_order rule, distance, fst existing), rule))"

definition keep_least ::
  "('k::linorder \<times> 'r) option \<Rightarrow> ('k \<times> 'r) option \<Rightarrow> ('k \<times> 'r) option" where
  "keep_least best new =
     (case new of None \<Rightarrow> best
      | Some x \<Rightarrow> (case best of None \<Rightarrow> Some x | Some b \<Rightarrow> if fst x < fst b then Some x else best))"

lemma better_score_keep: "better_score b c e = keep_least b (pair_score c e)"
  by (simp add: better_score_def keep_least_def pair_score_def Let_def
      split: prod.splits option.splits)

lemma foldl_keep_least:
  fixes r :: "'k::linorder \<times> 'r"
  shows "foldl keep_least b xs = Some r \<Longrightarrow>
     (\<forall>x. Some x \<in> set xs \<longrightarrow> fst r \<le> fst x) \<and> (\<forall>x. b = Some x \<longrightarrow> fst r \<le> fst x)
     \<and> (Some r \<in> set xs \<or> b = Some r)"
proof (induction xs arbitrary: b)
  case (Cons x xs)
  from Cons.IH [of "keep_least b x"] Cons.prems
  have "(\<forall>y. Some y \<in> set xs \<longrightarrow> fst r \<le> fst y)
      \<and> (\<forall>y. keep_least b x = Some y \<longrightarrow> fst r \<le> fst y)
      \<and> (Some r \<in> set xs \<or> keep_least b x = Some r)"
    by simp
  moreover have "(\<forall>y. x = Some y \<longrightarrow> fst r \<le> fst y) \<and> (\<forall>y. b = Some y \<longrightarrow> fst r \<le> fst y)"
    if "\<forall>y. keep_least b x = Some y \<longrightarrow> fst r \<le> fst y"
  proof (cases x; cases b)
    fix x' b'
    assume xb: "x = Some x'" "b = Some b'"
    show ?thesis
    proof (cases "fst x' < fst b'")
      case True
      with that xb have "fst r \<le> fst x'" by (simp add: keep_least_def)
      with True xb show ?thesis by simp
    next
      case False
      with that xb have "fst r \<le> fst b'" by (simp add: keep_least_def)
      with False xb show ?thesis by simp
    qed
  qed (use that in \<open>simp_all add: keep_least_def\<close>)
  moreover have "keep_least b x = Some r \<Longrightarrow> x = Some r \<or> b = Some r"
    by (auto simp: keep_least_def split: option.splits if_splits)
  ultimately show ?case unfolding list.set insert_iff by metis
qed simp

lemma foldl_keep_least_None:
  "foldl keep_least b xs = None \<longleftrightarrow> b = None \<and> (\<forall>x\<in>set xs. x = None)"
proof (induction xs arbitrary: b)
  case (Cons x xs)
  have "keep_least b x = None \<longleftrightarrow> b = None \<and> x = None"
    by (auto simp: keep_least_def split: option.splits if_splits)
  with Cons show ?case by auto
qed simp

lemma foldl_foldl: "foldl (\<lambda>b x. foldl f b (g x)) b xs = foldl f b (concat (map g xs))"
  by (induction xs arbitrary: b) auto

lemma best_match_scores:
  "best_match cs es = foldl keep_least None (concat (map (\<lambda>c. map (pair_score (snd c)) es) cs))"
proof -
  have inner: "foldl (\<lambda>b e. better_score b (snd c) e) best es
      = foldl keep_least best (map (pair_score (snd c)) es)" for c best
    by (simp add: better_score_keep foldl_map)
  show ?thesis unfolding best_match_def inner foldl_foldl ..
qed

lemma rule_order_0 [simp]: "rule_order rule = 0 \<longleftrightarrow> rule = EXACT"
  by (cases rule) auto

lemma pair_score_rule: "pair_score c e = Some (s, rule) \<Longrightarrow> fst s = rule_order rule"
  by (auto simp: pair_score_def split: prod.splits option.splits)

lemma pair_score_exact:
  assumes "tokens c \<noteq> []" "tokens (snd e) \<noteq> []" "compact_text c = compact_text (snd e)"
  shows "pair_score c e = Some ((0, 0, fst e), EXACT)"
  using assms by (simp add: pair_score_def compare_subjects_def Let_def)

lemma best_match_exact:
  assumes "c \<in> set cs" "e \<in> set es"
    "tokens (snd c) \<noteq> []" "tokens (snd e) \<noteq> []" "compact_text (snd c) = compact_text (snd e)"
  shows "\<exists>d v. best_match cs es = Some ((0, d, v), EXACT)"
proof -
  let ?xs = "concat (map (\<lambda>c. map (pair_score (snd c)) es) cs)"
  have mem: "Some ((0, 0, fst e), EXACT) \<in> set ?xs"
    using assms pair_score_exact [of "snd c" e] by (force simp: image_iff)
  then obtain r where r: "best_match cs es = Some r"
    unfolding best_match_scores by (metis foldl_keep_least_None not_None_eq option.distinct(1))
  note best = foldl_keep_least [OF r [unfolded best_match_scores]]
  have least: "fst r \<le> (0, 0, fst e)"
    using best mem by (metis fst_conv)
  have "Some r \<in> set ?xs" using best by blast
  then obtain c' e' where "pair_score (snd c') e' = Some r" by fastforce
  then have "fst (fst r) = rule_order (snd r)"
    using pair_score_rule [of "snd c'" e' "fst r" "snd r"] by simp
  moreover have "fst (fst r) = 0"
    using least by (cases "fst r") (auto simp: less_eq_prod_def)
  ultimately show ?thesis using r by (cases r; cases "fst r") auto
qed

lemma put_match_keeps:
  "(k, m) \<in> set ms \<Longrightarrow> \<exists>m'. (k, m') \<in> set (put_match new ms) \<and> match_key m' \<le> match_key m"
proof (induction new ms rule: put_match.induct)
  case (2 new k' old rest)
  show ?case
  proof (cases "(k, m) = (k', old)")
    case True
    then show ?thesis by (auto intro: less_imp_le)
  next
    case False
    with 2 show ?thesis by (cases "k' = match_slug new") auto
  qed
qed simp

lemma put_match_adds:
  "\<exists>m'. (match_slug new, m') \<in> set (put_match new ms) \<and> match_key m' \<le> match_key new"
  by (induction new ms rule: put_match.induct) auto

lemma put_match_slug:
  "\<forall>(k, m)\<in>set ms. match_slug m = k \<Longrightarrow> \<forall>(k, m)\<in>set (put_match new ms). match_slug m = k"
  by (induction new ms rule: put_match.induct) auto

lemma foldl_put_match:
  assumes "x \<in> set xs" "f x = Some m"
  shows "\<exists>m'. (match_slug m, m') \<in> set (foldl (\<lambda>ms y. case f y of None \<Rightarrow> ms | Some n \<Rightarrow> put_match n ms) ms xs)
           \<and> match_key m' \<le> match_key m"
  using assms
proof (induction xs rule: rev_induct)
  case (snoc y ys)
  show ?case
  proof (cases "x \<in> set ys")
    case True
    with snoc obtain m' where m': "match_key m' \<le> match_key m"
        "(match_slug m, m') \<in> set (foldl (\<lambda>ms y. case f y of None \<Rightarrow> ms | Some n \<Rightarrow> put_match n ms) ms ys)"
      by auto
    then show ?thesis
      using put_match_keeps [OF m'(2)] by (auto split: option.splits intro: order_trans)
  next
    case False
    with snoc.prems show ?thesis by (auto simp: put_match_adds)
  qed
qed simp

lemma foldl_put_match_slug:
  "\<forall>(k, m)\<in>set ms. match_slug m = k \<Longrightarrow>
   \<forall>(k, m)\<in>set (foldl (\<lambda>ms y. case f y of None \<Rightarrow> ms | Some n \<Rightarrow> put_match n ms) ms xs). match_slug m = k"
proof (induction xs arbitrary: ms)
  case (Cons y ys)
  then show ?case
    using Cons.IH [OF put_match_slug [OF Cons.prems]] by (cases "f y") simp_all
qed simp

lemma unique_normalized_covers:
  assumes "v \<in> set values" "tokens (normalize_subject nf v) \<noteq> []"
  shows "\<exists>e\<in>set (unique_normalized_values nf values).
           tokens (snd e) = tokens (normalize_subject nf v)
           \<and> compact_text (snd e) = compact_text (normalize_subject nf v)"
proof -
  let ?pairs = "filter (\<lambda>(v, s). tokens s \<noteq> []) (map (\<lambda>v. (v, normalize_subject nf v)) values)"
  let ?key = "\<lambda>(v :: string, s). (tokens s, compact_text s)"
  have "?key (v, normalize_subject nf v) \<in> ?key ` set ?pairs"
    using assms by (intro imageI) auto
  also have "\<dots> = ?key ` set (dedup_key ?key {} ?pairs)"
    by (simp add: dedup_key_keys)
  finally obtain e where "e \<in> set (dedup_key ?key {} ?pairs)"
      "?key (v, normalize_subject nf v) = ?key e"
    by blast
  moreover have "set (unique_normalized_values nf values) = set (dedup_key ?key {} ?pairs)"
    by (simp add: unique_normalized_values_def Let_def)
  ultimately show ?thesis
    by (intro bexI [of _ e]) (simp_all add: case_prod_beta)
qed

text \<open>
  C30: The guard misses no exact duplicate: when the candidate's name or slug and one spelling of a
  registry entry (its name, slug or an alias, or those of the topic it is merged into) reduce to
  the same non-empty subject, the canonical topic of that entry is reported, with the rule
  \<open>normalized_exact\<close>.
\<close>

theorem find_duplicate_exact:
  assumes "entry \<in> set (topics r)"
    and "v \<in> set ([topic_name entry, topic_slug entry] @ topic_aliases entry
             @ [topic_name (canonical_topic entry r), topic_slug (canonical_topic entry r)])"
    and "w \<in> {candidate_name, candidate_slug}"
    and "tokens (normalize_subject nf v) \<noteq> []" "tokens (normalize_subject nf w) \<noteq> []"
    and "compact_text (normalize_subject nf v) = compact_text (normalize_subject nf w)"
  shows "\<exists>m\<in>set (find_duplicate_topics nf candidate_name candidate_slug r).
           match_slug m = topic_slug (canonical_topic entry r) \<and> match_rule m = EXACT"
proof -
  let ?cs = "unique_normalized_values nf [candidate_name, candidate_slug]"
  obtain c where c: "c \<in> set ?cs" "tokens (snd c) \<noteq> []"
      "compact_text (snd c) = compact_text (normalize_subject nf w)"
    using unique_normalized_covers [of w "[candidate_name, candidate_slug]" nf] assms(3,5) by auto
  obtain e where e: "e \<in> set (unique_normalized_values nf
       ([topic_name entry, topic_slug entry] @ topic_aliases entry
         @ [topic_name (canonical_topic entry r), topic_slug (canonical_topic entry r)]))"
      "tokens (snd e) \<noteq> []" "compact_text (snd e) = compact_text (normalize_subject nf v)"
    using unique_normalized_covers [OF assms(2,4)] assms(4) by auto
  obtain m where m: "entry_match nf r ?cs entry = Some m" "match_rule m = EXACT"
      "match_slug m = topic_slug (canonical_topic entry r)"
    using best_match_exact [OF c(1) e(1) c(2) e(2)] c(3) e(3) assms(6)
    by (auto simp: entry_match_def Let_def)
  let ?ms = "foldl (\<lambda>ms entry. case entry_match nf r ?cs entry of
                      None \<Rightarrow> ms | Some m \<Rightarrow> put_match m ms) [] (topics r)"
  obtain m' where m': "(match_slug m, m') \<in> set ?ms" "match_key m' \<le> match_key m"
    using foldl_put_match [OF assms(1), of "entry_match nf r ?cs" m "[]"] m(1) by auto
  have "match_slug m' = match_slug m"
    using foldl_put_match_slug [of "[]" "entry_match nf r ?cs" "topics r"] m'(1) by auto
  moreover have "match_rule m' = EXACT"
    using m'(2) m(2) by (auto simp: match_key_def less_eq_prod_def)
  moreover have "m' \<in> set (find_duplicate_topics nf candidate_name candidate_slug r)"
    using m'(1) c(1) by (force simp: find_duplicate_topics_def Let_def)
  ultimately show ?thesis using m(3) by metis
qed

theorem find_duplicate_exact_witness:
  "\<exists>m\<in>set (find_duplicate_topics id ''bills'' ''bills'' sample_registry).
     match_slug m = ''billing'' \<and> match_rule m = EXACT"
proof -
  let ?e = "sample_topic ''billing'' [''bills'']"
  have "topic_slug (canonical_topic ?e sample_registry) = ''billing''"
    "tokens (normalize_subject id ''bills'') \<noteq> []"
    by code_simp+
  then show ?thesis
    using find_duplicate_exact [of ?e sample_registry "''bills''" "''bills''" "''bills''" "''bills''" id]
    by (simp add: sample_registry_def sample_topic_def)
qed

end
