(* ===== verification/TopicService.thy ===== *)
theory TopicService
  imports TopicGuard
begin

text \<open>
  The topic mutations of \<open>src/src/workctx/topics/service.py\<close>: adding a topic, adding an alias,
  merging two topics, reviewing candidates. A mutation returns the topic and the plan (operations
  and conditions) that the transaction engine executes; the clock value and the loaded registry
  and documents are arguments. \<open>slugify_topic\<close> is from \<open>domain/topics.py\<close>.
\<close>

section \<open>Data\<close>

record registry_snapshot =
  snap_registry :: topic_registry
  snap_exists :: bool
  snap_hash :: "hash option"

record topic_document =
  doc_path :: path
  doc_topics :: "string list"
  doc_hash :: hash

datatype topic_operation =
    Create_registry topic_registry
  | Update_registry topic_registry hash
  | Update_document path "string list" int hash

datatype topic_condition =
    Path_hash path hash
  | Path_exists path
  | Path_absent path

record topic_plan =
  plan_action :: string
  plan_operations :: "topic_operation list"
  plan_preconditions :: "topic_condition list"
  plan_postconditions :: "topic_condition list"
  plan_created_at :: int

definition registry_path :: path where
  "registry_path = ''99_meta/topics.yaml''"

section \<open>Helpers\<close>

text \<open>\<^verbatim>\<open>re.sub("[^a-z0-9]+", "-", text)\<close>: each maximal run of other characters is one hyphen.\<close>

fun sub_hyphen :: "bool \<Rightarrow> string \<Rightarrow> string" where
  "sub_hyphen in_run [] = []"
| "sub_hyphen in_run (c # cs) =
     (if is_lower_alnum c then c # sub_hyphen False cs
      else if in_run then sub_hyphen True cs
      else CHR ''-'' # sub_hyphen True cs)"

definition rstrip_hyphens :: "string \<Rightarrow> string" where
  "rstrip_hyphens s = rev (dropWhile (\<lambda>c. c = CHR ''-'') (rev s))"

definition slugify_topic :: "(string \<Rightarrow> string) \<Rightarrow> string \<Rightarrow> string" where
  "slugify_topic nf value =
     (let slug = rstrip_hyphens (dropWhile (\<lambda>c. c = CHR ''-'') (sub_hyphen False (nf value)))
      in rstrip_hyphens (take 100 slug))"

definition retag_values ::
  "(string \<Rightarrow> string) \<Rightarrow> string list \<Rightarrow> topic_registry \<Rightarrow> string \<Rightarrow> string \<Rightarrow> string list" where
  "retag_values nf values r source target =
     foldl (\<lambda>retagged value.
        let replacement = (case resolve nf r value of
                             None \<Rightarrow> value
                           | Some res \<Rightarrow> if topic_slug (resolved res) = source then target else value)
        in if replacement \<in> set retagged then retagged else retagged @ [replacement])
       [] values"

definition dedupe_aliases :: "(string \<Rightarrow> string) \<Rightarrow> string list \<Rightarrow> string list" where
  "dedupe_aliases nf values = dedup_key (topic_lookup_key nf) {} values"

definition explicitly_distinct :: "topic \<Rightarrow> topic \<Rightarrow> bool" where
  "explicitly_distinct left right \<longleftrightarrow>
     (\<exists>d\<in>set (distinct_from left). note_slug d = topic_slug right)
     \<or> (\<exists>d\<in>set (distinct_from right). note_slug d = topic_slug left)"

definition validated_registry ::
  "(string \<Rightarrow> string) \<Rightarrow> topic list \<Rightarrow> topic_error + topic_registry" where
  "validated_registry nf ts =
     (case validate_registry nf \<lparr>registry_version = 1, topics = ts\<rparr> of
        Inl _ \<Rightarrow> Inl Topic_registry_invalid
      | Inr r \<Rightarrow> Inr r)"

definition replace_topic ::
  "(string \<Rightarrow> string) \<Rightarrow> topic_registry \<Rightarrow> topic \<Rightarrow> topic_error + topic_registry" where
  "replace_topic nf r new =
     validated_registry nf (map (\<lambda>t. if topic_slug t = topic_slug new then new else t) (topics r))"

definition validate_distinction ::
  "topic_registry \<Rightarrow> topic_duplicate_match list \<Rightarrow> string option \<Rightarrow> string option
     \<Rightarrow> topic_error + topic_distinction option" where
  "validate_distinction r matches distinct_slug reason =
     (if (distinct_slug = None) \<noteq> (reason = None)
      then Inl (Topic_mutation ''--distinct-from and --reason must be supplied together.'')
      else bind_result
        (case (distinct_slug, reason) of
           (Some s, Some why) \<Rightarrow>
             bind_result (require_active_slug r s) (\<lambda>target.
               let d = \<lparr>note_slug = topic_slug target, note_reason = why\<rparr>
               in if distinction_ok d then Inr (Some d) else Inl (Validation ''distinction''))
         | _ \<Rightarrow> Inr None)
        (\<lambda>distinction.
           let unresolved = filter (\<lambda>m. distinction = None
                              \<or> match_slug m \<noteq> note_slug (the distinction)) matches
           in if unresolved \<noteq> [] then Inl (Topic_duplicate (match_slug (hd unresolved)))
              else Inr distinction))"

section \<open>Mutations\<close>

text \<open>\<open>_mutate_registry\<close>: update the registry file when it exists, create it otherwise.\<close>

definition mutate_registry ::
  "int \<Rightarrow> string \<Rightarrow> topic \<Rightarrow> registry_snapshot \<Rightarrow> topic_registry
     \<Rightarrow> topic_error + topic \<times> topic_plan" where
  "mutate_registry now action t snap r =
     bind_result
       (if snap_exists snap
        then (case snap_hash snap of
                None \<Rightarrow> Inl Topic_registry_invalid
              | Some h \<Rightarrow> Inr ([Update_registry r h], [Path_hash registry_path h]))
        else Inr ([Create_registry r], [Path_absent registry_path]))
       (\<lambda>(ops, pre).
          Inr (t, \<lparr>plan_action = action, plan_operations = ops, plan_preconditions = pre,
                   plan_postconditions = [Path_exists registry_path], plan_created_at = now\<rparr>))"

definition add_topic ::
  "(string \<Rightarrow> string) \<Rightarrow> int \<Rightarrow> registry_snapshot \<Rightarrow> string \<Rightarrow> string \<Rightarrow> string option \<Rightarrow> string list
     \<Rightarrow> string option \<Rightarrow> string option \<Rightarrow> topic_error + topic \<times> topic_plan" where
  "add_topic nf now snap name scope slug aliases distinct_slug reason =
     (let r = snap_registry snap;
          candidate_slug = (case slug of Some s \<Rightarrow> if s = [] then slugify_topic nf name else s
                            | None \<Rightarrow> slugify_topic nf name)
      in if candidate_slug = [] then
           Inl (Topic_mutation ''Topic name cannot produce a portable slug.'')
         else if tokens (normalize_subject nf name) = [] then
           Inl (Topic_mutation ''A topic must name a durable subject.'')
         else
           bind_result (validate_distinction r (find_duplicate_topics nf name candidate_slug r)
                          distinct_slug reason) (\<lambda>distinction.
           bind_result (validate_topic nf
               \<lparr>topic_slug = candidate_slug, topic_name = name, topic_scope = scope,
                topic_aliases = aliases, topic_status = ACTIVE, merged_into = None,
                topic_created_at = now,
                distinct_from = (case distinction of None \<Rightarrow> [] | Some d \<Rightarrow> [d])\<rparr>) (\<lambda>t.
           bind_result (validated_registry nf (topics r @ [t])) (\<lambda>r'.
           mutate_registry now ''add'' t snap r'))))"

datatype alias_result = Alias_present topic | Alias_added topic topic_plan

definition add_alias ::
  "(string \<Rightarrow> string) \<Rightarrow> int \<Rightarrow> registry_snapshot \<Rightarrow> string \<Rightarrow> string \<Rightarrow> topic_error + alias_result" where
  "add_alias nf now snap slug alias =
     bind_result (require_active_slug (snap_registry snap) slug) (\<lambda>t.
     let key = topic_lookup_key nf alias in
     if key = [] then Inl (Topic_mutation ''Topic alias must contain letters or numbers.'')
     else if \<exists>a\<in>set (topic_aliases t). topic_lookup_key nf a = key then Inr (Alias_present t)
     else let updated = t\<lparr>topic_aliases := topic_aliases t @ [alias]\<rparr> in
       bind_result (replace_topic nf (snap_registry snap) updated) (\<lambda>r'.
       bind_result (mutate_registry now ''alias'' updated snap r') (\<lambda>(u, plan).
       Inr (Alias_added u plan))))"

text \<open>The registry part of \<open>merge\<close>: lines 194 to 218 of the service.\<close>

definition merged_topics ::
  "(string \<Rightarrow> string) \<Rightarrow> topic list \<Rightarrow> topic \<Rightarrow> topic \<Rightarrow> topic list" where
  "merged_topics nf ts source target =
     (let merged_source = source\<lparr>topic_aliases := [], topic_status := MERGED,
                                merged_into := Some (topic_slug target)\<rparr>;
          updated_target = target\<lparr>
            topic_aliases := dedupe_aliases nf
              (topic_aliases target @ topic_aliases source @ [topic_slug source]),
            distinct_from := filter (\<lambda>d. note_slug d \<noteq> topic_slug source) (distinct_from target)\<rparr>
      in map (\<lambda>t. if topic_slug t = topic_slug source then merged_source
                 else if topic_slug t = topic_slug target then updated_target else t) ts)"

definition merge_topics ::
  "(string \<Rightarrow> string) \<Rightarrow> int \<Rightarrow> registry_snapshot \<Rightarrow> topic_document list \<Rightarrow> string \<Rightarrow> string
     \<Rightarrow> topic_error + topic_registry \<times> topic_plan" where
  "merge_topics nf now snap docs source_slug target_slug =
     (if source_slug = target_slug
      then Inl (Topic_mutation ''A topic cannot be merged into itself.'')
      else case (snap_exists snap, snap_hash snap) of
        (True, Some h) \<Rightarrow>
          (let r = snap_registry snap in
           bind_result (require_active_slug r source_slug) (\<lambda>source.
           bind_result (require_active_slug r target_slug) (\<lambda>target.
           bind_result (validated_registry nf (merged_topics nf (topics r) source target)) (\<lambda>r'.
           let changed = filter (\<lambda>(d, tags). tags \<noteq> doc_topics d)
                 (map (\<lambda>d. (d, retag_values nf (doc_topics d) r (topic_slug source)
                                 (topic_slug target))) docs)
           in Inr (r', \<lparr>plan_action = ''merge'',
                plan_operations = Update_registry r' h
                  # map (\<lambda>(d, tags). Update_document (doc_path d) tags now (doc_hash d)) changed,
                plan_preconditions = Path_hash registry_path h
                  # map (\<lambda>(d, tags). Path_hash (doc_path d) (doc_hash d)) changed,
                plan_postconditions = Path_exists registry_path
                  # map (\<lambda>(d, tags). Path_exists (doc_path d)) changed,
                plan_created_at = now\<rparr>)))))
      | _ \<Rightarrow> Inl Topic_registry_invalid)"

section \<open>Review\<close>

record review_candidate =
  left_slug :: string
  right_slug :: string
  name_rule :: "duplicate_rule option"
  review_distance :: "rat option"
  shared_documents :: nat
  union_documents :: nat
  co_reference_jaccard :: rat

definition review_pair ::
  "(string \<Rightarrow> string) \<Rightarrow> (string \<rightharpoonup> path set) \<Rightarrow> topic \<Rightarrow> topic \<Rightarrow> review_candidate option" where
  "review_pair nf documents left right =
     (if explicitly_distinct left right then None
      else let matches = find_duplicate_topics nf (topic_name left) (topic_slug left)
                 \<lparr>registry_version = 1, topics = [right\<lparr>distinct_from := []\<rparr>]\<rparr>;
               name_match = (case matches of [] \<Rightarrow> None | m # _ \<Rightarrow> Some m);
               ls = (case documents (topic_slug left) of None \<Rightarrow> {} | Some s \<Rightarrow> s);
               rs = (case documents (topic_slug right) of None \<Rightarrow> {} | Some s \<Rightarrow> s);
               shared = card (ls \<inter> rs); union = card (ls \<union> rs)
           in if name_match = None \<and> shared = 0 then None
              else Some \<lparr>left_slug = topic_slug left, right_slug = topic_slug right,
                name_rule = map_option match_rule name_match,
                review_distance = map_option match_distance name_match,
                shared_documents = shared, union_documents = union,
                co_reference_jaccard =
                  (if union = 0 then 0 else of_nat shared / of_nat union)\<rparr>)"

fun review_pairs ::
  "(string \<Rightarrow> string) \<Rightarrow> (string \<rightharpoonup> path set) \<Rightarrow> topic list \<Rightarrow> review_candidate list" where
  "review_pairs nf documents [] = []"
| "review_pairs nf documents (left # rest) =
     List.map_filter (review_pair nf documents left) rest @ review_pairs nf documents rest"

definition review_topics ::
  "(string \<Rightarrow> string) \<Rightarrow> topic_registry \<Rightarrow> tagged_document list \<Rightarrow> review_candidate list" where
  "review_topics nf r docs =
     sort_key (\<lambda>c. (name_rule c = None, - co_reference_jaccard c, left_slug c, right_slug c))
       (review_pairs nf (documents_by_topic nf r docs) (sort_key topic_slug (active_topics r)))"

section \<open>Derived slugs are valid\<close>

definition tidy :: "string \<Rightarrow> bool" where
  "tidy s \<longleftrightarrow> (\<forall>c\<in>set s. is_lower_alnum c \<or> c = CHR ''-'')
     \<and> successively (\<lambda>a b. \<not> (a = CHR ''-'' \<and> b = CHR ''-'')) s"

lemma tidy_append: "tidy (a @ b) \<Longrightarrow> tidy a \<and> tidy b"
  by (auto simp: tidy_def successively_append_iff)

lemma tidy_rev: "tidy (rev s) \<longleftrightarrow> tidy s"
proof -
  have "(\<lambda>a b. \<not> (b = CHR ''-'' \<and> a = CHR ''-'')) = (\<lambda>a b. \<not> (a = CHR ''-'' \<and> b = CHR ''-''))"
    by auto
  then show ?thesis unfolding tidy_def successively_rev set_rev by (rule arg_cong)
qed

lemma tidy_dropWhile: "tidy s \<Longrightarrow> tidy (dropWhile P s)"
  using tidy_append [of "takeWhile P s" "dropWhile P s"] by simp

lemma tidy_take: "tidy s \<Longrightarrow> tidy (take n s)"
  using tidy_append [of "take n s" "drop n s"] by simp

lemma tidy_rstrip: "tidy s \<Longrightarrow> tidy (rstrip_hyphens s)"
  unfolding rstrip_hyphens_def by (metis tidy_dropWhile tidy_rev)

lemma hyphen_not_alnum [simp]: "\<not> is_lower_alnum CHR ''-''"
  by (simp add: is_lower_alnum_def is_lower_def is_digit_def)

lemma sub_hyphen_tidy:
  "tidy (sub_hyphen b s) \<and> (b \<longrightarrow> (\<forall>c cs. sub_hyphen b s = c # cs \<longrightarrow> c \<noteq> CHR ''-''))"
proof (induction b s rule: sub_hyphen.induct)
  case (2 b c cs)
  have cons: "tidy (x # xs)"
    if "tidy xs" "is_lower_alnum x \<or> x = CHR ''-''"
      "x = CHR ''-'' \<Longrightarrow> \<forall>y ys. xs = y # ys \<longrightarrow> y \<noteq> CHR ''-''" for x xs
    using that by (cases xs) (auto simp: tidy_def)
  have "c \<noteq> CHR ''-''" if "is_lower_alnum c"
    using that by auto
  then show ?case using 2 by (auto intro!: cons)
qed (simp add: tidy_def)

lemma last_rstrip: "rstrip_hyphens s \<noteq> [] \<Longrightarrow> last (rstrip_hyphens s) \<noteq> CHR ''-''"
  unfolding rstrip_hyphens_def
  by (metis (mono_tags, lifting) hd_dropWhile last_rev rev_is_Nil_conv)

lemma rstrip_prefix: "\<exists>z. s = rstrip_hyphens s @ z"
  unfolding rstrip_hyphens_def
  by (metis rev_append rev_rev_ident takeWhile_dropWhile_id)

lemma tidy_split:
  "tidy s \<Longrightarrow> s = [] \<or> last s \<noteq> CHR ''-'' \<Longrightarrow> \<exists>p ps. split_on CHR ''-'' s = p # ps
     \<and> (p = [] \<longleftrightarrow> s = [] \<or> hd s = CHR ''-'') \<and> list_all is_lower_alnum p
     \<and> list_all (\<lambda>q. q \<noteq> [] \<and> list_all is_lower_alnum q) ps"
proof (induction s)
  case (Cons c cs)
  have "tidy cs" and c: "is_lower_alnum c \<or> c = CHR ''-''"
    using Cons.prems(1) tidy_append [of "[c]" cs] by (auto simp: tidy_def)
  then obtain p ps where p: "split_on CHR ''-'' cs = p # ps" "p = [] \<longleftrightarrow> cs = [] \<or> hd cs = CHR ''-''"
      "list_all is_lower_alnum p" "list_all (\<lambda>q. q \<noteq> [] \<and> list_all is_lower_alnum q) ps"
    using Cons.IH Cons.prems(2) by (cases "cs = []") auto
  show ?case
  proof (cases "c = CHR ''-''")
    case True
    then have "cs \<noteq> []" "hd cs \<noteq> CHR ''-''"
      using Cons.prems by (auto simp: tidy_def successively_Cons)
    with True p show ?thesis by simp
  next
    case False
    with c p show ?thesis by auto
  qed
qed simp

lemma tidy_kebab:
  "tidy s \<Longrightarrow> s \<noteq> [] \<Longrightarrow> hd s \<noteq> CHR ''-'' \<Longrightarrow> last s \<noteq> CHR ''-'' \<Longrightarrow> kebab s"
  using tidy_split [of s] by (auto simp: kebab_def)

text \<open>
  C32: A slug derived from a display name is empty (then the topic is refused) or satisfies the slug
  contract: kebab case and at most 100 characters, also after the cut at 100 characters.
\<close>

theorem slugify_topic_ok: "slugify_topic nf name = [] \<or> topic_slug_ok (slugify_topic nf name)"
proof (cases "slugify_topic nf name = []")
  case False
  let ?d = "dropWhile (\<lambda>c. c = CHR ''-'') (sub_hyphen False (nf name))"
  let ?t = "take 100 (rstrip_hyphens ?d)"
  have s: "slugify_topic nf name = rstrip_hyphens ?t"
    by (simp add: slugify_topic_def Let_def)
  have tidy: "tidy (rstrip_hyphens ?t)"
    using sub_hyphen_tidy by (auto intro!: tidy_rstrip tidy_take tidy_dropWhile)
  obtain y z where "?d = rstrip_hyphens ?d @ y" "?t = rstrip_hyphens ?t @ z"
    using rstrip_prefix by meson
  then have pre: "\<exists>w. ?d = rstrip_hyphens ?t @ w"
    by (metis append.assoc append_take_drop_id)
  then have "hd (rstrip_hyphens ?t) = hd ?d" "?d \<noteq> []"
    using False s by (metis hd_append, metis append_is_Nil_conv)
  then have "hd (rstrip_hyphens ?t) \<noteq> CHR ''-''"
    using hd_dropWhile [of "\<lambda>c. c = CHR ''-''"] by metis
  then have "kebab (slugify_topic nf name)"
    using tidy_kebab [OF tidy] last_rstrip [of ?t] False s by simp
  moreover have "length (rstrip_hyphens ?t) \<le> 100"
  proof -
    have "length (rstrip_hyphens x) \<le> length x" for x
      unfolding rstrip_hyphens_def by (metis length_dropWhile_le length_rev)
    from this [of ?t] show ?thesis by simp
  qed
  ultimately show ?thesis
    using s False by (simp add: topic_slug_ok_def Suc_le_eq)
qed simp

section \<open>Merging\<close>

definition merged_entry :: "(string \<Rightarrow> string) \<Rightarrow> topic \<Rightarrow> topic \<Rightarrow> topic \<Rightarrow> topic" where
  "merged_entry nf source target t =
     (if topic_slug t = topic_slug source
      then source\<lparr>topic_aliases := [], topic_status := MERGED,
                  merged_into := Some (topic_slug target)\<rparr>
      else if topic_slug t = topic_slug target
      then target\<lparr>
             topic_aliases := dedupe_aliases nf
               (topic_aliases target @ topic_aliases source @ [topic_slug source]),
             distinct_from := filter (\<lambda>d. note_slug d \<noteq> topic_slug source) (distinct_from target)\<rparr>
      else t)"

lemma merged_topics_map: "merged_topics nf ts source target = map (merged_entry nf source target) ts"
  by (simp add: merged_topics_def merged_entry_def Let_def)

lemma merged_entry_slug [simp]: "topic_slug (merged_entry nf source target t) = topic_slug t"
  by (simp add: merged_entry_def)

lemma has_alias_dedupe:
  "has_alias_key nf k (t\<lparr>topic_aliases := dedupe_aliases nf xs\<rparr>)
     \<longleftrightarrow> k \<in> topic_lookup_key nf ` set xs"
  using dedup_key_keys [of "topic_lookup_key nf" "{}" xs]
  by (auto simp: has_alias_key_def dedupe_aliases_def image_iff set_eq_iff) metis+

lemma merged_entry_alias:
  assumes "topic_slug source \<noteq> topic_slug target"
  shows "topic_slug t = topic_slug source \<Longrightarrow> \<not> has_alias_key nf k (merged_entry nf source target t)"
    and "topic_slug t = topic_slug target \<Longrightarrow> has_alias_key nf k (merged_entry nf source target t)
           \<longleftrightarrow> has_alias_key nf k target \<or> has_alias_key nf k source
               \<or> topic_lookup_key nf (topic_slug source) = k"
    and "topic_slug t \<noteq> topic_slug source \<Longrightarrow> topic_slug t \<noteq> topic_slug target \<Longrightarrow>
           has_alias_key nf k (merged_entry nf source target t) = has_alias_key nf k t"
proof -
  show "topic_slug t = topic_slug source \<Longrightarrow> \<not> has_alias_key nf k (merged_entry nf source target t)"
    by (simp add: merged_entry_def has_alias_key_def)
  have "has_alias_key nf k (x\<lparr>distinct_from := ds\<rparr>) = has_alias_key nf k x" for x ds
    by (simp add: has_alias_key_def)
  moreover assume "topic_slug t = topic_slug target"
  ultimately show "has_alias_key nf k (merged_entry nf source target t)
      \<longleftrightarrow> has_alias_key nf k target \<or> has_alias_key nf k source
          \<or> topic_lookup_key nf (topic_slug source) = k"
    using assms has_alias_dedupe [of nf k _ target]
    by (auto simp: merged_entry_def has_alias_key_def image_iff)
qed (simp add: merged_entry_def)

lemma merged_entry_status:
  assumes "topic_slug source \<noteq> topic_slug target" "topic_status target = ACTIVE"
  shows "topic_slug t = topic_slug source \<Longrightarrow>
           topic_status (merged_entry nf source target t) = MERGED
           \<and> merged_into (merged_entry nf source target t) = Some (topic_slug target)"
    and "topic_slug t = topic_slug target \<Longrightarrow> topic_status (merged_entry nf source target t) = ACTIVE"
    and "topic_slug t \<noteq> topic_slug source \<Longrightarrow> topic_slug t \<noteq> topic_slug target \<Longrightarrow>
           merged_entry nf source target t = t"
  using assms by (auto simp: merged_entry_def)

lemma merged_none_into_source:
  assumes wf: "registry_wf nf (topics r)"
    and wf': "registry_wf nf (map (merged_entry nf source target) (topics r))"
    and src: "source \<in> set (topics r)" "topic_status source = ACTIVE"
    and tgt: "target \<in> set (topics r)" "topic_status target = ACTIVE"
    and ne: "topic_slug source \<noteq> topic_slug target"
    and u: "u \<in> set (topics r)" "topic_status u = MERGED"
  shows "merged_into u \<noteq> Some (topic_slug source)"
proof
  let ?F = "merged_entry nf source target"
  note st = merged_entry_status [OF ne tgt(2)]
  assume into: "merged_into u = Some (topic_slug source)"
  have "?F u = u"
    using st(3) [of u] u wf_slug_inj [OF wf u(1) src(1)] wf_slug_inj [OF wf u(1) tgt(1)] src(2) tgt(2)
    by (metis topic_status.distinct(1))
  then have "u \<in> set (map ?F (topics r))" using u(1) by force
  from wf_merged_target [OF wf' this u(2)] into
  obtain x where "x \<in> set (topics r)" "topic_slug x = topic_slug source" "topic_status (?F x) = ACTIVE"
    by auto
  then show False using st(1) [of x] by simp
qed

text \<open>Where the merged registry sends a value, in terms of the registry before.\<close>

lemma merged_resolves_to:
  assumes wf: "registry_wf nf (topics r)"
    and wf': "registry_wf nf (map (merged_entry nf source target) (topics r))"
    and src: "source \<in> set (topics r)" "topic_status source = ACTIVE"
    and tgt: "target \<in> set (topics r)" "topic_status target = ACTIVE"
    and ne: "topic_slug source \<noteq> topic_slug target"
    and q: "topics q = map (merged_entry nf source target) (topics r)"
  shows "(\<exists>t. resolves_to nf q v t \<and> topic_slug t = w) \<longleftrightarrow>
      (if resolves_to nf r v source
          \<or> (v \<notin> topic_slug ` set (topics r)
              \<and> topic_lookup_key nf v = topic_lookup_key nf (topic_slug source))
       then w = topic_slug target
       else \<exists>t. resolves_to nf r v t \<and> topic_slug t = w)"
    (is "?L \<longleftrightarrow> ?R")
proof -
  let ?F = "merged_entry nf source target"
  let ?S = "topic_slug ` set (topics r)"
  note st = merged_entry_status [OF ne tgt(2)]
  have inj: "x = y" if "x \<in> set (topics r)" "y \<in> set (topics r)" "topic_slug x = topic_slug y" for x y
    using wf_slug_inj [OF wf that] .
  have slugs: "topic_slug ` set (topics q) = ?S"
    by (simp add: q image_image)
  have L: "?L \<longleftrightarrow> (\<exists>y\<in>set (topics r). topic_slug y = w \<and> y \<noteq> source \<and> topic_status y = ACTIVE
      \<and> (w = v
         \<or> (\<exists>u\<in>set (topics r). topic_slug u = v \<and> topic_status (?F u) = MERGED
              \<and> merged_into (?F u) = Some w)
         \<or> (v \<notin> ?S \<and> has_alias_key nf (topic_lookup_key nf v) (?F y))))"
  proof -
    have act: "topic_status (?F y) = ACTIVE \<longleftrightarrow> y \<noteq> source \<and> topic_status y = ACTIVE"
      if "y \<in> set (topics r)" for y
      using st [of y] inj [OF that src(1)] inj [OF that tgt(1)] tgt(2) by (metis topic_status.distinct(1))
    have "?L \<longleftrightarrow> (\<exists>y\<in>set (topics r). topic_slug y = w \<and> topic_status (?F y) = ACTIVE
      \<and> (w = v
         \<or> (\<exists>u\<in>set (topics r). topic_slug u = v \<and> topic_status (?F u) = MERGED
              \<and> merged_into (?F u) = Some w)
         \<or> (v \<notin> ?S \<and> has_alias_key nf (topic_lookup_key nf v) (?F y))))"
      unfolding resolves_to_def slugs unfolding q by auto
    then show ?thesis using act by blast
  qed
  note none_into_source = merged_none_into_source [OF wf wf' src tgt ne]
  have alias_not_source: "topic_lookup_key nf (topic_slug source) \<noteq> k"
    if "y \<in> set (topics r)" "has_alias_key nf k y" for y k
    using wf that src unfolding registry_wf_def has_alias_key_def
    by (metis topic_status.distinct(1))
  show ?thesis
  proof (cases "v \<in> ?S")
    case True
    then obtain e where e: "e \<in> set (topics r)" "topic_slug e = v" by blast
    have only: "u = e" if "u \<in> set (topics r)" "topic_slug u = v" for u
      using inj [OF that(1) e(1)] that(2) e(2) by simp
    show ?thesis
    proof (cases "e = source")
      case True
      have "w \<noteq> v" if "y \<in> set (topics r)" "topic_slug y = w" "y \<noteq> source" for y
        using that only [of y] True by auto
      moreover have "target \<noteq> source" using ne by auto
      moreover have "topic_status (?F u) = MERGED \<and> merged_into (?F u) = Some w
          \<longleftrightarrow> w = topic_slug target" if "u \<in> set (topics r)" "topic_slug u = v" for u
        using only [OF that] st(1) [of u] True by auto
      ultimately have "?L \<longleftrightarrow> w = topic_slug target"
        unfolding L using e tgt by blast
      moreover have "resolves_to nf r v source"
        using True e src(2) by (simp add: resolves_to_def)
      ultimately show ?thesis by simp
    next
      case False
      have Fe: "topic_status (?F e) = MERGED \<and> merged_into (?F e) = Some w
          \<longleftrightarrow> topic_status e = MERGED \<and> merged_into e = Some w"
        using st [of e] inj [OF e(1) src(1)] inj [OF e(1) tgt(1)] False tgt(2)
        by (metis topic_status.distinct(1))
      have ex_only: "(\<exists>u\<in>set (topics r). topic_slug u = v \<and> P u) \<longleftrightarrow> P e" for P
        using only e by blast
      have Rv: "resolves_to nf r v t \<longleftrightarrow> t \<in> set (topics r) \<and> topic_status t = ACTIVE
          \<and> (topic_slug t = v \<or> (topic_status e = MERGED \<and> merged_into e = Some (topic_slug t)))" for t
        unfolding resolves_to_def ex_only using \<open>v \<in> ?S\<close> by simp
      have nsrc: "\<not> resolves_to nf r v source"
        unfolding Rv using only [OF src(1)] False none_into_source [OF e(1)] by blast
      have "?L \<longleftrightarrow> (\<exists>y\<in>set (topics r). topic_slug y = w \<and> y \<noteq> source \<and> topic_status y = ACTIVE
          \<and> (w = v \<or> (topic_status e = MERGED \<and> merged_into e = Some w)))"
        unfolding L ex_only Fe using \<open>v \<in> ?S\<close> by simp
      also have "\<dots> \<longleftrightarrow> (\<exists>t. resolves_to nf r v t \<and> topic_slug t = w)"
        using nsrc unfolding Rv by blast
      finally show ?thesis using nsrc \<open>v \<in> ?S\<close> by simp
    qed
  next
    case False
    let ?k = "topic_lookup_key nf v"
    have no_exact: "\<not> (\<exists>u\<in>set (topics r). topic_slug u = v \<and> P u)" for P
      using False by blast
    have Rv: "resolves_to nf r v t \<longleftrightarrow>
        t \<in> set (topics r) \<and> topic_status t = ACTIVE \<and> has_alias_key nf ?k t" for t
      using False by (auto simp: resolves_to_def)
    have L2: "?L \<longleftrightarrow> (\<exists>y\<in>set (topics r). topic_slug y = w \<and> y \<noteq> source \<and> topic_status y = ACTIVE
        \<and> has_alias_key nf ?k (?F y))"
      unfolding L using False by blast
    show ?thesis
    proof (cases "has_alias_key nf ?k source \<or> ?k = topic_lookup_key nf (topic_slug source)")
      case True
      have "y = target" if y: "y \<in> set (topics r)" "y \<noteq> source" "has_alias_key nf ?k (?F y)" for y
      proof (rule ccontr)
        assume "y \<noteq> target"
        then have "has_alias_key nf ?k y"
          using merged_entry_alias(3) [OF ne, of y nf ?k] y inj [OF y(1)] src(1) tgt(1) by blast
        then show False
          using True alias_not_source [OF y(1)] wf_alias_owner [OF wf y(1) src(1)] y(2) by metis
      qed
      moreover have "has_alias_key nf ?k (?F target)"
        using True merged_entry_alias(2) [OF ne, of target] by auto
      moreover have "target \<noteq> source" using ne by auto
      ultimately have "?L \<longleftrightarrow> w = topic_slug target"
        unfolding L2 using tgt by blast
      then show ?thesis using True False src Rv by auto
    next
      case no: False
      have "has_alias_key nf ?k (?F y) = has_alias_key nf ?k y"
        if "y \<in> set (topics r)" "y \<noteq> source" for y
        using merged_entry_alias(2,3) [OF ne, of y nf ?k] no inj [OF that(1)] that src(1) tgt(1)
        by metis
      then have "?L \<longleftrightarrow> (\<exists>t. resolves_to nf r v t \<and> topic_slug t = w)"
        unfolding L2 Rv using no by blast
      then show ?thesis using no Rv by auto
    qed
  qed
qed

lemma require_active_slug_Inr:
  assumes "registry_wf nf (topics r)"
  shows "require_active_slug r s = Inr t \<longleftrightarrow>
           t \<in> set (topics r) \<and> topic_slug t = s \<and> topic_status t = ACTIVE"
proof -
  note get = registry_get_Some [OF wf_distinct [OF assms], of s]
  show ?thesis
  proof (cases "registry_get r s")
    case None
    then show ?thesis using get [of t] by (auto simp: require_active_slug_def)
  next
    case (Some u)
    then show ?thesis using get [of u] get [of t] by (auto simp: require_active_slug_def)
  qed
qed

lemma validated_registry_Inr:
  "validated_registry nf ts = Inr r \<longleftrightarrow>
     r = \<lparr>registry_version = 1, topics = ts\<rparr> \<and> validate_registry nf r = Inr r"
proof (cases "validate_registry nf \<lparr>registry_version = 1, topics = ts\<rparr>")
  case (Inr q)
  then have "q = \<lparr>registry_version = 1, topics = ts\<rparr>" by (simp add: validate_registry_iff)
  with Inr show ?thesis by (auto simp: validated_registry_def)
qed (auto simp: validated_registry_def)

lemma merge_topics_parts:
  assumes "validate_registry nf (snap_registry snap) = Inr (snap_registry snap)"
    and "merge_topics nf now snap docs s t = Inr (r', plan)"
  obtains source target where
    "registry_wf nf (topics (snap_registry snap))"
    "source \<in> set (topics (snap_registry snap))" "topic_status source = ACTIVE" "topic_slug source = s"
    "target \<in> set (topics (snap_registry snap))" "topic_status target = ACTIVE" "topic_slug target = t"
    "s \<noteq> t" "validate_registry nf r' = Inr r'"
    "topics r' = map (merged_entry nf source target) (topics (snap_registry snap))"
proof -
  have wf: "registry_wf nf (topics (snap_registry snap))"
    using assms(1) by (simp add: validate_registry_iff)
  obtain source target where
    "require_active_slug (snap_registry snap) s = Inr source"
    "require_active_slug (snap_registry snap) t = Inr target" "s \<noteq> t"
    "validated_registry nf (merged_topics nf (topics (snap_registry snap)) source target) = Inr r'"
    using assms(2)
    by (auto simp: merge_topics_def result_simps Let_def split: if_splits prod.splits bool.splits option.splits)
  with that [OF wf, of source target] show thesis
    by (auto simp: require_active_slug_Inr [OF wf] validated_registry_Inr merged_topics_map)
qed

lemma merge_resolve_slug:
  assumes "validate_registry nf (snap_registry snap) = Inr (snap_registry snap)"
    and "merge_topics nf now snap docs s t = Inr (r', plan)"
  shows "resolve_slug nf r' v =
      (if resolve_slug nf (snap_registry snap) v = Some s
          \<or> (v \<notin> topic_slug ` set (topics (snap_registry snap))
              \<and> topic_lookup_key nf v = topic_lookup_key nf s)
       then Some t else resolve_slug nf (snap_registry snap) v)"
proof -
  let ?r = "snap_registry snap"
  from assms obtain source target where m:
    "registry_wf nf (topics ?r)"
    "source \<in> set (topics ?r)" "topic_status source = ACTIVE" "topic_slug source = s"
    "target \<in> set (topics ?r)" "topic_status target = ACTIVE" "topic_slug target = t"
    "s \<noteq> t" "validate_registry nf r' = Inr r'"
    "topics r' = map (merged_entry nf source target) (topics ?r)"
    by (rule merge_topics_parts)
  have wf': "registry_wf nf (topics r')"
    using m(9) by (simp add: validate_registry_iff)
  have src: "resolve_slug nf ?r v = Some s \<longleftrightarrow> resolves_to nf ?r v source"
    using resolve_slug_Some [OF m(1), of v s] wf_slug_inj [OF m(1) _ m(2)] m(4)
    by (auto simp: resolves_to_def)
  show ?thesis
  proof (rule option_eqI)
    fix w
    show "resolve_slug nf r' v = Some w \<longleftrightarrow>
      (if resolve_slug nf ?r v = Some s
          \<or> (v \<notin> topic_slug ` set (topics ?r) \<and> topic_lookup_key nf v = topic_lookup_key nf s)
       then Some t else resolve_slug nf ?r v) = Some w"
      using merged_resolves_to [OF m(1) _ m(2,3,5,6) _ m(10), of v w] wf' m(4,7,8,10)
      unfolding src unfolding resolve_slug_Some [OF wf', symmetric]
        resolve_slug_Some [OF m(1), symmetric]
      by (simp add: eq_commute [of w t] split: if_splits)
  qed
qed

definition sample_snapshot :: registry_snapshot where
  "sample_snapshot =
     \<lparr>snap_registry = sample_registry, snap_exists = True, snap_hash = Some ''h0''\<rparr>"

lemma sample_snapshot_valid:
  "validate_registry id (snap_registry sample_snapshot) = Inr (snap_registry sample_snapshot)"
  by (simp add: sample_snapshot_def sample_registry_valid)

lemma sample_merge:
  obtains r' plan where
    "merge_topics id 5 sample_snapshot [] ''billing'' ''search'' = Inr (r', plan)"
proof -
  have "\<not> isl (merge_topics id 5 sample_snapshot [] ''billing'' ''search'')"
    by code_simp
  then show thesis
    using that by (cases "merge_topics id 5 sample_snapshot [] ''billing'' ''search''") auto
qed

text \<open>
  C23: A merge leaves a valid registry in which every spelling that resolved to the source resolves
  to the target, the other spellings of the source slug resolve to the target as well, and every
  remaining value resolves exactly as before.
\<close>

theorem merge_resolution:
  assumes "validate_registry nf (snap_registry snap) = Inr (snap_registry snap)"
    and "merge_topics nf now snap docs s t = Inr (r', plan)"
  shows "validate_registry nf r' = Inr r'
     \<and> (\<forall>v. resolve_slug nf r' v =
          (if resolve_slug nf (snap_registry snap) v = Some s
              \<or> (v \<notin> topic_slug ` set (topics (snap_registry snap))
                  \<and> topic_lookup_key nf v = topic_lookup_key nf s)
           then Some t else resolve_slug nf (snap_registry snap) v))"
  using merge_resolve_slug [OF assms] merge_topics_parts [OF assms] by metis

theorem merge_resolution_witness:
  "\<exists>r' plan. merge_topics id 5 sample_snapshot [] ''billing'' ''search'' = Inr (r', plan)
     \<and> resolve_slug id r' ''bills'' = Some ''search''"
proof -
  obtain r' plan where m: "merge_topics id 5 sample_snapshot [] ''billing'' ''search'' = Inr (r', plan)"
    by (rule sample_merge)
  have "resolve_slug id (snap_registry sample_snapshot) ''bills'' = Some ''billing''"
    by code_simp
  then show ?thesis
    using m merge_resolution [OF sample_snapshot_valid m] by simp
qed

definition retag_one :: "(string \<Rightarrow> string) \<Rightarrow> topic_registry \<Rightarrow> string \<Rightarrow> string \<Rightarrow> string \<Rightarrow> string" where
  "retag_one nf r s t v = (if resolve_slug nf r v = Some s then t else v)"

lemma retag_values_dedup:
  "retag_values nf values r s t = dedup_key id {} (map (retag_one nf r s t) values)"
proof -
  have step: "(case resolve nf r v of None \<Rightarrow> v
       | Some res \<Rightarrow> if topic_slug (resolved res) = s then t else v) = retag_one nf r s t v" for v
    by (simp add: retag_one_def resolve_slug_def split: option.splits)
  have collect: "foldl (\<lambda>acc v. if f v \<in> set acc then acc else acc @ [f v]) acc vs
      = acc @ dedup_key id (set acc) (map f vs)" for f :: "string \<Rightarrow> string" and acc vs
    by (induction vs arbitrary: acc) auto
  show ?thesis
    using collect [of "retag_one nf r s t" "[]" "values"]
    by (simp add: retag_values_def step Let_def)
qed

text \<open>
  C24: Retagging follows the merge: for a document whose values all resolve, the rewritten value
  list has no duplicates and resolves, in the merged registry, to exactly the topics the old list
  resolved to, with the source replaced by the target.
\<close>

theorem merge_retag_resolution:
  assumes "validate_registry nf (snap_registry snap) = Inr (snap_registry snap)"
    and "merge_topics nf now snap docs s t = Inr (r', plan)"
    and "\<forall>v\<in>set values. resolve_slug nf (snap_registry snap) v \<noteq> None"
  shows "distinct (retag_values nf values (snap_registry snap) s t)
     \<and> resolve_slug nf r' ` set (retag_values nf values (snap_registry snap) s t)
       = map_option (\<lambda>x. if x = s then t else x) ` resolve_slug nf (snap_registry snap) ` set values"
proof -
  let ?r = "snap_registry snap"
  let ?one = "retag_one nf ?r s t"
  from assms(1,2) obtain source target where m:
    "registry_wf nf (topics ?r)" "source \<in> set (topics ?r)" "topic_status source = ACTIVE"
    "topic_slug source = s" "target \<in> set (topics ?r)" "topic_status target = ACTIVE"
    "topic_slug target = t" "s \<noteq> t"
    by (rule merge_topics_parts)
  have "resolves_to nf ?r t target"
    using m by (simp add: resolves_to_def)
  then have t: "resolve_slug nf ?r t = Some t" "t \<in> topic_slug ` set (topics ?r)"
    using resolve_slug_Some [OF m(1), of t t] m(5,7) by auto
  have hidden: "False" if k: "resolve_slug nf ?r v = Some x" "x \<noteq> s"
      "v \<notin> topic_slug ` set (topics ?r)" "topic_lookup_key nf v = topic_lookup_key nf s" for v x
  proof -
    obtain y where y: "y \<in> set (topics ?r)" "has_alias_key nf (topic_lookup_key nf v) y"
      using k(1,3) resolve_slug_Some [OF m(1), of v x] unfolding resolves_to_def by blast
    then show False
      using m(1-4) k(4) unfolding registry_wf_def has_alias_key_def
      by (metis topic_status.distinct(1))
  qed
  have one: "resolve_slug nf r' (?one v)
      = map_option (\<lambda>x. if x = s then t else x) (resolve_slug nf ?r v)" if v: "v \<in> set values" for v
  proof -
    obtain x where x: "resolve_slug nf ?r v = Some x" using assms(3) v by auto
    show ?thesis
    proof (cases "x = s")
      case True
      then show ?thesis using x t m(8) merge_resolve_slug [OF assms(1,2), of t]
        by (simp add: retag_one_def)
    next
      case False
      with x hidden [OF x False] show ?thesis
        using merge_resolve_slug [OF assms(1,2), of v] by (auto simp: retag_one_def)
    qed
  qed
  have "set (retag_values nf values ?r s t) = ?one ` set values"
    using dedup_key_keys [of id "{}" "map ?one values"] by (simp add: retag_values_dedup)
  then have "resolve_slug nf r' ` set (retag_values nf values ?r s t)
      = map_option (\<lambda>x. if x = s then t else x) ` resolve_slug nf ?r ` set values"
    by (simp add: image_image one)
  moreover have "distinct (retag_values nf values ?r s t)"
    using dedup_key_distinct [of id "{}" "map ?one values"] by (simp add: retag_values_dedup)
  ultimately show ?thesis by simp
qed


theorem merge_retag_resolution_witness:
  "\<exists>r' plan. merge_topics id 5 sample_snapshot [] ''billing'' ''search'' = Inr (r', plan)
     \<and> resolve_slug id r' ` set (retag_values id [''bills'', ''search''] (snap_registry sample_snapshot)
           ''billing'' ''search'') = {Some ''search''}"
proof -
  obtain r' plan where m: "merge_topics id 5 sample_snapshot [] ''billing'' ''search'' = Inr (r', plan)"
    by (rule sample_merge)
  have "resolve_slug id (snap_registry sample_snapshot) ''bills'' = Some ''billing''"
    "resolve_slug id (snap_registry sample_snapshot) ''search'' = Some ''search''"
    by code_simp+
  then show ?thesis
    using m merge_retag_resolution [OF sample_snapshot_valid m, of "[''bills'', ''search'']"] by auto
qed

text \<open>A registry in which billing has already absorbed another topic.\<close>

definition absorbed_snapshot :: registry_snapshot where
  "absorbed_snapshot = sample_snapshot\<lparr>snap_registry := sample_registry\<lparr>topics := topics sample_registry
     @ [(sample_topic ''invoices'' [])\<lparr>topic_status := MERGED, merged_into := Some ''billing''\<rparr>]\<rparr>\<rparr>"

text \<open>
  C25: A topic that has absorbed another one can no longer be merged away: whenever some topic of a
  valid registry is already merged into the source, the merge is refused, because the topic merged
  earlier would then point to a topic that is not active.
\<close>

theorem merge_of_absorber_refused:
  assumes "validate_registry nf (snap_registry snap) = Inr (snap_registry snap)"
    and "u \<in> set (topics (snap_registry snap))" "merged_into u = Some s"
  shows "\<exists>e. merge_topics nf now snap docs s t = Inl e"
proof (rule ccontr)
  assume "\<not> ?thesis"
  then obtain r' plan where ok: "merge_topics nf now snap docs s t = Inr (r', plan)"
    by (metis surj_pair sumE)
  from assms(1) ok obtain source target where m:
    "registry_wf nf (topics (snap_registry snap))"
    "source \<in> set (topics (snap_registry snap))" "topic_status source = ACTIVE" "topic_slug source = s"
    "target \<in> set (topics (snap_registry snap))" "topic_status target = ACTIVE" "topic_slug target = t"
    "s \<noteq> t" "validate_registry nf r' = Inr r'"
    "topics r' = map (merged_entry nf source target) (topics (snap_registry snap))"
    by (rule merge_topics_parts)
  have wf': "registry_wf nf (map (merged_entry nf source target) (topics (snap_registry snap)))"
    using m(9,10) by (simp add: validate_registry_iff)
  have "topic_ok nf u"
    using assms(1,2) by (auto simp: validate_registry_iff list_all_iff)
  then have "topic_status u = MERGED"
    using assms(3) by (auto simp: topic_ok_def)
  then show False
    using merged_none_into_source [OF m(1) wf' m(2,3,5,6)] assms(2,3) m(4,7,8) by metis
qed

theorem merge_of_absorber_refused_witness:
  "\<exists>e. merge_topics id 5 absorbed_snapshot [] ''billing'' ''search'' = Inl e"
proof (rule merge_of_absorber_refused)
  show "validate_registry id (snap_registry absorbed_snapshot)
      = Inr (snap_registry absorbed_snapshot)"
    by code_simp
  show "(sample_topic ''invoices'' [])\<lparr>topic_status := MERGED, merged_into := Some ''billing''\<rparr>
      \<in> set (topics (snap_registry absorbed_snapshot))"
    by (simp add: absorbed_snapshot_def)
qed (simp add: sample_topic_def)

section \<open>Adding a topic, adding an alias\<close>

lemma mutate_registry_Inr:
  "mutate_registry now action t snap r = Inr (u, plan) \<Longrightarrow> u = t \<and>
     (if snap_exists snap
      then \<exists>h. snap_hash snap = Some h \<and> plan_operations plan = [Update_registry r h]
             \<and> plan_preconditions plan = [Path_hash registry_path h]
      else plan_operations plan = [Create_registry r]
             \<and> plan_preconditions plan = [Path_absent registry_path])"
  by (auto simp: mutate_registry_def result_simps split: if_splits option.splits)

text \<open>
  C28: Adding a topic without an explicit distinction succeeds only when the duplicate guard finds
  nothing; the plan then writes one registry, which is valid and is the old one with the new active
  topic appended, and is pinned to the registry file that was read.
\<close>

theorem add_topic_appends:
  assumes "add_topic nf now snap name scope slug aliases None reason = Inr (t, plan)"
  shows "find_duplicate_topics nf name (topic_slug t) (snap_registry snap) = []
     \<and> topic_status t = ACTIVE \<and> topic_ok nf t
     \<and> (\<exists>r'. topics r' = topics (snap_registry snap) @ [t] \<and> validate_registry nf r' = Inr r'
          \<and> (if snap_exists snap
              then \<exists>h. snap_hash snap = Some h \<and> plan_operations plan = [Update_registry r' h]
                     \<and> plan_preconditions plan = [Path_hash registry_path h]
              else plan_operations plan = [Create_registry r']
                     \<and> plan_preconditions plan = [Path_absent registry_path]))"
proof -
  have none: "validate_distinction r ms None why = Inr d \<Longrightarrow> d = None \<and> ms = []" for r ms why d
    by (cases why) (auto simp: validate_distinction_def filter_empty_conv split: if_splits)
  let ?slug = "case slug of Some s \<Rightarrow> if s = [] then slugify_topic nf name else s
               | None \<Rightarrow> slugify_topic nf name"
  define t0 where "t0 d = \<lparr>topic_slug = ?slug, topic_name = name, topic_scope = scope,
      topic_aliases = aliases, topic_status = ACTIVE, merged_into = None, topic_created_at = now,
      distinct_from = (case d of None \<Rightarrow> [] | Some d \<Rightarrow> [d])\<rparr>" for d
  have t0: "topic_slug (t0 d) = ?slug" "topic_status (t0 d) = ACTIVE" for d
    by (simp_all add: t0_def)
  from assms obtain d r' where d:
    "validate_distinction (snap_registry snap)
       (find_duplicate_topics nf name ?slug (snap_registry snap)) None reason = Inr d"
    "topic_ok nf (t0 d)"
    "validated_registry nf (topics (snap_registry snap) @ [t0 d]) = Inr r'"
    "mutate_registry now ''add'' (t0 d) snap r' = Inr (t, plan)"
    unfolding add_topic_def Let_def t0_def [symmetric]
    by (auto simp: result_simps validate_topic_iff split: if_splits)
  moreover from d(4) have "t = t0 d" by (rule mutate_registry_Inr [THEN conjunct1])
  moreover from d(3) have "topics r' = topics (snap_registry snap) @ [t0 d]"
    "validate_registry nf r' = Inr r'"
    unfolding validated_registry_Inr by (simp, blast)
  ultimately show ?thesis
    using none [OF d(1)] mutate_registry_Inr [OF d(4)] t0 [of d] by metis
qed

theorem add_topic_appends_witness:
  "find_duplicate_topics id ''ledger'' ''ledger'' (snap_registry sample_snapshot) = []"
proof -
  have "\<not> isl (add_topic id 5 sample_snapshot ''ledger'' ''scope'' None [] None None)"
    by code_simp
  then obtain t plan where
    t: "add_topic id 5 sample_snapshot ''ledger'' ''scope'' None [] None None = Inr (t, plan)"
    by (cases "add_topic id 5 sample_snapshot ''ledger'' ''scope'' None [] None None") auto
  have "topic_slug (fst (projr (add_topic id 5 sample_snapshot ''ledger'' ''scope'' None [] None None)))
      = ''ledger''"
    by code_simp
  then show ?thesis
    using add_topic_appends [OF t] t by simp
qed

text \<open>
  C29: An added alias resolves: when the alias is new, the registry that the plan writes is valid,
  and the alias resolves in it to the topic it was added to unless it is spelled like a slug;
  an alias already present changes nothing.
\<close>

theorem add_alias_resolves:
  assumes "validate_registry nf (snap_registry snap) = Inr (snap_registry snap)"
    and "add_alias nf now snap slug alias = Inr res"
    and "alias \<notin> topic_slug ` set (topics (snap_registry snap))"
  shows "case res of
      Alias_present t \<Rightarrow> resolve_slug nf (snap_registry snap) alias = Some slug
    | Alias_added t plan \<Rightarrow> \<exists>r' op. plan_operations plan = [op]
        \<and> (op = Create_registry r' \<or> (\<exists>h. op = Update_registry r' h))
        \<and> validate_registry nf r' = Inr r' \<and> resolve_slug nf r' alias = Some slug"
proof -
  let ?r = "snap_registry snap"
  have wf: "registry_wf nf (topics ?r)" using assms(1) by (simp add: validate_registry_iff)
  from assms(2) obtain t where t: "require_active_slug ?r slug = Inr t"
    by (auto simp: add_alias_def result_simps)
  then have ts: "t \<in> set (topics ?r)" "topic_slug t = slug" "topic_status t = ACTIVE"
    by (simp_all add: require_active_slug_Inr [OF wf])
  show ?thesis
  proof (cases "\<exists>a\<in>set (topic_aliases t). topic_lookup_key nf a = topic_lookup_key nf alias")
    case True
    then have "resolves_to nf ?r alias t"
      using ts assms(3) by (auto simp: resolves_to_def has_alias_key_def)
    then have "resolve_slug nf ?r alias = Some slug"
      using resolve_slug_Some [OF wf] ts(2) by blast
    with True t assms(2) show ?thesis
      by (auto simp: add_alias_def Let_def split: if_splits)
  next
    case False
    let ?u = "t\<lparr>topic_aliases := topic_aliases t @ [alias]\<rparr>"
    let ?ts = "map (\<lambda>x. if topic_slug x = slug then ?u else x) (topics ?r)"
    from False t assms(2) obtain r' plan u where res: "res = Alias_added u plan"
      "validated_registry nf ?ts = Inr r'" "mutate_registry now ''alias'' ?u snap r' = Inr (u, plan)"
      using ts(2) by (auto simp: add_alias_def Let_def result_simps replace_topic_def split: if_splits)
    have r': "validate_registry nf r' = Inr r'" "topics r' = ?ts"
      using res(2) by (auto simp: validated_registry_Inr)
    then have wf': "registry_wf nf (topics r')" by (simp add: validate_registry_iff)
    have "map topic_slug (topics r') = map topic_slug (topics ?r)"
      using ts(2) by (simp add: r'(2))
    then have "topic_slug ` set (topics r') = topic_slug ` set (topics ?r)"
      by (metis set_map)
    moreover have "?u \<in> set (topics r')" using ts(1,2) by (auto simp: r'(2))
    ultimately have "resolves_to nf r' alias ?u"
      using assms(3) ts(3) by (auto simp: resolves_to_def has_alias_key_def)
    then have "resolve_slug nf r' alias = Some slug"
      using resolve_slug_Some [OF wf'] ts(2) by force
    then show ?thesis
      using mutate_registry_Inr [OF res(3)] r'(1) res(1) by (auto split: if_splits)
  qed
qed

theorem add_alias_resolves_witness:
  "\<exists>u plan r' op. add_alias id 5 sample_snapshot ''billing'' ''invoices'' = Inr (Alias_added u plan)
     \<and> plan_operations plan = [op] \<and> (op = Create_registry r' \<or> (\<exists>h. op = Update_registry r' h))
     \<and> resolve_slug id r' ''invoices'' = Some ''billing''"
proof -
  have "case add_alias id 5 sample_snapshot ''billing'' ''invoices'' of
      Inr (Alias_added u plan) \<Rightarrow> True | _ \<Rightarrow> False"
    by code_simp
  then obtain u plan where
    a: "add_alias id 5 sample_snapshot ''billing'' ''invoices'' = Inr (Alias_added u plan)"
    by (auto split: sum.splits alias_result.splits)
  have "''invoices'' \<notin> topic_slug ` set (topics (snap_registry sample_snapshot))"
    by (simp add: sample_snapshot_def sample_registry_def sample_topic_def)
  from add_alias_resolves [OF sample_snapshot_valid a this] a show ?thesis by auto
qed

end
