(* ===== verification/Disk.thy ===== *)
theory Disk
  imports Prelude
begin

text \<open>
  The file system that the adapters of \<open>src/src/workctx/adapters/filesystem\<close> work on, as an
  explicit state: which path holds which file, which nonce \<open>98_state/lock.json\<close> carries, and what
  the environment does at the next system calls (a sharing violation, a crash, another session
  taking the lock, an edit from outside). An operation of the code is a function from the state to
  an outcome and the new state. Symbolic links, junctions and mount points are not modelled: the
  checks against them are constantly satisfied. A completed write is durable, since the code
  synchronises every file and directory it changes before it relies on it.
\<close>

section \<open>State\<close>

text \<open>A JSON value, as \<open>json.load\<close> yields it with the object pairs in file order. A file holds
  bytes or a JSON document; bytes that are no document stand for any malformed text.\<close>

datatype json =
    JNull
  | JBool bool
  | JInt int
  | JStr string
  | JList "json list"
  | JObj "(string \<times> json) list"

datatype content = Bytes bytes | Document json

datatype node = File content | Dir

type_synonym fpath = "string list"

datatype event =
    Go
  | Deny
  | Crash nat
  | Steal "string option"
  | Edit fpath content

record world =
  nodes :: "fpath \<Rightarrow> node option"
  disk_nonce :: "string option"
  world_context :: string
  events :: "event list"
  tokens :: "string list"

text \<open>The exception classes the callers distinguish. \<open>Crashed\<close> is the death of the process: no
  handler and no \<open>finally\<close> block runs after it.\<close>

datatype exn =
    Recovery_required
  | Invalid_intent
  | Staging_error
  | Recoverable_replace
  | Lock_fence
  | Context_boundary
  | Os_error
  | Value_error
  | Ledger_integrity
  | Receipt_invalid
  | Recovery_pending
  | Proposal_invalid
  | Stale_revision
  | Duplicate_proposal
  | Transaction_conflict
  | Lock_held
  | Lock_error
  | Crashed

section \<open>Actions\<close>

type_synonym 'a reader = "world \<Rightarrow> exn + 'a"
type_synonym 'a action = "world \<Rightarrow> (exn + 'a) \<times> world"

definition ret :: "'a \<Rightarrow> 'a action" where
  "ret x w = (Inr x, w)"

definition fail :: "exn \<Rightarrow> 'a action" where
  "fail e w = (Inl e, w)"

definition lift :: "'a reader \<Rightarrow> 'a action" where
  "lift f w = (f w, w)"

definition and_then :: "'a action \<Rightarrow> ('a \<Rightarrow> 'b action) \<Rightarrow> 'b action" where
  "and_then m k w = (case m w of (Inl e, w') \<Rightarrow> (Inl e, w') | (Inr x, w') \<Rightarrow> k x w')"

definition check :: "bool \<Rightarrow> exn \<Rightarrow> unit action" where
  "check ok e = (if ok then ret () else fail e)"

text \<open>\<open>try: m finally: c\<close>; the clean-up is skipped when the process dies.\<close>

definition finally_do :: "'a action \<Rightarrow> unit action \<Rightarrow> 'a action" where
  "finally_do m c w =
     (case m w of
        (Inl Crashed, w') \<Rightarrow> (Inl Crashed, w')
      | (r, w') \<Rightarrow> (case c w' of (Inl e, w'') \<Rightarrow> (Inl e, w'') | (Inr _, w'') \<Rightarrow> (r, w'')))"

fun for_each :: "('a \<Rightarrow> unit action) \<Rightarrow> 'a list \<Rightarrow> unit action" where
  "for_each f [] = ret ()"
| "for_each f (x # xs) = and_then (f x) (\<lambda>_. for_each f xs)"

lemma action_simps [step_simps]:
  "ret x w = (Inr x, w)"
  "fail e w = (Inl e, w)"
  "lift f w = (f w, w)"
  "check True e w = (Inr (), w)"
  "check False e w = (Inl e, w)"
  by (simp_all add: ret_def fail_def lift_def check_def)

lemma and_then_Inr [step_simps]: "m w = (Inr x, w') \<Longrightarrow> and_then m k w = k x w'"
  by (simp add: and_then_def)

lemma and_then_Inl [step_simps]: "m w = (Inl e, w') \<Longrightarrow> and_then m k w = (Inl e, w')"
  by (simp add: and_then_def)

lemma and_then_cases:
  assumes "and_then m k w = (r, w')"
  obtains (fails) e where "m w = (Inl e, w')" "r = Inl e"
    | (passes) x v where "m w = (Inr x, v)" "k x v = (r, w')"
  using assms by (auto simp: and_then_def split: prod.splits sum.splits)

lemma and_then_assoc: "and_then (and_then m k) h = and_then m (\<lambda>x. and_then (k x) h)"
  by (rule ext) (simp add: and_then_def split: prod.splits sum.splits)

text \<open>The environment acts before the next system call: it may change a file, replace the lock,
  or kill the process; \<open>Deny\<close> makes the call itself fail with a sharing violation.\<close>

definition next_event :: "event action" where
  "next_event w =
     (case events w of
        [] \<Rightarrow> (Inr Go, w)
      | ev # rest \<Rightarrow>
          (let w' = w\<lparr>events := rest\<rparr> in
           case ev of
             Crash k \<Rightarrow> (Inl Crashed, w')
           | Steal n \<Rightarrow> (Inr Go, w'\<lparr>disk_nonce := n\<rparr>)
           | Edit p c \<Rightarrow> (Inr Go, w'\<lparr>nodes := (nodes w')(p \<mapsto> File c)\<rparr>)
           | _ \<Rightarrow> (Inr ev, w')))"

definition next_token :: "string action" where
  "next_token w =
     (case tokens w of [] \<Rightarrow> (Inr [], w) | t # rest \<Rightarrow> (Inr t, w\<lparr>tokens := rest\<rparr>))"

section \<open>Paths\<close>

text \<open>\<open>_paths.py\<close>: a relative path is validated and split into its parts; the path of the context
  root is the empty list.\<close>

definition portable_parts :: "string \<Rightarrow> exn + fpath" where
  "portable_parts raw =
     (if raw = [] \<or> CHR 0x00 \<in> set raw then Inl Context_boundary
      else if (1 < length raw \<and> raw ! 1 = CHR '':'')
              \<or> hd raw = CHR ''/'' \<or> hd raw = CHR 0x5C
      then Inl Context_boundary
      else let parts = split_on CHR ''/'' (map (\<lambda>c. if c = CHR 0x5C then CHR ''/'' else c) raw)
           in if \<exists>p\<in>set parts. p \<in> {[], ''.'', ''..''} then Inl Context_boundary
              else Inr parts)"

definition as_posix :: "fpath \<Rightarrow> string" where
  "as_posix p = join_on CHR ''/'' p"

definition in_zone :: "string \<Rightarrow> string \<Rightarrow> bool" where
  "in_zone text zone \<longleftrightarrow> text = zone \<or> prefix (zone @ ''/'') text"

definition allowed_location :: "string list \<Rightarrow> string list \<Rightarrow> fpath \<Rightarrow> bool" where
  "allowed_location zones root_files p \<longleftrightarrow>
     (zones = [] \<and> root_files = [])
     \<or> as_posix p \<in> set root_files \<or> (\<exists>z\<in>set zones. in_zone (as_posix p) z)"

definition is_file :: "world \<Rightarrow> fpath \<Rightarrow> bool" where
  "is_file w p \<longleftrightarrow> p \<noteq> [] \<and> (case nodes w p of Some (File _) \<Rightarrow> True | _ \<Rightarrow> False)"

definition is_dir :: "world \<Rightarrow> fpath \<Rightarrow> bool" where
  "is_dir w p \<longleftrightarrow> p = [] \<or> nodes w p = Some Dir"

definition path_exists :: "world \<Rightarrow> fpath \<Rightarrow> bool" where
  "path_exists w p \<longleftrightarrow> p = [] \<or> nodes w p \<noteq> None"

definition marker :: "fpath \<Rightarrow> fpath" where
  "marker d = d @ [''context.yaml'']"

definition nested_context_free :: "world \<Rightarrow> fpath \<Rightarrow> bool" where
  "nested_context_free w p \<longleftrightarrow>
     (let current = (if is_dir w p then p else butlast p)
      in \<forall>k\<in>set [1..<Suc (length current)]. \<not> is_file w (marker (take k current)))"

definition resolve_context_path ::
  "string list \<Rightarrow> string list \<Rightarrow> string \<Rightarrow> fpath reader" where
  "resolve_context_path zones root_files raw w =
     bind_result (portable_parts raw) (\<lambda>p.
       if \<not> allowed_location zones root_files p then Inl Context_boundary
       else if \<not> nested_context_free w p then Inl Context_boundary
       else Inr p)"

section \<open>Checks and system calls\<close>

definition reject_unsafe_file :: "bool \<Rightarrow> fpath \<Rightarrow> unit reader" where
  "reject_unsafe_file allow_missing p w =
     (if path_exists w p \<and> \<not> is_file w p then Inl Context_boundary
      else if \<not> allow_missing \<and> \<not> is_file w p then Inl Context_boundary
      else Inr ())"

definition plain_parents :: "world \<Rightarrow> fpath \<Rightarrow> bool" where
  "plain_parents w p \<longleftrightarrow>
     (\<forall>k\<in>set [1..<length p]. nodes w (take k p) = Some Dir \<and> \<not> is_file w (marker (take k p)))"

definition require_plain_parent_chain :: "fpath \<Rightarrow> unit reader" where
  "require_plain_parent_chain p w = require (plain_parents w p) Context_boundary"

definition canonical_zones :: "string list" where
  "canonical_zones = [''00_inbox'', ''01_processed'', ''02_knowledge'', ''03_work'', ''04_views'',
     ''05_outbox'', ''90_integrations'', ''99_meta'']"

definition root_targets :: "string list" where
  "root_targets = [''context.yaml'']"

definition revalidate_owned_file :: "bool \<Rightarrow> fpath \<Rightarrow> unit reader" where
  "revalidate_owned_file allow_missing p w =
     (let text = as_posix p in
      if \<not> (in_zone text ''98_state/staging'' \<or> text \<in> set root_targets
             \<or> (\<exists>z\<in>set canonical_zones. in_zone text z))
      then Inl Context_boundary
      else bind_result (require_plain_parent_chain p w) (\<lambda>_. reject_unsafe_file allow_missing p w))"

definition hash_optional :: "(content \<Rightarrow> hash) \<Rightarrow> fpath \<Rightarrow> hash option reader" where
  "hash_optional H p w =
     bind_result (reject_unsafe_file True p w) (\<lambda>_.
       Inr (case nodes w p of Some (File c) \<Rightarrow> Some (H c) | _ \<Rightarrow> None))"

definition read_file :: "fpath \<Rightarrow> content reader" where
  "read_file p w =
     bind_result (reject_unsafe_file False p w) (\<lambda>_.
       case nodes w p of Some (File c) \<Rightarrow> Inr c | _ \<Rightarrow> Inl Os_error)"

definition read_optional :: "fpath \<Rightarrow> content option reader" where
  "read_optional p w =
     bind_result (reject_unsafe_file True p w) (\<lambda>_.
       Inr (case nodes w p of Some (File c) \<Rightarrow> Some c | _ \<Rightarrow> None))"

definition require_source_hash :: "(content \<Rightarrow> hash) \<Rightarrow> fpath \<Rightarrow> hash \<Rightarrow> unit reader" where
  "require_source_hash H p expected w =
     bind_result (hash_optional H p w) (\<lambda>h. require (h = Some expected) Invalid_intent)"

definition require_target_hash :: "(content \<Rightarrow> hash) \<Rightarrow> fpath \<Rightarrow> hash option \<Rightarrow> unit reader" where
  "require_target_hash H p expected w =
     bind_result (hash_optional H p w) (\<lambda>h. require (h = expected) Recovery_required)"

text \<open>What an interrupted write leaves behind; a truncated document is no document. A process that
  dies at a write (\<open>Crash k\<close>) has not created the file (\<open>k = 0\<close>) or has written \<open>k - 1\<close> bytes.\<close>

fun torn :: "nat \<Rightarrow> content \<Rightarrow> content" where
  "torn k (Bytes b) = Bytes (take k b)"
| "torn k (Document d) = Bytes []"

definition put_file :: "fpath \<Rightarrow> content \<Rightarrow> world \<Rightarrow> world" where
  "put_file p c w = w\<lparr>nodes := (nodes w)(p \<mapsto> File c)\<rparr>"

text \<open>A system call that is not retried: a sharing violation is an \<open>OSError\<close>.\<close>

definition sys_call :: "unit action \<Rightarrow> unit action" where
  "sys_call op = and_then next_event (\<lambda>ev. if ev = Deny then fail Os_error else op)"

definition write_fsynced :: "bool \<Rightarrow> fpath \<Rightarrow> content \<Rightarrow> unit action" where
  "write_fsynced exclusive p c w =
     (if \<not> is_dir w (butlast p) \<or> nodes w p = Some Dir \<or> (exclusive \<and> nodes w p \<noteq> None)
      then (Inl Os_error, w)
      else case events w of
          Crash k # rest \<Rightarrow>
            (Inl Crashed,
             if k = 0 then w\<lparr>events := rest\<rparr> else put_file p (torn (k - 1) c) (w\<lparr>events := rest\<rparr>))
        | _ \<Rightarrow> and_then next_event (\<lambda>ev.
                 if ev = Deny then fail Os_error else (\<lambda>w. (Inr (), put_file p c w))) w)"

definition os_replace :: "fpath \<Rightarrow> fpath \<Rightarrow> unit action" where
  "os_replace src dst w =
     (case nodes w src of
        Some (File c) \<Rightarrow>
          if nodes w dst = Some Dir \<or> \<not> is_dir w (butlast dst) then (Inl Os_error, w)
          else (Inr (), w\<lparr>nodes := (nodes w)(src := None, dst := Some (File c))\<rparr>)
      | _ \<Rightarrow> (Inl Os_error, w))"

definition remove_file :: "fpath \<Rightarrow> world \<Rightarrow> world" where
  "remove_file p w = w\<lparr>nodes := (nodes w)(p := None)\<rparr>"

text \<open>\<open>with suppress(FileNotFoundError): path.unlink()\<close>\<close>

definition unlink_if_present :: "fpath \<Rightarrow> unit action" where
  "unlink_if_present p = sys_call (\<lambda>w.
     if is_file w p then (Inr (), remove_file p w) else (Inr (), w))"

definition make_dir :: "fpath \<Rightarrow> unit action" where
  "make_dir p = sys_call (\<lambda>w.
     if nodes w p = None \<and> is_dir w (butlast p)
     then (Inr (), w\<lparr>nodes := (nodes w)(p \<mapsto> Dir)\<rparr>) else (Inl Os_error, w))"

definition make_dir_exist_ok :: "fpath \<Rightarrow> unit action" where
  "make_dir_exist_ok p w = (if nodes w p = Some Dir then (Inr (), w) else make_dir p w)"

text \<open>\<open>_remove_owned_directory\<close>: \<open>shutil.rmtree\<close> of an existing directory.\<close>

definition remove_tree :: "fpath \<Rightarrow> world \<Rightarrow> world" where
  "remove_tree d w = w\<lparr>nodes := (\<lambda>p. if prefix d p then None else nodes w p)\<rparr>"

definition remove_owned_directory :: "fpath \<Rightarrow> unit action" where
  "remove_owned_directory d w =
     (if \<not> path_exists w d then (Inr (), w) else sys_call (\<lambda>w. (Inr (), remove_tree d w)) w)"

text \<open>The retry loops. The argument \<open>n\<close> is the number of attempts left, initially
  \<open>max_attempts\<close>; the delay between attempts has no effect on the state.\<close>

fun replace_retry :: "nat \<Rightarrow> unit reader \<Rightarrow> fpath \<Rightarrow> fpath \<Rightarrow> unit action" where
  "replace_retry 0 before_attempt src dst = fail Os_error"
| "replace_retry (Suc n) before_attempt src dst =
     and_then next_event (\<lambda>ev.
     and_then (lift before_attempt) (\<lambda>_.
     if ev = Deny
     then (if n = 0 then fail Recoverable_replace else replace_retry n before_attempt src dst)
     else os_replace src dst))"

fun unlink_retry ::
  "(content \<Rightarrow> hash) \<Rightarrow> nat \<Rightarrow> unit reader \<Rightarrow> unit reader \<Rightarrow> fpath \<Rightarrow> hash \<Rightarrow> unit action" where
  "unlink_retry H 0 validate before_attempt p expected = fail Os_error"
| "unlink_retry H (Suc n) validate before_attempt p expected =
     and_then next_event (\<lambda>ev.
     and_then (lift validate) (\<lambda>_.
     and_then (lift (hash_optional H p)) (\<lambda>current.
     and_then (lift validate) (\<lambda>_.
     and_then (lift before_attempt) (\<lambda>_.
     if current = None then ret ()
     else if current \<noteq> Some expected then fail Recovery_required
     else if ev = Deny
     then (if n = 0 then fail Recoverable_replace else unlink_retry H n validate before_attempt p expected)
     else (\<lambda>w. (Inr (), remove_file p w)))))))"

section \<open>The lock fence\<close>

record lease =
  lease_context :: string
  lease_nonce :: string
  lease_released :: bool

text \<open>\<open>ContextLock.verify_fence\<close> and \<open>_verify_lock\<close>; \<open>disk_nonce\<close> is \<open>None\<close> when the lock file is
  absent or malformed.\<close>

definition verify_fence :: "lease \<Rightarrow> string reader" where
  "verify_fence l w =
     (if lease_released l then Inl Lock_fence
      else case disk_nonce w of
             None \<Rightarrow> Inl Lock_fence
           | Some n \<Rightarrow> if n \<noteq> lease_nonce l then Inl Lock_fence else Inr n)"

definition verify_lock :: "lease \<Rightarrow> string option \<Rightarrow> unit reader" where
  "verify_lock l expected w =
     (if lease_context l \<noteq> world_context w then Inl Lock_fence
      else bind_result (verify_fence l w) (\<lambda>n.
        case expected of None \<Rightarrow> Inr () | Some e \<Rightarrow> require (n = e) Lock_fence))"

end
