(* ===== verification/Intent.thy ===== *)
theory Intent
  imports Disk
begin

text \<open>
  The write-ahead intent of \<open>adapters/filesystem/staging.py\<close>: the record of an interrupted
  transaction, its JSON form, the reader of \<open>98_state/staging/intent.json\<close> and the validation of
  the paths it names. The parameter \<open>ck\<close> is the collision key of a path, Python's
  \<^verbatim>\<open>unicodedata.normalize("NFC", path).casefold()\<close>.
\<close>

section \<open>Data\<close>

datatype target_kind = REPLACE | MOVE | DELETE

record intent_target =
  it_target :: string
  it_staged :: "string option"
  it_content_hash :: "hash option"
  it_backup :: "string option"
  it_preimage_hash :: "hash option"
  it_kind :: target_kind
  it_destination :: "string option"

record intent_record =
  intent_schema_version :: int
  intent_transaction_id :: string
  intent_nonce :: string
  intent_targets :: "intent_target list"

record vtarget =
  vt_intent :: intent_target
  vt_target :: fpath
  vt_staged :: "fpath option"
  vt_backup :: "fpath option"
  vt_destination :: "fpath option"
  vt_dir :: fpath

definition is_content_hash :: "string \<Rightarrow> bool" where
  "is_content_hash s \<longleftrightarrow>
     prefix ''sha256:'' s \<and> length s = 71 \<and> list_all is_lower_hex (drop 7 s)"

definition is_nonce :: "string \<Rightarrow> bool" where
  "is_nonce s \<longleftrightarrow> length s = 32 \<and> list_all is_lower_hex s"

definition is_transaction_directory :: "string \<Rightarrow> bool" where
  "is_transaction_directory s \<longleftrightarrow>
     prefix ''txn-'' s \<and> length s = 28 \<and> list_all is_lower_hex (drop 4 s)"

section \<open>Field validation\<close>

definition opt_nonempty :: "string option \<Rightarrow> bool" where
  "opt_nonempty v \<longleftrightarrow> v \<noteq> Some []"

definition opt_hash_ok :: "string option \<Rightarrow> bool" where
  "opt_hash_ok v \<longleftrightarrow> (case v of None \<Rightarrow> True | Some h \<Rightarrow> h \<noteq> [] \<and> is_content_hash h)"

definition validate_intent_target_fields :: "intent_target \<Rightarrow> exn + intent_target" where
  "validate_intent_target_fields t =
     (if it_target t = [] \<or> \<not> opt_hash_ok (it_content_hash t) \<or> \<not> opt_hash_ok (it_preimage_hash t)
         \<or> \<not> opt_nonempty (it_backup t) \<or> \<not> opt_nonempty (it_staged t)
         \<or> \<not> opt_nonempty (it_destination t)
      then Inl Value_error
      else if (it_backup t = None) \<noteq> (it_preimage_hash t = None) then Inl Value_error
      else case it_kind t of
        REPLACE \<Rightarrow>
          if it_staged t = None \<or> it_content_hash t = None \<or> it_destination t \<noteq> None
          then Inl Value_error else Inr t
      | MOVE \<Rightarrow>
          if it_backup t = None \<or> it_preimage_hash t = None \<or> it_staged t \<noteq> None
          then Inl Value_error
          else if it_destination t = None \<or> it_content_hash t \<noteq> it_preimage_hash t
          then Inl Value_error else Inr t
      | DELETE \<Rightarrow>
          if it_backup t = None \<or> it_preimage_hash t = None \<or> it_staged t \<noteq> None
          then Inl Value_error
          else if it_destination t \<noteq> None \<or> it_content_hash t \<noteq> None
          then Inl Value_error else Inr t)"

section \<open>JSON form\<close>

definition json_opt :: "string option \<Rightarrow> json" where
  "json_opt v = (case v of None \<Rightarrow> JNull | Some s \<Rightarrow> JStr s)"

fun kind_value :: "target_kind \<Rightarrow> string" where
  "kind_value REPLACE = ''replace''"
| "kind_value MOVE = ''move''"
| "kind_value DELETE = ''delete''"

definition target_to_dict :: "intent_target \<Rightarrow> json" where
  "target_to_dict t = JObj
     ([(''target'', JStr (it_target t)), (''staged'', json_opt (it_staged t)),
       (''content_hash'', json_opt (it_content_hash t)), (''backup'', json_opt (it_backup t)),
       (''preimage_hash'', json_opt (it_preimage_hash t))]
      @ (if it_kind t \<noteq> REPLACE
         then [(''kind'', JStr (kind_value (it_kind t))),
               (''destination'', json_opt (it_destination t))]
         else []))"

definition intent_to_dict :: "intent_record \<Rightarrow> json" where
  "intent_to_dict i = JObj
     [(''schema_version'', JInt (intent_schema_version i)),
      (''transaction_id'', JStr (intent_transaction_id i)),
      (''nonce'', JStr (intent_nonce i)),
      (''targets'', JList (map target_to_dict (intent_targets i)))]"

definition required_string :: "json option \<Rightarrow> exn + string" where
  "required_string v = (case v of
     Some (JStr s) \<Rightarrow> if s = [] then Inl Value_error else Inr s | _ \<Rightarrow> Inl Value_error)"

definition optional_string :: "json option \<Rightarrow> exn + string option" where
  "optional_string v =
     (if v = Some JNull then Inr None else bind_result (required_string v) (\<lambda>s. Inr (Some s)))"

definition optional_hash :: "json option \<Rightarrow> exn + string option" where
  "optional_hash v = bind_result (optional_string v) (\<lambda>r.
     case r of None \<Rightarrow> Inr None
     | Some h \<Rightarrow> if is_content_hash h then Inr (Some h) else Inl Value_error)"

definition legacy_fields :: "string list" where
  "legacy_fields = [''target'', ''staged'', ''content_hash'', ''backup'', ''preimage_hash'']"

definition kind_from_value :: "json option \<Rightarrow> exn + target_kind" where
  "kind_from_value v =
     (if v = Some (JStr ''move'') then Inr MOVE
      else if v = Some (JStr ''delete'') then Inr DELETE
      else Inl Value_error)"

definition target_from_dict :: "json \<Rightarrow> exn + intent_target" where
  "target_from_dict v =
     (case v of
        JObj ps \<Rightarrow>
          (let fields = fst ` set ps; get = map_of ps in
           if fields \<noteq> set legacy_fields
              \<and> fields \<noteq> set (legacy_fields @ [''kind'', ''destination''])
           then Inl Value_error
           else
             bind_result (required_string (get ''target'')) (\<lambda>t.
             bind_result (optional_string (get ''staged'')) (\<lambda>s.
             bind_result (optional_hash (get ''content_hash'')) (\<lambda>c.
             bind_result (optional_string (get ''backup'')) (\<lambda>b.
             bind_result (optional_hash (get ''preimage_hash'')) (\<lambda>p.
             bind_result
               (if ''kind'' \<in> fields
                then bind_result (kind_from_value (get ''kind'')) (\<lambda>k.
                     bind_result (optional_string (get ''destination'')) (\<lambda>d. Inr (k, d)))
                else Inr (REPLACE, None)) (\<lambda>(k, d).
             validate_intent_target_fields
               \<lparr>it_target = t, it_staged = s, it_content_hash = c, it_backup = b,
                it_preimage_hash = p, it_kind = k, it_destination = d\<rparr>)))))))
      | _ \<Rightarrow> Inl Value_error)"

fun map_results :: "('a \<Rightarrow> 'e + 'b) \<Rightarrow> 'a list \<Rightarrow> 'e + 'b list" where
  "map_results f [] = Inr []"
| "map_results f (x # xs) =
     bind_result (f x) (\<lambda>y. bind_result (map_results f xs) (\<lambda>ys. Inr (y # ys)))"

definition intent_from_dict :: "json \<Rightarrow> exn + intent_record" where
  "intent_from_dict v =
     (case v of
        JObj ps \<Rightarrow>
          (let get = map_of ps in
           if fst ` set ps \<noteq> {''schema_version'', ''transaction_id'', ''nonce'', ''targets''}
           then Inl Value_error
           else if get ''schema_version'' \<noteq> Some (JInt 1) then Inl Value_error
           else
             bind_result (required_string (get ''transaction_id'')) (\<lambda>tid.
             bind_result (required_string (get ''nonce'')) (\<lambda>nonce.
             if \<not> is_nonce nonce then Inl Value_error
             else case get ''targets'' of
               Some (JList items) \<Rightarrow>
                 if items = [] then Inl Value_error
                 else bind_result (map_results target_from_dict items) (\<lambda>ts.
                   Inr \<lparr>intent_schema_version = 1, intent_transaction_id = tid,
                        intent_nonce = nonce, intent_targets = ts\<rparr>)
             | _ \<Rightarrow> Inl Value_error)))
      | _ \<Rightarrow> Inl Value_error)"

text \<open>\<open>_reject_duplicate_object_keys\<close>, called by the JSON reader on every object.\<close>

fun no_duplicate_keys :: "json \<Rightarrow> bool" where
  "no_duplicate_keys (JList xs) \<longleftrightarrow> (\<forall>x\<in>set xs. no_duplicate_keys x)"
| "no_duplicate_keys (JObj ps) \<longleftrightarrow>
     distinct (map fst ps) \<and> (\<forall>p\<in>set ps. no_duplicate_keys (snd p))"
| "no_duplicate_keys v \<longleftrightarrow> True"

section \<open>Paths of an intent\<close>

definition staging_root :: fpath where
  "staging_root = [''98_state'', ''staging'']"

definition intent_path :: fpath where
  "intent_path = staging_root @ [''intent.json'']"

definition transactions_root :: fpath where
  "transactions_root = staging_root @ [''transactions'']"

definition transactions_zone :: string where
  "transactions_zone = ''98_state/staging/transactions''"

text \<open>\<^verbatim>\<open>f"{index:08d}"\<close>\<close>

definition index_name :: "nat \<Rightarrow> string" where
  "index_name i = replicate (8 - length (digits i)) (CHR ''0'') @ digits i"

definition resolve_target :: "string \<Rightarrow> fpath reader" where
  "resolve_target = resolve_context_path canonical_zones root_targets"

definition resolve_staging_path :: "string \<Rightarrow> fpath reader" where
  "resolve_staging_path = resolve_context_path [transactions_zone] []"

definition owned_asset :: "nat \<Rightarrow> string \<Rightarrow> string \<Rightarrow> fpath reader" where
  "owned_asset i ext raw w =
     bind_result (resolve_staging_path raw w) (\<lambda>p.
       if length p \<noteq> 5 \<or> \<not> is_transaction_directory (p ! 3) \<or> last p \<noteq> index_name i @ ext
          \<or> raw \<noteq> as_posix p
       then Inl Invalid_intent else Inr p)"

definition opt_result :: "('a \<Rightarrow> 'e + 'b) \<Rightarrow> 'a option \<Rightarrow> 'e + 'b option" where
  "opt_result f v =
     (case v of None \<Rightarrow> Inr None | Some x \<Rightarrow> bind_result (f x) (\<lambda>y. Inr (Some y)))"

definition canonical_target :: "string \<Rightarrow> fpath reader" where
  "canonical_target raw w =
     bind_result (resolve_target raw w) (\<lambda>p.
       if raw \<noteq> as_posix p then Inl Invalid_intent else Inr p)"

fun claim_keys :: "(string \<Rightarrow> string) \<Rightarrow> string set \<Rightarrow> string list \<Rightarrow> exn + string set" where
  "claim_keys ck keys [] = Inr keys"
| "claim_keys ck keys (p # ps) =
     (if ck p \<in> keys then Inl Invalid_intent else claim_keys ck (insert (ck p) keys) ps)"

text \<open>The loop state of \<open>_validated_intent_paths\<close>.\<close>

record claims =
  claimed_targets :: "string set"
  claimed_staged :: "string set"
  claimed_backup :: "string set"
  claimed_dir :: "fpath option"

definition no_claims :: claims where
  "no_claims = \<lparr>claimed_targets = {}, claimed_staged = {}, claimed_backup = {}, claimed_dir = None\<rparr>"

text \<open>\<open>owned_parent\<close>: the directory that holds the postimage and the backup of a target.\<close>

definition owned_parent :: "fpath option \<Rightarrow> fpath option \<Rightarrow> exn + fpath" where
  "owned_parent sp bp =
     (case (map_option butlast sp, map_option butlast bp) of
        (None, None) \<Rightarrow> Inl Invalid_intent
      | (None, Some d) \<Rightarrow> Inr d
      | (Some d, None) \<Rightarrow> Inr d
      | (Some d, Some e) \<Rightarrow> if e \<noteq> d then Inl Invalid_intent else Inr d)"

definition claim_asset ::
  "(string \<Rightarrow> string) \<Rightarrow> string set \<Rightarrow> string set \<Rightarrow> string option \<Rightarrow> exn + string set" where
  "claim_asset ck own other asset =
     (case asset of
        None \<Rightarrow> Inr own
      | Some a \<Rightarrow> if ck a \<in> own \<or> ck a \<in> other then Inl Invalid_intent else Inr (insert (ck a) own))"

definition validate_target_paths ::
  "(string \<Rightarrow> string) \<Rightarrow> nat \<Rightarrow> claims \<Rightarrow> intent_target \<Rightarrow> (vtarget \<times> claims) reader" where
  "validate_target_paths ck i cl item w =
     bind_result (canonical_target (it_target item) w) (\<lambda>tp.
     bind_result (opt_result (\<lambda>s. owned_asset i ''.stage'' s w) (it_staged item)) (\<lambda>sp.
     bind_result (opt_result (\<lambda>b. owned_asset i ''.backup'' b w) (it_backup item)) (\<lambda>bp.
     bind_result (owned_parent sp bp) (\<lambda>owner.
     if claimed_dir cl \<noteq> None \<and> claimed_dir cl \<noteq> Some owner then Inl Invalid_intent
     else
       bind_result (opt_result (\<lambda>d. canonical_target d w) (it_destination item)) (\<lambda>dp.
       bind_result (claim_keys ck (claimed_targets cl)
          (it_target item # (case it_destination item of None \<Rightarrow> [] | Some d \<Rightarrow> [d]))) (\<lambda>tkeys.
       bind_result (claim_asset ck (claimed_staged cl) (claimed_backup cl) (it_staged item)) (\<lambda>skeys.
       bind_result (claim_asset ck (claimed_backup cl) skeys (it_backup item)) (\<lambda>bkeys.
       Inr (\<lparr>vt_intent = item, vt_target = tp, vt_staged = sp, vt_backup = bp,
             vt_destination = dp, vt_dir = owner\<rparr>,
            \<lparr>claimed_targets = tkeys, claimed_staged = skeys, claimed_backup = bkeys,
             claimed_dir = Some owner\<rparr>)))))))))"

fun validate_paths_from ::
  "(string \<Rightarrow> string) \<Rightarrow> nat \<Rightarrow> claims \<Rightarrow> intent_target list \<Rightarrow> vtarget list reader" where
  "validate_paths_from ck i cl [] w = Inr []"
| "validate_paths_from ck i cl (item # rest) w =
     bind_result (validate_target_paths ck i cl item w) (\<lambda>(v, cl').
     bind_result (validate_paths_from ck (Suc i) cl' rest w) (\<lambda>vs. Inr (v # vs)))"

definition validated_intent_paths ::
  "(string \<Rightarrow> string) \<Rightarrow> intent_record \<Rightarrow> vtarget list reader" where
  "validated_intent_paths ck i = validate_paths_from ck 0 no_claims (intent_targets i)"

section \<open>Reading the intent\<close>

definition load_intent :: "(string \<Rightarrow> string) \<Rightarrow> intent_record reader" where
  "load_intent ck w =
     bind_result (require_plain_parent_chain intent_path w) (\<lambda>_.
     bind_result (reject_unsafe_file False intent_path w) (\<lambda>_.
     case nodes w intent_path of
       Some (File (Document d)) \<Rightarrow>
         if \<not> no_duplicate_keys d then Inl Invalid_intent
         else (case intent_from_dict d of
                 Inl e \<Rightarrow> Inl Invalid_intent
               | Inr i \<Rightarrow> bind_result (validated_intent_paths ck i w) (\<lambda>_. Inr i))
     | _ \<Rightarrow> Inl Invalid_intent))"

end
