(* ===== verification/Staging.thy ===== *)
theory Staging
  imports Intent
begin

text \<open>
  Staged replacement (\<open>adapters/filesystem/staging.py\<close>): \<open>prepare\<close> writes the preimage backups and
  the postimages into a private directory and publishes the intent; \<open>apply\<close> and \<open>complete_recovery\<close>
  move every target to its postimage, \<open>rollback\<close> and \<open>rollback_recovery\<close> move it back to its
  preimage; the finalisers remove the intent; \<open>inspect_recovery\<close> classifies an interrupted
  transaction. Parameters: \<open>H\<close> the content hash, \<open>ck\<close> the collision key of a path, \<open>n\<close> the
  \<open>max_attempts\<close> of the retry policy, \<open>l\<close> the lease of the caller.
\<close>

section \<open>State of one target\<close>

datatype target_state = POSTIMAGE_PRESENT | STAGED_POSTIMAGE_AVAILABLE | CONFLICT

record op_snapshot =
  snap_current :: "hash option"
  snap_destination :: "hash option"
  snap_staged :: "hash option"
  snap_backup :: "hash option"
  snap_state :: target_state

text \<open>\<open>except (ContextBoundaryError, OSError)\<close>\<close>

fun rescue_boundary :: "exn \<Rightarrow> exn + 'a \<Rightarrow> exn + 'a" where
  "rescue_boundary e (Inl x) = Inl (if x = Context_boundary \<or> x = Os_error then e else x)"
| "rescue_boundary e (Inr v) = Inr v"

definition check_opt :: "('a \<Rightarrow> unit reader) \<Rightarrow> 'a option \<Rightarrow> unit reader" where
  "check_opt f v w = (case v of None \<Rightarrow> Inr () | Some x \<Rightarrow> f x w)"

definition target_parent_is_usable :: "world \<Rightarrow> fpath \<Rightarrow> bool" where
  "target_parent_is_usable w p \<longleftrightarrow> is_dir w (butlast p) \<and> path_exists w staging_root"

definition require_operation_parents :: "vtarget \<Rightarrow> unit reader" where
  "require_operation_parents v w =
     bind_result (check_opt require_plain_parent_chain (vt_staged v) w) (\<lambda>_.
     bind_result (check_opt require_plain_parent_chain (vt_backup v) w) (\<lambda>_.
     bind_result
       (if it_kind (vt_intent v) = REPLACE
        then rescue_boundary Recovery_required (require_plain_parent_chain (vt_target v) w)
        else bind_result
          (rescue_boundary Recovery_required (revalidate_owned_file True (vt_target v) w)) (\<lambda>_.
          rescue_boundary Recovery_required
            (check_opt (revalidate_owned_file True) (vt_destination v) w))) (\<lambda>_.
     bind_result (require (target_parent_is_usable w (vt_target v)) Recovery_required) (\<lambda>_.
     check_opt (\<lambda>d w. require (target_parent_is_usable w d) Recovery_required)
       (vt_destination v) w))))"

definition hash_opt_path :: "(content \<Rightarrow> hash) \<Rightarrow> fpath option \<Rightarrow> hash option reader" where
  "hash_opt_path H p w = (case p of None \<Rightarrow> Inr None | Some q \<Rightarrow> hash_optional H q w)"

definition verify_backup :: "(content \<Rightarrow> hash) \<Rightarrow> vtarget \<Rightarrow> unit reader" where
  "verify_backup H v w =
     (case it_preimage_hash (vt_intent v) of
        None \<Rightarrow> require (vt_backup v = None) Invalid_intent
      | Some h \<Rightarrow>
          (case vt_backup v of
             None \<Rightarrow> Inl Invalid_intent
           | Some b \<Rightarrow> bind_result (hash_optional H b w) (\<lambda>x. require (x = Some h) Invalid_intent)))"

definition classify_target ::
  "intent_target \<Rightarrow> hash option \<Rightarrow> hash option \<Rightarrow> hash option \<Rightarrow> exn + target_state" where
  "classify_target t current dest stagedh =
     (case it_kind t of
        REPLACE \<Rightarrow>
          if current = it_content_hash t then Inr POSTIMAGE_PRESENT
          else if current = it_preimage_hash t
          then (if stagedh \<noteq> it_content_hash t then Inl Invalid_intent
                else Inr STAGED_POSTIMAGE_AVAILABLE)
          else Inr CONFLICT
      | MOVE \<Rightarrow>
          if current = None \<and> dest = it_content_hash t then Inr POSTIMAGE_PRESENT
          else if current = it_preimage_hash t \<and> dest = None then Inr STAGED_POSTIMAGE_AVAILABLE
          else Inr CONFLICT
      | DELETE \<Rightarrow>
          if current = None then Inr POSTIMAGE_PRESENT
          else if current = it_preimage_hash t then Inr STAGED_POSTIMAGE_AVAILABLE
          else Inr CONFLICT)"

definition snapshot_operation :: "(content \<Rightarrow> hash) \<Rightarrow> vtarget \<Rightarrow> op_snapshot reader" where
  "snapshot_operation H v w =
     bind_result (require_operation_parents v w) (\<lambda>_.
     bind_result (hash_optional H (vt_target v) w) (\<lambda>current.
     bind_result (hash_opt_path H (vt_destination v) w) (\<lambda>dest.
     bind_result (hash_opt_path H (vt_staged v) w) (\<lambda>stagedh.
     bind_result (hash_opt_path H (vt_backup v) w) (\<lambda>backuph.
     bind_result (verify_backup H v w) (\<lambda>_.
     bind_result (classify_target (vt_intent v) current dest stagedh) (\<lambda>st.
     Inr \<lparr>snap_current = current, snap_destination = dest, snap_staged = stagedh,
          snap_backup = backuph, snap_state = st\<rparr>)))))))"

section \<open>Fenced replacement\<close>

definition verify_attempt ::
  "(content \<Rightarrow> hash) \<Rightarrow> lease \<Rightarrow> string option \<Rightarrow> bool \<Rightarrow> fpath \<Rightarrow> fpath \<Rightarrow> hash \<Rightarrow> hash option
     \<Rightarrow> unit reader" where
  "verify_attempt H l expected revalidate src dst src_hash dst_hash w =
     (let paths = (if revalidate
                   then bind_result (revalidate_owned_file False src w)
                          (\<lambda>_. revalidate_owned_file True dst w)
                   else Inr ())
      in bind_result paths (\<lambda>_.
         bind_result (require_source_hash H src src_hash w) (\<lambda>_.
         bind_result (require_target_hash H dst dst_hash w) (\<lambda>_.
         bind_result paths (\<lambda>_. verify_lock l expected w)))))"

definition replace_with_retry ::
  "(content \<Rightarrow> hash) \<Rightarrow> nat \<Rightarrow> lease \<Rightarrow> string option \<Rightarrow> bool \<Rightarrow> fpath \<Rightarrow> fpath \<Rightarrow> hash \<Rightarrow> hash option
     \<Rightarrow> unit action" where
  "replace_with_retry H n l expected revalidate src dst src_hash dst_hash =
     replace_retry n (verify_attempt H l expected revalidate src dst src_hash dst_hash) src dst"

section \<open>Applying\<close>

text \<open>The first loop of \<open>_apply_validated\<close> and \<open>_rollback_validated\<close>.\<close>

definition refuse_conflict :: "(content \<Rightarrow> hash) \<Rightarrow> vtarget \<Rightarrow> unit action" where
  "refuse_conflict H v =
     and_then (lift (snapshot_operation H v)) (\<lambda>s. check (snap_state s \<noteq> CONFLICT) Recovery_required)"

definition apply_one ::
  "(content \<Rightarrow> hash) \<Rightarrow> nat \<Rightarrow> lease \<Rightarrow> string option \<Rightarrow> vtarget \<Rightarrow> unit action" where
  "apply_one H n l expected v =
     (let t = vt_intent v in
      and_then (lift (snapshot_operation H v)) (\<lambda>s.
      if snap_state s = POSTIMAGE_PRESENT then ret ()
      else if snap_state s \<noteq> STAGED_POSTIMAGE_AVAILABLE then fail Recovery_required
      else case it_kind t of
        REPLACE \<Rightarrow>
          (case (vt_staged v, it_content_hash t) of
             (Some sp, Some h) \<Rightarrow>
               replace_with_retry H n l expected False sp (vt_target v) h (it_preimage_hash t)
           | _ \<Rightarrow> fail Invalid_intent)
      | MOVE \<Rightarrow>
          (case (vt_destination v, it_content_hash t) of
             (Some dp, Some h) \<Rightarrow>
               replace_with_retry H n l expected True (vt_target v) dp h None
           | _ \<Rightarrow> fail Invalid_intent)
      | DELETE \<Rightarrow>
          (case it_preimage_hash t of
             None \<Rightarrow> fail Invalid_intent
           | Some h \<Rightarrow> unlink_retry H n (revalidate_owned_file True (vt_target v))
                         (verify_lock l expected) (vt_target v) h)))"

definition apply_validated ::
  "(content \<Rightarrow> hash) \<Rightarrow> nat \<Rightarrow> lease \<Rightarrow> string option \<Rightarrow> vtarget list \<Rightarrow> unit action" where
  "apply_validated H n l expected vs =
     and_then (for_each (refuse_conflict H) vs) (\<lambda>_.
     and_then (lift (verify_lock l expected)) (\<lambda>_.
     for_each (apply_one H n l expected) vs))"

section \<open>Rolling back\<close>

definition name_stem :: "string \<Rightarrow> string" where
  "name_stem name = rev (tl (dropWhile (\<lambda>c. c \<noteq> CHR ''.'') (rev name)))"

definition with_name :: "fpath \<Rightarrow> string \<Rightarrow> fpath" where
  "with_name p name = butlast p @ [name]"

definition rollback_path :: "fpath \<Rightarrow> fpath" where
  "rollback_path b = with_name b (name_stem (last b) @ ''.rollback'')"

definition rebuild_path :: "fpath \<Rightarrow> string \<Rightarrow> fpath" where
  "rebuild_path sp token = with_name sp (name_stem (last sp) @ ''.rebuild-'' @ token @ ''.tmp'')"

definition hash_regular :: "(content \<Rightarrow> hash) \<Rightarrow> fpath \<Rightarrow> hash reader" where
  "hash_regular H p w = bind_result (read_file p w) (\<lambda>c. Inr (H c))"

definition require_hash :: "(content \<Rightarrow> hash) \<Rightarrow> fpath \<Rightarrow> hash \<Rightarrow> unit reader" where
  "require_hash H p h w = bind_result (hash_regular H p w) (\<lambda>x. require (x = h) Staging_error)"

definition publish_rebuilt_postimage ::
  "(content \<Rightarrow> hash) \<Rightarrow> nat \<Rightarrow> lease \<Rightarrow> string option \<Rightarrow> fpath \<Rightarrow> content \<Rightarrow> hash \<Rightarrow> unit action" where
  "publish_rebuilt_postimage H n l expected sp payload h =
     and_then next_token (\<lambda>token.
     let rp = rebuild_path sp token in
     and_then (write_fsynced True rp payload) (\<lambda>_.
     finally_do
       (and_then (lift (require_hash H rp h)) (\<lambda>_.
        replace_retry n
          (\<lambda>w. bind_result (require_source_hash H rp h w) (\<lambda>_. verify_lock l expected w)) rp sp))
       (unlink_if_present rp)))"

definition restore_backup ::
  "(content \<Rightarrow> hash) \<Rightarrow> nat \<Rightarrow> lease \<Rightarrow> string option \<Rightarrow> vtarget \<Rightarrow> hash option \<Rightarrow> unit action" where
  "restore_backup H n l expected v target_hash =
     (case (vt_backup v, it_preimage_hash (vt_intent v)) of
        (Some b, Some h) \<Rightarrow>
          and_then (lift (read_file b)) (\<lambda>c.
          and_then (check (H c = h) Invalid_intent) (\<lambda>_.
          and_then (lift (reject_unsafe_file True (rollback_path b))) (\<lambda>_.
          and_then (write_fsynced False (rollback_path b) c) (\<lambda>_.
          replace_with_retry H n l expected (it_kind (vt_intent v) \<noteq> REPLACE)
            (rollback_path b) (vt_target v) h target_hash))))
      | _ \<Rightarrow> fail Invalid_intent)"

definition rollback_replace ::
  "(content \<Rightarrow> hash) \<Rightarrow> nat \<Rightarrow> lease \<Rightarrow> string option \<Rightarrow> vtarget \<Rightarrow> op_snapshot \<Rightarrow> unit action" where
  "rollback_replace H n l expected v s =
     (case (vt_staged v, it_content_hash (vt_intent v)) of
        (Some sp, Some h) \<Rightarrow>
          and_then
            (if snap_staged s \<noteq> Some h
             then and_then (lift (read_file (vt_target v))) (\<lambda>c.
                  and_then (check (H c = h) Recovery_required) (\<lambda>_.
                  publish_rebuilt_postimage H n l expected sp c h))
             else ret ()) (\<lambda>_.
          case it_preimage_hash (vt_intent v) of
            None \<Rightarrow> unlink_retry H n (\<lambda>_. Inr ()) (verify_lock l expected) (vt_target v) h
          | Some _ \<Rightarrow> restore_backup H n l expected v (Some h))
      | _ \<Rightarrow> fail Invalid_intent)"

definition rollback_one ::
  "(content \<Rightarrow> hash) \<Rightarrow> nat \<Rightarrow> lease \<Rightarrow> string option \<Rightarrow> vtarget \<Rightarrow> unit action" where
  "rollback_one H n l expected v =
     (let t = vt_intent v in
      and_then (lift (snapshot_operation H v)) (\<lambda>s.
      if snap_state s = STAGED_POSTIMAGE_AVAILABLE then ret ()
      else if snap_state s \<noteq> POSTIMAGE_PRESENT then fail Recovery_required
      else case it_kind t of
        REPLACE \<Rightarrow> rollback_replace H n l expected v s
      | MOVE \<Rightarrow>
          (case (vt_destination v, it_content_hash t) of
             (Some dp, Some h) \<Rightarrow>
               replace_with_retry H n l expected True dp (vt_target v) h None
           | _ \<Rightarrow> fail Invalid_intent)
      | DELETE \<Rightarrow> restore_backup H n l expected v None))"

definition rollback_validated ::
  "(content \<Rightarrow> hash) \<Rightarrow> nat \<Rightarrow> lease \<Rightarrow> string option \<Rightarrow> vtarget list \<Rightarrow> unit action" where
  "rollback_validated H n l expected vs =
     and_then (for_each (refuse_conflict H) vs) (\<lambda>_.
     and_then (lift (verify_lock l expected)) (\<lambda>_.
     for_each (rollback_one H n l expected) (rev vs)))"

section \<open>Entry points\<close>

text \<open>The lease checks of \<open>_activate_resolution_cache\<close>; the cache itself only saves time.\<close>

definition activate :: "lease \<Rightarrow> string option \<Rightarrow> unit reader" where
  "activate l expected w =
     (if lease_context l \<noteq> world_context w then Inl Lock_fence
      else if lease_released l then Inl Lock_fence
      else case expected of None \<Rightarrow> Inr () | Some e \<Rightarrow> require (lease_nonce l = e) Lock_fence)"

text \<open>The common shape of the four movers: fence, re-read the intent, compare, act. \<open>apply\<close> and
  \<open>rollback\<close> require the nonce of the intent, the recovery variants only a live lease.\<close>

definition with_durable_intent ::
  "(string \<Rightarrow> string) \<Rightarrow> lease \<Rightarrow> bool \<Rightarrow> intent_record
     \<Rightarrow> (string option \<Rightarrow> vtarget list \<Rightarrow> unit action) \<Rightarrow> intent_record action" where
  "with_durable_intent ck l recovery i act =
     (let expected = (if recovery then None else Some (intent_nonce i)) in
      and_then (lift (activate l expected)) (\<lambda>_.
      and_then (lift (load_intent ck)) (\<lambda>durable.
      and_then (check (durable = i) Invalid_intent) (\<lambda>_.
      and_then (lift (validated_intent_paths ck durable)) (\<lambda>vs.
      and_then (act expected vs) (\<lambda>_. ret durable))))))"

definition apply_intent ::
  "(content \<Rightarrow> hash) \<Rightarrow> (string \<Rightarrow> string) \<Rightarrow> nat \<Rightarrow> lease \<Rightarrow> intent_record \<Rightarrow> intent_record action" where
  "apply_intent H ck n l i = with_durable_intent ck l False i (apply_validated H n l)"

definition complete_recovery ::
  "(content \<Rightarrow> hash) \<Rightarrow> (string \<Rightarrow> string) \<Rightarrow> nat \<Rightarrow> lease \<Rightarrow> intent_record \<Rightarrow> intent_record action" where
  "complete_recovery H ck n l i = with_durable_intent ck l True i (apply_validated H n l)"

definition rollback_intent ::
  "(content \<Rightarrow> hash) \<Rightarrow> (string \<Rightarrow> string) \<Rightarrow> nat \<Rightarrow> lease \<Rightarrow> intent_record \<Rightarrow> intent_record action" where
  "rollback_intent H ck n l i = with_durable_intent ck l False i (rollback_validated H n l)"

definition rollback_recovery ::
  "(content \<Rightarrow> hash) \<Rightarrow> (string \<Rightarrow> string) \<Rightarrow> nat \<Rightarrow> lease \<Rightarrow> intent_record \<Rightarrow> intent_record action" where
  "rollback_recovery H ck n l i = with_durable_intent ck l True i (rollback_validated H n l)"

section \<open>Finalising\<close>

definition target_applied :: "(content \<Rightarrow> hash) \<Rightarrow> vtarget \<Rightarrow> unit reader" where
  "target_applied H v w =
     (let t = vt_intent v in
      bind_result (if it_kind t \<noteq> REPLACE then require_operation_parents v w else Inr ()) (\<lambda>_.
      bind_result (hash_optional H (vt_target v) w) (\<lambda>current.
      bind_result (hash_opt_path H (vt_destination v) w) (\<lambda>dest.
      require
        (if it_kind t = REPLACE then current = it_content_hash t
         else current = None \<and> (it_kind t = DELETE \<or> dest = it_content_hash t))
        Recovery_required))))"

definition target_rolled_back :: "(content \<Rightarrow> hash) \<Rightarrow> vtarget \<Rightarrow> unit reader" where
  "target_rolled_back H v w =
     (let t = vt_intent v in
      bind_result (if it_kind t \<noteq> REPLACE then require_operation_parents v w else Inr ()) (\<lambda>_.
      bind_result (verify_backup H v w) (\<lambda>_.
      bind_result (hash_optional H (vt_target v) w) (\<lambda>current.
      bind_result (require (current = it_preimage_hash t) Recovery_required) (\<lambda>_.
      bind_result
        (if it_kind t = REPLACE
         then check_opt (\<lambda>sp w. bind_result (hash_optional H sp w)
                (\<lambda>h. require (h = it_content_hash t) Recovery_required)) (vt_staged v) w
         else Inr ()) (\<lambda>_.
      if it_kind t = MOVE
      then check_opt (\<lambda>dp w. bind_result (hash_optional H dp w)
             (\<lambda>h. require (h = None) Recovery_required)) (vt_destination v) w
      else Inr ())))))) "

definition remove_intent_and_staging :: "vtarget list \<Rightarrow> unit action" where
  "remove_intent_and_staging vs =
     and_then (lift (require_plain_parent_chain intent_path)) (\<lambda>_.
     and_then (sys_call (\<lambda>w. if is_file w intent_path then (Inr (), remove_file intent_path w)
                             else (Inl Os_error, w))) (\<lambda>_.
     for_each remove_owned_directory (remdups (map vt_dir vs))))"

definition finalize_with ::
  "(string \<Rightarrow> string) \<Rightarrow> lease \<Rightarrow> bool \<Rightarrow> string \<Rightarrow> (vtarget \<Rightarrow> unit reader) \<Rightarrow> unit action" where
  "finalize_with ck l nonce_from_intent transaction_id ready =
     and_then (lift (activate l None)) (\<lambda>_.
     and_then (lift (load_intent ck)) (\<lambda>i.
     and_then (check (intent_transaction_id i = transaction_id) Invalid_intent) (\<lambda>_.
     and_then (lift (validated_intent_paths ck i)) (\<lambda>vs.
     and_then (for_each (\<lambda>v. lift (ready v)) vs) (\<lambda>_.
     and_then (lift (verify_lock l (if nonce_from_intent then Some (intent_nonce i) else None))) (\<lambda>_.
     remove_intent_and_staging vs))))))"

definition finalize_after_audit ::
  "(content \<Rightarrow> hash) \<Rightarrow> (string \<Rightarrow> string) \<Rightarrow> lease \<Rightarrow> string \<Rightarrow> unit action" where
  "finalize_after_audit H ck l transaction_id =
     finalize_with ck l True transaction_id (target_applied H)"

definition finalize_recovery_after_audit ::
  "(content \<Rightarrow> hash) \<Rightarrow> (string \<Rightarrow> string) \<Rightarrow> lease \<Rightarrow> string \<Rightarrow> unit action" where
  "finalize_recovery_after_audit H ck l transaction_id =
     finalize_with ck l False transaction_id (target_applied H)"

definition finalize_rollback_after_audit ::
  "(content \<Rightarrow> hash) \<Rightarrow> (string \<Rightarrow> string) \<Rightarrow> lease \<Rightarrow> string \<Rightarrow> unit action" where
  "finalize_rollback_after_audit H ck l transaction_id =
     finalize_with ck l False transaction_id (target_rolled_back H)"

section \<open>Inspection\<close>

datatype recovery_state =
    CLEAN | INVALID_INTENT | PREPARED | PARTIALLY_APPLIED
  | FULLY_REPLACED_AWAITING_AUDIT | RECOVERY_CONFLICT

record target_inspection =
  ti_target :: string
  ti_expected_hash :: "hash option"
  ti_preimage_hash :: "hash option"
  ti_current_hash :: "hash option"
  ti_staged_hash :: "hash option"
  ti_backup_hash :: "hash option"
  ti_state :: target_state
  ti_kind :: target_kind
  ti_destination :: "string option"
  ti_destination_hash :: "hash option"

record recovery_inspection =
  ri_state :: recovery_state
  ri_intent :: "intent_record option"
  ri_targets :: "target_inspection list"

definition conflict_snapshot :: op_snapshot where
  "conflict_snapshot = \<lparr>snap_current = None, snap_destination = None, snap_staged = None,
     snap_backup = None, snap_state = CONFLICT\<rparr>"

definition inspect_target :: "(content \<Rightarrow> hash) \<Rightarrow> world \<Rightarrow> vtarget \<Rightarrow> target_inspection" where
  "inspect_target H w v =
     (let t = vt_intent v;
          s = (case snapshot_operation H v w of Inl _ \<Rightarrow> conflict_snapshot | Inr s \<Rightarrow> s)
      in \<lparr>ti_target = it_target t, ti_expected_hash = it_content_hash t,
          ti_preimage_hash = it_preimage_hash t, ti_current_hash = snap_current s,
          ti_staged_hash = snap_staged s, ti_backup_hash = snap_backup s,
          ti_state = snap_state s, ti_kind = it_kind t, ti_destination = it_destination t,
          ti_destination_hash = snap_destination s\<rparr>)"

definition overall_state :: "target_state set \<Rightarrow> recovery_state" where
  "overall_state states =
     (if CONFLICT \<in> states then RECOVERY_CONFLICT
      else if states = {POSTIMAGE_PRESENT} then FULLY_REPLACED_AWAITING_AUDIT
      else if states = {STAGED_POSTIMAGE_AVAILABLE} then PREPARED
      else PARTIALLY_APPLIED)"

definition inspect_recovery ::
  "(content \<Rightarrow> hash) \<Rightarrow> (string \<Rightarrow> string) \<Rightarrow> world \<Rightarrow> recovery_inspection" where
  "inspect_recovery H ck w =
     (case reject_unsafe_file True intent_path w of
        Inl _ \<Rightarrow> \<lparr>ri_state = INVALID_INTENT, ri_intent = None, ri_targets = []\<rparr>
      | Inr _ \<Rightarrow>
          if \<not> path_exists w intent_path
          then \<lparr>ri_state = CLEAN, ri_intent = None, ri_targets = []\<rparr>
          else (case bind_result (load_intent ck w) (\<lambda>i.
                       bind_result (validated_intent_paths ck i w) (\<lambda>vs. Inr (i, vs))) of
                  Inl _ \<Rightarrow> \<lparr>ri_state = INVALID_INTENT, ri_intent = None, ri_targets = []\<rparr>
                | Inr (i, vs) \<Rightarrow>
                    let inspections = map (inspect_target H w) vs in
                    \<lparr>ri_state = overall_state (ti_state ` set inspections), ri_intent = Some i,
                     ri_targets = inspections\<rparr>))"

end
