(* ===== verification/StagingPrepare.thy ===== *)
theory StagingPrepare
  imports Staging
begin

text \<open>
  Starting a transaction (\<open>StagedReplacement.prepare\<close>) and the two single-file writers
  \<open>atomic_replace_bytes\<close> and \<open>atomic_append_line_bytes\<close> of \<open>adapters/filesystem/staging.py\<close>.
  Further parameter: \<open>enc\<close>, the bytes of a JSON document. The checks that two paths are on one
  volume always pass; a random token is the next element of the state's token list.
\<close>

section \<open>Operations to stage\<close>

datatype staged_op =
    Staged_write string content
  | Staged_move string string
  | Staged_delete string

record resolved_op =
  ro_kind :: target_kind
  ro_path :: fpath
  ro_target :: string
  ro_content :: "content option"
  ro_destination_path :: "fpath option"
  ro_destination :: "string option"

definition claim_path :: "(string \<Rightarrow> string) \<Rightarrow> string set \<Rightarrow> string \<Rightarrow> exn + string set" where
  "claim_path ck keys p =
     (if ck p \<in> keys then Inl Staging_error else Inr (insert (ck p) keys))"

fun resolve_operation ::
  "(string \<Rightarrow> string) \<Rightarrow> string set \<Rightarrow> staged_op \<Rightarrow> (resolved_op \<times> string set) reader" where
  "resolve_operation ck keys (Staged_write target c) w =
     bind_result (resolve_target target w) (\<lambda>p.
     bind_result (require (is_dir w (butlast p)) Staging_error) (\<lambda>_.
     bind_result (reject_unsafe_file True p w) (\<lambda>_.
     bind_result (claim_path ck keys (as_posix p)) (\<lambda>keys'.
     Inr (\<lparr>ro_kind = REPLACE, ro_path = p, ro_target = as_posix p, ro_content = Some c,
           ro_destination_path = None, ro_destination = None\<rparr>, keys')))))"
| "resolve_operation ck keys (Staged_move source destination) w =
     bind_result (resolve_target source w) (\<lambda>p.
     bind_result (resolve_target destination w) (\<lambda>d.
     bind_result (require (is_dir w (butlast p) \<and> is_dir w (butlast d)) Staging_error) (\<lambda>_.
     bind_result (reject_unsafe_file False p w) (\<lambda>_.
     bind_result (reject_unsafe_file True d w) (\<lambda>_.
     bind_result (require_plain_parent_chain p w) (\<lambda>_.
     bind_result (require_plain_parent_chain d w) (\<lambda>_.
     bind_result (require (\<not> path_exists w d) Staging_error) (\<lambda>_.
     bind_result (claim_path ck keys (as_posix p)) (\<lambda>keys'.
     bind_result (claim_path ck keys' (as_posix d)) (\<lambda>keys''.
     Inr (\<lparr>ro_kind = MOVE, ro_path = p, ro_target = as_posix p, ro_content = None,
           ro_destination_path = Some d, ro_destination = Some (as_posix d)\<rparr>, keys'')))))))))))"
| "resolve_operation ck keys (Staged_delete target) w =
     bind_result (resolve_target target w) (\<lambda>p.
     bind_result (require (is_dir w (butlast p)) Staging_error) (\<lambda>_.
     bind_result (reject_unsafe_file False p w) (\<lambda>_.
     bind_result (require_plain_parent_chain p w) (\<lambda>_.
     bind_result (claim_path ck keys (as_posix p)) (\<lambda>keys'.
     Inr (\<lparr>ro_kind = DELETE, ro_path = p, ro_target = as_posix p, ro_content = None,
           ro_destination_path = None, ro_destination = None\<rparr>, keys'))))))"

fun resolve_operations_from ::
  "(string \<Rightarrow> string) \<Rightarrow> string set \<Rightarrow> staged_op list \<Rightarrow> resolved_op list reader" where
  "resolve_operations_from ck keys [] w = Inr []"
| "resolve_operations_from ck keys (op # ops) w =
     bind_result (resolve_operation ck keys op w) (\<lambda>(r, keys').
     bind_result (resolve_operations_from ck keys' ops w) (\<lambda>rs. Inr (r # rs)))"

definition resolve_operations :: "(string \<Rightarrow> string) \<Rightarrow> staged_op list \<Rightarrow> resolved_op list reader" where
  "resolve_operations ck = resolve_operations_from ck {}"

section \<open>Runtime directories\<close>

definition require_plain_directory :: "fpath \<Rightarrow> unit reader" where
  "require_plain_directory d w = require (is_dir w d) Context_boundary"

definition reject_nested_context_marker :: "fpath \<Rightarrow> unit reader" where
  "reject_nested_context_marker d w = require (\<not> is_file w (marker d)) Context_boundary"

definition ensure_runtime_directory :: "fpath \<Rightarrow> unit action" where
  "ensure_runtime_directory d =
     and_then (make_dir_exist_ok d) (\<lambda>_.
     and_then (lift (require_plain_directory d)) (\<lambda>_.
     lift (reject_nested_context_marker d)))"

definition ensure_runtime_directories :: "unit action" where
  "ensure_runtime_directories =
     for_each ensure_runtime_directory [[''98_state''], staging_root, transactions_root]"

text \<open>\<open>mkdir\<close> where an existing file is no error: the check that follows decides.\<close>

definition make_dir_or_existing :: "fpath \<Rightarrow> unit action" where
  "make_dir_or_existing p = sys_call (\<lambda>w.
     if nodes w p \<noteq> None then (Inr (), w)
     else if is_dir w (butlast p) then (Inr (), w\<lparr>nodes := (nodes w)(p \<mapsto> Dir)\<rparr>)
     else (Inl Os_error, w))"

definition ensure_target_parent :: "lease \<Rightarrow> string option \<Rightarrow> fpath \<Rightarrow> unit action" where
  "ensure_target_parent l expected d w =
     and_then
       (if path_exists w d then ret ()
        else and_then (lift (verify_lock l expected)) (\<lambda>_. make_dir_or_existing d)) (\<lambda>_.
     and_then (lift (require_plain_directory d)) (\<lambda>_.
     lift (reject_nested_context_marker d))) w"

definition ensure_target_parent_directories :: "lease \<Rightarrow> string option \<Rightarrow> fpath \<Rightarrow> unit action" where
  "ensure_target_parent_directories l expected p =
     for_each (ensure_target_parent l expected) (map (\<lambda>k. take k p) [1..<length p])"

section \<open>Preparing an intent\<close>

definition copy_optional ::
  "(content \<Rightarrow> hash) \<Rightarrow> fpath \<Rightarrow> fpath \<Rightarrow> hash option action" where
  "copy_optional H src dst =
     and_then (lift (read_optional src)) (\<lambda>r.
     case r of
       None \<Rightarrow> ret None
     | Some c \<Rightarrow> and_then (write_fsynced True dst c) (\<lambda>_. ret (Some (H c))))"

definition backup_file :: "fpath \<Rightarrow> nat \<Rightarrow> fpath" where
  "backup_file d k = d @ [index_name k @ ''.backup'']"

definition stage_file :: "fpath \<Rightarrow> nat \<Rightarrow> fpath" where
  "stage_file d k = d @ [index_name k @ ''.stage'']"

text \<open>One turn of the loop of \<open>prepare\<close>: the backup, the postimage, the entry of the intent.\<close>

definition prepare_target ::
  "(content \<Rightarrow> hash) \<Rightarrow> fpath \<Rightarrow> nat \<Rightarrow> resolved_op \<Rightarrow> intent_target action" where
  "prepare_target H d k r =
     and_then (lift (require_plain_parent_chain (ro_path r))) (\<lambda>_.
     and_then (lift (check_opt require_plain_parent_chain (ro_destination_path r))) (\<lambda>_.
     and_then (copy_optional H (ro_path r) (backup_file d k)) (\<lambda>pre.
     and_then (check (ro_kind r = REPLACE \<or> pre \<noteq> None) Recovery_required) (\<lambda>_.
     and_then
       (case pre of None \<Rightarrow> ret () | Some h \<Rightarrow> lift (require_hash H (backup_file d k) h)) (\<lambda>_.
     and_then
       (case (ro_kind r, ro_content r) of
          (REPLACE, Some c) \<Rightarrow>
            and_then (write_fsynced True (stage_file d k) c) (\<lambda>_.
            and_then (lift (require_hash H (stage_file d k) (H c))) (\<lambda>_.
            ret (Some (as_posix (stage_file d k)), Some (H c))))
        | (MOVE, _) \<Rightarrow> ret (None, pre)
        | _ \<Rightarrow> ret (None, None)) (\<lambda>(st, expected).
     ret \<lparr>it_target = ro_target r, it_staged = st, it_content_hash = expected,
          it_backup = (if pre = None then None else Some (as_posix (backup_file d k))),
          it_preimage_hash = pre, it_kind = ro_kind r, it_destination = ro_destination r\<rparr>))))))"

fun prepare_targets ::
  "(content \<Rightarrow> hash) \<Rightarrow> fpath \<Rightarrow> nat \<Rightarrow> resolved_op list \<Rightarrow> intent_target list action" where
  "prepare_targets H d k [] = ret []"
| "prepare_targets H d k (r # rs) =
     and_then (prepare_target H d k r) (\<lambda>t.
     and_then (prepare_targets H d (Suc k) rs) (\<lambda>ts. ret (t # ts)))"

text \<open>The intent file is first created empty and exclusively, then replaced by the complete one.\<close>

definition publish_intent :: "nat \<Rightarrow> fpath \<Rightarrow> intent_record \<Rightarrow> unit action" where
  "publish_intent n d i =
     (let temp = d @ [''intent.complete.tmp''] in
      and_then (write_fsynced True temp (Document (intent_to_dict i))) (\<lambda>_.
      and_then (lift (require_plain_parent_chain intent_path)) (\<lambda>_.
      and_then (write_fsynced True intent_path (Bytes [])) (\<lambda>_.
      replace_retry n (\<lambda>_. Inr ()) temp intent_path))))"

text \<open>The \<open>finally\<close> block of \<open>prepare\<close>: a failure before the intent exists removes the directory.\<close>

definition unless_published :: "'a action \<Rightarrow> fpath \<Rightarrow> 'a action" where
  "unless_published m d w =
     (case m w of
        (Inl e, w') \<Rightarrow>
          if e = Crashed \<or> path_exists w' intent_path then (Inl e, w')
          else (case remove_owned_directory d w' of
                  (Inl e', w'') \<Rightarrow> (Inl e', w'')
                | (Inr _, w'') \<Rightarrow> (Inl e, w''))
      | (Inr x, w') \<Rightarrow> (Inr x, w'))"

text \<open>The body of \<open>prepare\<close> once the name of the private directory is fixed.\<close>

definition prepare_in ::
  "(content \<Rightarrow> hash) \<Rightarrow> nat \<Rightarrow> lease \<Rightarrow> string \<Rightarrow> string \<Rightarrow> resolved_op list \<Rightarrow> fpath
     \<Rightarrow> intent_record action" where
  "prepare_in H n l tid nonce rs d =
     and_then (make_dir d) (\<lambda>_.
     unless_published
       (and_then (prepare_targets H d 0 rs) (\<lambda>ts.
        let i = \<lparr>intent_schema_version = 1, intent_transaction_id = tid, intent_nonce = nonce,
                 intent_targets = ts\<rparr> in
        and_then (lift (verify_lock l (Some nonce))) (\<lambda>_.
        and_then (publish_intent n d i) (\<lambda>_. ret i)))) d)"

definition prepare ::
  "(content \<Rightarrow> hash) \<Rightarrow> (string \<Rightarrow> string) \<Rightarrow> nat \<Rightarrow> lease \<Rightarrow> string \<Rightarrow> string \<Rightarrow> staged_op list
     \<Rightarrow> intent_record action" where
  "prepare H ck n l tid nonce ops =
     and_then (check (tid \<noteq> [] \<and> is_nonce nonce) Value_error) (\<lambda>_.
     and_then (lift (activate l (Some nonce))) (\<lambda>_.
     and_then ensure_runtime_directories (\<lambda>_.
     and_then (lift (reject_unsafe_file True intent_path)) (\<lambda>_.
     and_then (\<lambda>w. check (\<not> path_exists w intent_path) Recovery_required w) (\<lambda>_.
     and_then (check (ops \<noteq> []) Value_error) (\<lambda>_.
     and_then (lift (resolve_operations ck ops)) (\<lambda>rs.
     and_then next_token (\<lambda>token.
     and_then (lift (resolve_staging_path (as_posix (transactions_root @ [''txn-'' @ token])))) (\<lambda>d.
     prepare_in H n l tid nonce rs d)))))))))"

section \<open>Single-file writers\<close>

fun content_bytes :: "(json \<Rightarrow> bytes) \<Rightarrow> content \<Rightarrow> bytes" where
  "content_bytes enc (Bytes b) = b"
| "content_bytes enc (Document d) = enc d"

definition atomic_replace_bytes ::
  "(content \<Rightarrow> hash) \<Rightarrow> nat \<Rightarrow> lease \<Rightarrow> string \<Rightarrow> string \<Rightarrow> content \<Rightarrow> unit action" where
  "atomic_replace_bytes H n l nonce target c =
     and_then (check (is_nonce nonce) Value_error) (\<lambda>_.
     and_then ensure_runtime_directories (\<lambda>_.
     and_then (lift (resolve_context_path [''98_state/staging''] [] ''98_state/staging/intent.json'')) (\<lambda>_.
     and_then (lift (reject_unsafe_file True intent_path)) (\<lambda>_.
     and_then (\<lambda>w. check (\<not> path_exists w intent_path) Recovery_required w) (\<lambda>_.
     and_then (lift (resolve_target target)) (\<lambda>p.
     and_then (\<lambda>w. check (is_dir w (butlast p)) Staging_error w) (\<lambda>_.
     and_then (lift (reject_unsafe_file True p)) (\<lambda>_.
     and_then next_token (\<lambda>token.
     let temp = staging_root @ [''single-'' @ token @ ''.stage''] in
     and_then (write_fsynced True temp c) (\<lambda>_.
     finally_do
       (and_then (lift (verify_lock l (Some nonce))) (\<lambda>_.
        replace_retry n
          (\<lambda>w. bind_result (require_source_hash H temp (H c) w) (\<lambda>_. verify_lock l (Some nonce) w))
          temp p))
       (unlink_if_present temp)))))))))))"

definition plain_existing_parents :: "world \<Rightarrow> fpath \<Rightarrow> bool" where
  "plain_existing_parents w p \<longleftrightarrow>
     list_all (\<lambda>d. nodes w d = Some Dir \<and> \<not> is_file w (marker d))
       (takeWhile (path_exists w) (map (\<lambda>k. take k p) [1..<length p]))"

definition validate_active_intent_if_present :: "(string \<Rightarrow> string) \<Rightarrow> unit reader" where
  "validate_active_intent_if_present ck w =
     bind_result (require (plain_existing_parents w intent_path) Context_boundary) (\<lambda>_.
     bind_result (reject_unsafe_file True intent_path w) (\<lambda>_.
     if path_exists w intent_path then bind_result (load_intent ck w) (\<lambda>_. Inr ()) else Inr ()))"

definition line_ok :: "bytes \<Rightarrow> bool" where
  "line_ok b \<longleftrightarrow>
     b \<noteq> [] \<and> last b = CHR 0x0A \<and> count_list b (CHR 0x0A) = 1 \<and> CHR 0x0D \<notin> set b"

text \<open>The postimage is written beside the intent and renamed over the target, under the same checks
  as a replacement with revalidated paths.\<close>

definition publish_line ::
  "(content \<Rightarrow> hash) \<Rightarrow> nat \<Rightarrow> lease \<Rightarrow> string option \<Rightarrow> fpath \<Rightarrow> bytes \<Rightarrow> hash option \<Rightarrow> bytes
     \<Rightarrow> unit action" where
  "publish_line H n l expected p old target_hash line =
     (let new = Bytes (old @ line) in
      and_then (check (old = [] \<or> last old = CHR 0x0A) Recovery_required) (\<lambda>_.
      and_then next_token (\<lambda>token.
      let temp = staging_root @ [''append-'' @ token @ ''.stage''] in
      finally_do
        (and_then (lift (verify_lock l expected)) (\<lambda>_.
         and_then (write_fsynced True temp new) (\<lambda>_.
         and_then (lift (require_hash H temp (H new))) (\<lambda>_.
         replace_retry n (verify_attempt H l expected True temp p (H new) target_hash) temp p))))
        (unlink_if_present temp))))"

definition append_line ::
  "(content \<Rightarrow> hash) \<Rightarrow> (string \<Rightarrow> string) \<Rightarrow> (json \<Rightarrow> bytes) \<Rightarrow> nat \<Rightarrow> lease \<Rightarrow> string option \<Rightarrow> fpath
     \<Rightarrow> bytes \<Rightarrow> unit action" where
  "append_line H ck enc n l expected p line =
     and_then (lift (verify_lock l expected)) (\<lambda>_.
     and_then (lift (validate_active_intent_if_present ck)) (\<lambda>_.
     and_then ensure_runtime_directories (\<lambda>_.
     and_then (ensure_target_parent_directories l expected p) (\<lambda>_.
     and_then (lift (revalidate_owned_file True p)) (\<lambda>_.
     and_then (lift (read_optional p)) (\<lambda>pre.
     publish_line H n l expected p
       (case pre of None \<Rightarrow> [] | Some c \<Rightarrow> content_bytes enc c) (map_option H pre) line))))))"

definition atomic_append_line_bytes ::
  "(content \<Rightarrow> hash) \<Rightarrow> (string \<Rightarrow> string) \<Rightarrow> (json \<Rightarrow> bytes) \<Rightarrow> nat \<Rightarrow> lease \<Rightarrow> string \<Rightarrow> string \<Rightarrow> bytes
     \<Rightarrow> unit action" where
  "atomic_append_line_bytes H ck enc n l nonce target line =
     and_then (check (is_nonce nonce) Value_error) (\<lambda>_.
     and_then (check (line_ok line) Value_error) (\<lambda>_.
     and_then (lift (resolve_target target)) (\<lambda>p.
     append_line H ck enc n l (Some nonce) p line)))"

end
