(* ===== verification/IntentJson.thy ===== *)
theory IntentJson
  imports Intent
begin

text \<open>
  The JSON form of the intent (\<open>IntentRecord.to_dict\<close>, \<open>IntentRecord.from_dict\<close>): what a document
  that was accepted guarantees, and the round trip.
\<close>

lemma map_results_all: "map_results f xs = Inr ys \<Longrightarrow> y \<in> set ys \<Longrightarrow> \<exists>x\<in>set xs. f x = Inr y"
  by (induction xs arbitrary: ys) (auto simp: result_simps)

lemma fields_returned: "validate_intent_target_fields t = Inr u \<Longrightarrow> u = t"
  by (auto simp: validate_intent_target_fields_def split: if_splits target_kind.splits)

lemma target_from_dict_ok: "target_from_dict d = Inr t \<Longrightarrow> validate_intent_target_fields t = Inr t"
  by (auto simp: target_from_dict_def Let_def result_simps dest: fields_returned split: json.splits if_splits)

lemma intent_from_dict_targets:
  assumes "intent_from_dict d = Inr i"
  shows "\<exists>items. items \<noteq> [] \<and> map_results target_from_dict items = Inr (intent_targets i)"
proof -
  obtain ps where ps: "d = JObj ps" using assms by (auto simp: intent_from_dict_def split: json.splits)
  define v where "v = map_of ps ''targets''"
  obtain tid nonce where body: "(case v of
       Some (JList items) \<Rightarrow>
         if items = [] then Inl Value_error
         else bind_result (map_results target_from_dict items) (\<lambda>ts.
           Inr \<lparr>intent_schema_version = 1, intent_transaction_id = tid,
                intent_nonce = nonce, intent_targets = ts\<rparr>)
     | _ \<Rightarrow> Inl Value_error) = Inr i"
    using assms unfolding ps intent_from_dict_def Let_def json.case v_def
    by (simp only: split: if_splits) (auto simp only: bind_result_Inr Inr_not_Inl Inl_Inr_False split: if_splits)
  show ?thesis
  proof (cases "\<exists>items. v = Some (JList items)")
    case True
    then obtain items where "v = Some (JList items)" by blast
    then show ?thesis using body by (auto simp: bind_result_Inr split: if_splits intro!: exI [of _ items])
  next
    case False
    then show ?thesis using body by (auto split: option.splits json.splits)
  qed
qed

text \<open>What the constructors \<open>IntentRecord\<close> and \<open>IntentTarget\<close> require (\<open>__post_init__\<close>).\<close>

definition intent_ok :: "intent_record \<Rightarrow> bool" where
  "intent_ok i \<longleftrightarrow>
     intent_schema_version i = 1 \<and> intent_transaction_id i \<noteq> [] \<and> is_nonce (intent_nonce i)
     \<and> intent_targets i \<noteq> []
     \<and> list_all (\<lambda>t. validate_intent_target_fields t = Inr t) (intent_targets i)"

lemma is_nonce_nonempty: "is_nonce s \<Longrightarrow> s \<noteq> []"
  by (auto simp: is_nonce_def)

lemma optional_string_json: "opt_nonempty v \<Longrightarrow> optional_string (Some (json_opt v)) = Inr v"
  by (cases v) (auto simp: optional_string_def required_string_def json_opt_def opt_nonempty_def)

lemma optional_hash_json: "opt_hash_ok v \<Longrightarrow> optional_hash (Some (json_opt v)) = Inr v"
  by (cases v) (auto simp: optional_hash_def optional_string_def required_string_def json_opt_def opt_hash_ok_def)

lemma target_json:
  assumes "validate_intent_target_fields t = Inr t"
  shows "target_from_dict (target_to_dict t) = Inr t"
proof -
  have "it_target t \<noteq> []" "opt_hash_ok (it_content_hash t)" "opt_hash_ok (it_preimage_hash t)"
    "opt_nonempty (it_backup t)" "opt_nonempty (it_staged t)" "opt_nonempty (it_destination t)"
    "it_kind t = REPLACE \<Longrightarrow> it_destination t = None"
    using assms by (auto simp: validate_intent_target_fields_def split: if_splits target_kind.splits)
  then show ?thesis using assms
    by (cases t; cases "it_kind t")
      (simp_all add: target_from_dict_def target_to_dict_def legacy_fields_def required_string_def
        optional_string_json optional_hash_json kind_from_value_def insert_commute)
qed

lemma map_results_map: "list_all (\<lambda>x. f (g x) = Inr x) xs \<Longrightarrow> map_results f (map g xs) = Inr xs"
  by (induction xs) simp_all

lemma target_to_dict_keys: "no_duplicate_keys (target_to_dict t)"
  by (cases "it_kind t") (auto simp: target_to_dict_def json_opt_def split: option.splits)

end
