(* ===== verification/StagingFrame.thy ===== *)
theory StagingFrame
  imports Staging
begin

text \<open>
  What the operations of the staging component read and change: the readers depend on the
  directories, the context markers and the nodes of the paths they name; every system call changes
  the nodes of the paths it is given. Also the layout of a validated intent: which of its paths
  are distinct.
\<close>

section \<open>Reading\<close>

definition hash_at :: "(content \<Rightarrow> hash) \<Rightarrow> world \<Rightarrow> fpath \<Rightarrow> hash option" where
  "hash_at H w p = (case nodes w p of Some (File c) \<Rightarrow> Some (H c) | _ \<Rightarrow> None)"

definition no_dir :: "world \<Rightarrow> fpath \<Rightarrow> bool" where
  "no_dir w p \<longleftrightarrow> p \<noteq> [] \<and> nodes w p \<noteq> Some Dir"

lemma reject_unsafe_True: "reject_unsafe_file True p w = (if no_dir w p then Inr () else Inl Context_boundary)"
  by (auto simp: reject_unsafe_file_def path_exists_def is_file_def no_dir_def
      split: option.splits node.splits)

lemma reject_unsafe_False:
  "p \<noteq> [] \<Longrightarrow> reject_unsafe_file False p w = (if is_file w p then Inr () else Inl Context_boundary)"
  by (auto simp: reject_unsafe_file_def)

lemma hash_optional_at:
  "hash_optional H p w = (if no_dir w p then Inr (hash_at H w p) else Inl Context_boundary)"
  by (simp add: hash_optional_def reject_unsafe_True hash_at_def)

lemma hash_at_Some: "hash_at H w p = Some h \<longleftrightarrow> (\<exists>c. nodes w p = Some (File c) \<and> H c = h)"
  by (auto simp: hash_at_def split: option.splits node.splits)

lemma hash_at_None: "no_dir w p \<Longrightarrow> hash_at H w p = None \<longleftrightarrow> nodes w p = None"
  by (auto simp: hash_at_def no_dir_def split: option.splits node.splits)

lemma is_file_iff: "p \<noteq> [] \<Longrightarrow> is_file w p \<longleftrightarrow> (\<exists>c. nodes w p = Some (File c))"
  by (auto simp: is_file_def split: option.splits node.splits)

section \<open>Same shape\<close>

text \<open>Two states with the same directories and the same nested context markers; only the
  contents of files differ.\<close>

definition same_shape :: "world \<Rightarrow> world \<Rightarrow> bool" where
  "same_shape w w' \<longleftrightarrow>
     (\<forall>p. nodes w p = Some Dir \<longleftrightarrow> nodes w' p = Some Dir)
     \<and> (\<forall>d. d \<noteq> [] \<longrightarrow> is_file w (marker d) = is_file w' (marker d))
     \<and> path_exists w staging_root = path_exists w' staging_root
     \<and> world_context w = world_context w'"

lemma same_shape_refl [simp]: "same_shape w w"
  by (simp add: same_shape_def)

lemma same_shape_trans: "same_shape u v \<Longrightarrow> same_shape v w \<Longrightarrow> same_shape u w"
  by (simp add: same_shape_def)

lemma shape_dir: "same_shape w w' \<Longrightarrow> is_dir w p = is_dir w' p"
  by (simp add: same_shape_def is_dir_def)

lemma shape_no_dir: "same_shape w w' \<Longrightarrow> no_dir w p = no_dir w' p"
  by (simp add: same_shape_def no_dir_def)

lemma shape_marker:
  assumes "same_shape w w'" "1 \<le> k" "k \<le> length p"
  shows "is_file w (marker (take k p)) = is_file w' (marker (take k p))"
proof -
  have "take k p \<noteq> []" using assms(2,3) by auto
  then show ?thesis using assms(1) by (simp add: same_shape_def)
qed

lemma shape_plain_parents:
  assumes "same_shape w w'"
  shows "plain_parents w p = plain_parents w' p"
  unfolding plain_parents_def
proof (rule ball_cong [OF refl])
  fix k
  assume "k \<in> set [1..<length p]"
  then show "(nodes w (take k p) = Some Dir \<and> \<not> is_file w (marker (take k p)))
      = (nodes w' (take k p) = Some Dir \<and> \<not> is_file w' (marker (take k p)))"
    using assms shape_marker [OF assms, of k p] by (simp add: same_shape_def)
qed

lemma shape_nested:
  assumes "same_shape w w'"
  shows "nested_context_free w p = nested_context_free w' p"
proof -
  have "(\<forall>k\<in>set [1..<Suc (length q)]. \<not> is_file w (marker (take k q)))
      = (\<forall>k\<in>set [1..<Suc (length q)]. \<not> is_file w' (marker (take k q)))" for q
    by (rule ball_cong [OF refl]) (use shape_marker [OF assms] in auto)
  then show ?thesis
    unfolding nested_context_free_def Let_def shape_dir [OF assms] by blast
qed

lemma shape_resolve:
  assumes "same_shape w w'"
  shows "resolve_context_path zs fs raw w = resolve_context_path zs fs raw w'"
  unfolding resolve_context_path_def shape_nested [OF assms] ..

lemma shape_owned_asset:
  assumes "same_shape w w'"
  shows "owned_asset i ext raw w = owned_asset i ext raw w'"
  unfolding owned_asset_def resolve_staging_path_def shape_resolve [OF assms] ..

lemma shape_canonical:
  assumes "same_shape w w'"
  shows "canonical_target raw w = canonical_target raw w'"
  unfolding canonical_target_def resolve_target_def shape_resolve [OF assms] ..

lemma shape_validate:
  assumes "same_shape w w'"
  shows "validate_target_paths ck i cl item w = validate_target_paths ck i cl item w'"
proof -
  have "opt_result (\<lambda>s. owned_asset i ext s w) x = opt_result (\<lambda>s. owned_asset i ext s w') x"
    "opt_result (\<lambda>s. canonical_target s w) x = opt_result (\<lambda>s. canonical_target s w') x" for ext x
    using shape_owned_asset [OF assms] shape_canonical [OF assms]
    by (auto simp: opt_result_def split: option.splits)
  then show ?thesis
    unfolding validate_target_paths_def shape_canonical [OF assms] by presburger
qed

lemma shape_validated:
  "same_shape w w' \<Longrightarrow> validated_intent_paths ck i w = validated_intent_paths ck i w'"
proof -
  assume s: "same_shape w w'"
  have "validate_paths_from ck j cl ts w = validate_paths_from ck j cl ts w'" for j cl ts
  proof (induction ts arbitrary: j cl)
    case (Cons t ts)
    then show ?case
      by (cases "validate_target_paths ck j cl t w'") (auto simp: shape_validate [OF s])
  qed simp
  then show ?thesis by (simp add: validated_intent_paths_def)
qed

lemma shape_load:
  assumes "same_shape w w'" "nodes w intent_path = nodes w' intent_path"
  shows "load_intent ck w = load_intent ck w'"
proof -
  have "reject_unsafe_file False intent_path w = reject_unsafe_file False intent_path w'"
    using assms(2) by (simp add: reject_unsafe_file_def path_exists_def is_file_def)
  then show ?thesis
    unfolding load_intent_def require_plain_parent_chain_def shape_plain_parents [OF assms(1)]
      assms(2) shape_validated [OF assms(1)] by simp
qed

section \<open>The snapshot in one line\<close>

definition accessible :: "vtarget \<Rightarrow> world \<Rightarrow> bool" where
  "accessible v w \<longleftrightarrow>
     require_operation_parents v w = Inr () \<and> no_dir w (vt_target v)
     \<and> (\<forall>p. vt_destination v = Some p \<longrightarrow> no_dir w p)
     \<and> (\<forall>p. vt_staged v = Some p \<longrightarrow> no_dir w p)
     \<and> (\<forall>p. vt_backup v = Some p \<longrightarrow> no_dir w p)"

definition hash_opt_at :: "(content \<Rightarrow> hash) \<Rightarrow> world \<Rightarrow> fpath option \<Rightarrow> hash option" where
  "hash_opt_at H w p = (case p of None \<Rightarrow> None | Some q \<Rightarrow> hash_at H w q)"

definition backup_matches :: "(content \<Rightarrow> hash) \<Rightarrow> vtarget \<Rightarrow> world \<Rightarrow> bool" where
  "backup_matches H v w \<longleftrightarrow>
     (if it_preimage_hash (vt_intent v) = None then vt_backup v = None
      else hash_opt_at H w (vt_backup v) = it_preimage_hash (vt_intent v))"

definition target_class :: "(content \<Rightarrow> hash) \<Rightarrow> vtarget \<Rightarrow> world \<Rightarrow> exn + target_state" where
  "target_class H v w =
     classify_target (vt_intent v) (hash_at H w (vt_target v)) (hash_opt_at H w (vt_destination v))
       (hash_opt_at H w (vt_staged v))"

lemma hash_opt_path_Inr:
  "hash_opt_path H p w = Inr h \<longleftrightarrow> (\<forall>q. p = Some q \<longrightarrow> no_dir w q) \<and> h = hash_opt_at H w p"
  by (auto simp: hash_opt_path_def hash_opt_at_def hash_optional_at split: option.splits)

lemma verify_backup_Inr:
  assumes "\<forall>p. vt_backup v = Some p \<longrightarrow> no_dir w p"
  shows "verify_backup H v w = Inr () \<longleftrightarrow> backup_matches H v w"
  using assms
  by (auto simp: verify_backup_def backup_matches_def hash_opt_at_def hash_optional_at result_simps
      split: option.splits)

lemma snapshot_iff:
  "snapshot_operation H v w = Inr s \<longleftrightarrow>
     accessible v w \<and> backup_matches H v w \<and> target_class H v w = Inr (snap_state s)
     \<and> snap_current s = hash_at H w (vt_target v)
     \<and> snap_destination s = hash_opt_at H w (vt_destination v)
     \<and> snap_staged s = hash_opt_at H w (vt_staged v)
     \<and> snap_backup s = hash_opt_at H w (vt_backup v)"
proof (cases "accessible v w")
  case True
  then have parts: "require_operation_parents v w = Inr ()"
    "hash_optional H (vt_target v) w = Inr (hash_at H w (vt_target v))"
    "hash_opt_path H (vt_destination v) w = Inr (hash_opt_at H w (vt_destination v))"
    "hash_opt_path H (vt_staged v) w = Inr (hash_opt_at H w (vt_staged v))"
    "hash_opt_path H (vt_backup v) w = Inr (hash_opt_at H w (vt_backup v))"
    "verify_backup H v w = Inr () \<longleftrightarrow> backup_matches H v w"
    by (simp_all add: accessible_def hash_optional_at hash_opt_path_Inr verify_backup_Inr)
  show ?thesis
    using True parts(6) by (cases s) (auto simp: snapshot_operation_def parts result_simps target_class_def)
next
  case False
  then have "snapshot_operation H v w \<noteq> Inr s"
    by (auto simp: snapshot_operation_def result_simps accessible_def hash_optional_at hash_opt_path_Inr
        split: if_splits)
  with False show ?thesis by simp
qed

lemma shape_accessible:
  assumes "same_shape w w'"
  shows "accessible v w = accessible v w'"
proof -
  have root: "path_exists w staging_root = path_exists w' staging_root"
    using assms by (simp add: same_shape_def)
  have usable: "target_parent_is_usable w p = target_parent_is_usable w' p" for p
    unfolding target_parent_is_usable_def shape_dir [OF assms] root ..
  have chain: "require_plain_parent_chain p w = require_plain_parent_chain p w'" for p
    unfolding require_plain_parent_chain_def shape_plain_parents [OF assms] ..
  have owned: "revalidate_owned_file True p w = revalidate_owned_file True p w'" for p
    unfolding revalidate_owned_file_def chain reject_unsafe_True shape_no_dir [OF assms] ..
  have "require_operation_parents v w = require_operation_parents v w'"
    unfolding require_operation_parents_def check_opt_def usable chain owned ..
  then show ?thesis
    unfolding accessible_def shape_no_dir [OF assms] by simp
qed

lemma hash_at_cong: "nodes w p = nodes w' p \<Longrightarrow> hash_at H w p = hash_at H w' p"
  by (simp add: hash_at_def)

section \<open>What the system calls change\<close>

definition no_edits :: "world \<Rightarrow> bool" where
  "no_edits w \<longleftrightarrow> (\<forall>p c. Edit p c \<notin> set (events w))"

text \<open>Everything outside \<open>P\<close> is as before, and the environment still edits no file.\<close>

definition frame :: "fpath set \<Rightarrow> world \<Rightarrow> world \<Rightarrow> bool" where
  "frame P w w' \<longleftrightarrow>
     same_shape w w' \<and> (\<forall>p. p \<notin> P \<longrightarrow> nodes w' p = nodes w p)
     \<and> set (events w') \<subseteq> set (events w) \<and> set (tokens w') \<subseteq> set (tokens w)"

lemma frame_refl [simp]: "frame P w w"
  by (simp add: frame_def)

lemma frame_trans: "frame P u v \<Longrightarrow> frame P v w \<Longrightarrow> frame P u w"
  using same_shape_trans [of u v w] unfolding frame_def by auto

lemma frame_mono: "frame P u v \<Longrightarrow> P \<subseteq> Q \<Longrightarrow> frame Q u v"
  unfolding frame_def by blast

lemma frame_no_edits: "frame P w w' \<Longrightarrow> no_edits w \<Longrightarrow> no_edits w'"
  unfolding frame_def no_edits_def by blast

lemma frame_nodes: "frame P w w' \<Longrightarrow> p \<notin> P \<Longrightarrow> nodes w' p = nodes w p"
  by (simp add: frame_def)

lemma frame_shape: "frame P w w' \<Longrightarrow> same_shape w w'"
  by (simp add: frame_def)

text \<open>A path whose file can be created and removed without changing the shape.\<close>

definition plain_path :: "fpath \<Rightarrow> bool" where
  "plain_path p \<longleftrightarrow> p \<noteq> [] \<and> p \<noteq> staging_root \<and> (\<forall>d. d \<noteq> [] \<longrightarrow> p \<noteq> marker d)"

lemma set_node_shape:
  assumes "plain_path p" "nodes w p \<noteq> Some Dir" "nodes w' = (nodes w)(p := x)" "x \<noteq> Some Dir"
    and "world_context w' = world_context w"
  shows "same_shape w w'"
  using assms by (auto simp: same_shape_def plain_path_def is_file_def path_exists_def)

lemma next_event_frame:
  assumes "next_event w = (r, w')" "no_edits w"
  shows "nodes w' = nodes w \<and> frame {} w w' \<and> (\<forall>e. r = Inl e \<longrightarrow> e = Crashed)"
proof (cases "events w")
  case (Cons ev rest)
  have "nodes v = nodes w \<Longrightarrow> world_context v = world_context w \<Longrightarrow> events v = rest \<Longrightarrow>
      tokens v = tokens w \<Longrightarrow> frame {} w v" for v
    using Cons by (auto simp: frame_def same_shape_def is_file_def path_exists_def)
  moreover have "ev \<noteq> Edit p c" for p c
    using assms(2) Cons by (auto simp: no_edits_def)
  ultimately show ?thesis
    using assms(1) Cons by (cases ev) (auto simp: next_event_def)
qed (use assms in \<open>auto simp: next_event_def\<close>)

lemma put_file_frame: "plain_path p \<Longrightarrow> nodes w p \<noteq> Some Dir \<Longrightarrow> frame {p} w (put_file p c w)"
  by (auto simp: frame_def put_file_def intro: set_node_shape [of p w _ "Some (File c)"])

lemma remove_file_frame: "plain_path p \<Longrightarrow> nodes w p \<noteq> Some Dir \<Longrightarrow> frame {p} w (remove_file p w)"
  by (auto simp: frame_def remove_file_def intro: set_node_shape [of p w _ None])

lemma os_replace_Inr:
  "os_replace src dst w = (Inr (), w') \<longleftrightarrow>
     (\<exists>c. nodes w src = Some (File c) \<and> nodes w dst \<noteq> Some Dir \<and> is_dir w (butlast dst)
        \<and> w' = w\<lparr>nodes := (nodes w)(src := None, dst := Some (File c))\<rparr>)"
  by (auto simp: os_replace_def split: option.splits node.splits if_splits)

lemma os_replace_Inl: "os_replace src dst w = (Inl e, w') \<Longrightarrow> w' = w"
  by (auto simp: os_replace_def split: option.splits node.splits if_splits)

lemma os_replace_frame:
  assumes "os_replace src dst w = (r, w')" "plain_path src" "plain_path dst"
  shows "frame {src, dst} w w'"
proof (cases r)
  case Inl
  then show ?thesis using assms(1) os_replace_Inl [of src dst w _ w'] by simp
next
  case (Inr u)
  then obtain c where c: "nodes w src = Some (File c)" "nodes w dst \<noteq> Some Dir"
    "w' = w\<lparr>nodes := (nodes w)(src := None, dst := Some (File c))\<rparr>"
    using assms(1) by (auto simp: os_replace_Inr)
  let ?v = "w\<lparr>nodes := (nodes w)(src := None)\<rparr>"
  have "same_shape w ?v" using assms(2) c(1) by (intro set_node_shape [of src w]) auto
  moreover have "same_shape ?v w'"
    using assms(3) c by (intro set_node_shape [of dst ?v w' "Some (File c)"]) auto
  ultimately show ?thesis using c(3) same_shape_trans by (auto simp: frame_def)
qed

lemma write_fsynced_cases:
  assumes "write_fsynced ex p c w = (r, w')" "no_edits w" "plain_path p"
  shows "frame {p} w w'" "r = Inr () \<Longrightarrow> nodes w' p = Some (File c)"
    "r \<noteq> Inl Crashed \<Longrightarrow> r \<noteq> Inr () \<Longrightarrow> nodes w' = nodes w"
proof -
  have "frame {p} w w' \<and> (r = Inr () \<longrightarrow> nodes w' p = Some (File c))
     \<and> (r \<noteq> Inl Crashed \<longrightarrow> r \<noteq> Inr () \<longrightarrow> nodes w' = nodes w)"
  proof (cases "\<not> is_dir w (butlast p) \<or> nodes w p = Some Dir \<or> (ex \<and> nodes w p \<noteq> None)")
    case True
    then show ?thesis using assms(1) by (auto simp: write_fsynced_def)
  next
    case False
    show ?thesis
    proof (cases "\<exists>k rest. events w = Crash k # rest")
      case True
      then obtain k rest where ev: "events w = Crash k # rest" by blast
      let ?v = "w\<lparr>events := rest\<rparr>"
      have "frame {p} w ?v"
        using ev by (auto simp: frame_def same_shape_def is_file_def path_exists_def)
      moreover have "frame {p} ?v (put_file p (torn (k - 1) c) ?v)"
        using False assms(3) by (intro put_file_frame) auto
      moreover have "r = Inl Crashed" "w' = ?v \<or> w' = put_file p (torn (k - 1) c) ?v"
        using False ev assms(1) by (auto simp: write_fsynced_def split: if_splits)
      ultimately show ?thesis using frame_trans by auto
    next
      case no_crash: False
      then have "and_then next_event (\<lambda>ev. if ev = Deny then fail Os_error
            else (\<lambda>w. (Inr (), put_file p c w))) w = (r, w')"
        using False assms(1) by (auto simp: write_fsynced_def split: list.splits event.splits)
      then show ?thesis
      proof (rule and_then_cases)
        fix e
        assume "next_event w = (Inl e, w')" "r = Inl e"
        then show ?thesis
          using next_event_frame [OF _ assms(2)] by (auto intro: frame_mono)
      next
        fix ev v
        assume e: "next_event w = (Inr ev, v)"
          and k: "(if ev = Deny then fail Os_error else (\<lambda>w. (Inr (), put_file p c w))) v = (r, w')"
        have v: "nodes v = nodes w" "frame {p} w v"
          using next_event_frame [OF e assms(2)] by (auto intro: frame_mono)
        have "frame {p} v (put_file p c v)"
          using False v(1) assms(3) by (intro put_file_frame) auto
        with k v show ?thesis
          by (auto simp: fail_def put_file_def intro: frame_trans split: if_splits)
      qed
    qed
  qed
  then show "frame {p} w w'" "r = Inr () \<Longrightarrow> nodes w' p = Some (File c)"
    "r \<noteq> Inl Crashed \<Longrightarrow> r \<noteq> Inr () \<Longrightarrow> nodes w' = nodes w" by blast+
qed

section \<open>The retry loops\<close>

text \<open>
  A failing replacement has changed nothing; a successful one renamed the source over the target in
  a state whose files were still the original ones and in which the checks had just passed.
\<close>

lemma replace_retry_outcome:
  assumes "replace_retry n before src dst w = (r, w')" "no_edits w"
  shows "(\<forall>e. r = Inl e \<longrightarrow> nodes w' = nodes w \<and> frame {} w w')
    \<and> (r = Inr () \<longrightarrow> (\<exists>v. nodes v = nodes w \<and> frame {} w v \<and> before v = Inr ()
          \<and> os_replace src dst v = (Inr (), w')))"
  using assms
proof (induction n before src dst arbitrary: w rule: replace_retry.induct)
  case (1 before src dst)
  then show ?case by (auto simp: fail_def)
next
  case (2 n before src dst)
  from 2(2) [unfolded replace_retry.simps] show ?case
  proof (cases rule: and_then_cases)
    case (fails e)
    then show ?thesis using next_event_frame [of w "Inl e" w'] 2(3) by auto
  next
    case (passes ev v)
    have v: "nodes v = nodes w" "frame {} w v"
      using next_event_frame [OF passes(1) 2(3)] by auto
    have nv: "no_edits v" using v(2) 2(3) frame_no_edits by blast
    from passes(2) show ?thesis
    proof (cases rule: and_then_cases)
      case (fails e)
      then show ?thesis using v by (auto simp: lift_def)
    next
      case (passes u v')
      then have [simp]: "v' = v" and b: "before v = Inr ()" by (auto simp: lift_def)
      show ?thesis
      proof (cases "ev = Deny \<and> n \<noteq> 0")
        case True
        then have "replace_retry n before src dst v = (r, w')" using passes(2) by simp
        note ih = 2(1) [OF conjunct1 [OF True] conjunct2 [OF True] this nv]
        show ?thesis
        proof (cases r)
          case (Inl e)
          then show ?thesis using ih v frame_trans [of "{}" w v] by simp
        next
          case (Inr u)
          then obtain z where "nodes z = nodes v" "frame {} v z" "before z = Inr ()"
            "os_replace src dst z = (Inr (), w')" using ih by auto
          then show ?thesis using v Inr frame_trans [of "{}" w v z] by auto
        qed
      next
        case False
        show ?thesis
        proof (cases "ev = Deny")
          case True
          with False passes(2) v show ?thesis by (auto simp: fail_def)
        next
          case False
          then have "os_replace src dst v = (r, w')" using passes(2) by simp
          then show ?thesis using v b os_replace_Inl [of src dst v _ w'] by (cases r) auto
        qed
      qed
    qed
  qed
qed

lemma replace_retry_quiet:
  assumes "events w = []" "n \<noteq> 0" "before w = Inr ()"
  shows "replace_retry n before src dst w = os_replace src dst w"
  using assms
  by (cases n) (simp_all add: and_then_def next_event_def lift_def)

lemma unlink_retry_outcome:
  assumes "unlink_retry H n validate before p h w = (r, w')" "no_edits w"
  shows "(\<forall>e. r = Inl e \<longrightarrow> nodes w' = nodes w \<and> frame {} w w')
    \<and> (r = Inr () \<longrightarrow> no_dir w p \<and> (\<exists>v. nodes v = nodes w \<and> frame {} w v \<and> before v = Inr ()
          \<and> (hash_at H w p = None \<and> w' = v \<or> hash_at H w p = Some h \<and> w' = remove_file p v)))"
  using assms
proof (induction H n validate before p h arbitrary: w rule: unlink_retry.induct)
  case (1 H validate before p h)
  then show ?case by (auto simp: fail_def)
next
  case (2 H n validate before p h)
  from 2(2) [unfolded unlink_retry.simps] show ?case
  proof (cases rule: and_then_cases)
    case (fails e)
    then show ?thesis using next_event_frame [of w "Inl e" w'] 2(3) by auto
  next
    case (passes ev v)
    have v: "nodes v = nodes w" "frame {} w v"
      using next_event_frame [OF passes(1) 2(3)] by auto
    have nv: "no_edits v" using v(2) 2(3) frame_no_edits by blast
    have h: "hash_at H v p = hash_at H w p" "no_dir v p = no_dir w p"
      using v(1) by (simp_all add: hash_at_def no_dir_def)
    show ?thesis
    proof (cases "validate v = Inr () \<and> no_dir v p \<and> before v = Inr ()")
      case False
      then have "nodes w' = nodes v \<and> w' = v \<and> (\<exists>e. r = Inl e)"
        using passes(2)
        by (auto simp: and_then_def lift_def hash_optional_at split: sum.splits if_splits; metis)
      then show ?thesis using v by auto
    next
      case True
      then have k: "(if hash_at H v p = None then ret ()
           else if hash_at H v p \<noteq> Some h then fail Recovery_required
           else if ev = Deny
           then (if n = 0 then fail Recoverable_replace else unlink_retry H n validate before p h)
           else (\<lambda>w. (Inr (), remove_file p w))) v = (r, w')"
        using passes(2) by (simp add: and_then_def lift_def hash_optional_at)
      show ?thesis
      proof (cases "hash_at H v p = Some h \<and> ev = Deny \<and> n \<noteq> 0")
        case deny: True
        then have "unlink_retry H n validate before p h v = (r, w')" using k by simp
        note ih = 2(1) [OF _ _ conjunct1 [OF conjunct2 [OF deny]] conjunct2 [OF conjunct2 [OF deny]] this nv]
        show ?thesis
        proof (cases r)
          case (Inl e)
          then show ?thesis using ih v deny frame_trans [of "{}" w v] by simp
        next
          case (Inr u)
          then obtain z where "nodes z = nodes v" "frame {} v z" "before z = Inr ()" "no_dir v p"
            "hash_at H v p = None \<and> w' = z \<or> hash_at H v p = Some h \<and> w' = remove_file p z"
            using ih deny by auto
          then show ?thesis using v h Inr frame_trans [of "{}" w v z] by auto
        qed
      next
        case False
        then show ?thesis
          using k v h True by (auto simp: ret_def fail_def split: if_splits)
      qed
    qed
  qed
qed

lemma unlink_retry_quiet:
  assumes "events w = []" "n \<noteq> 0" "validate w = Inr ()" "before w = Inr ()" "no_dir w p"
    "hash_at H w p = Some h"
  shows "unlink_retry H n validate before p h w = (Inr (), remove_file p w)"
  using assms
  by (cases n) (simp_all add: and_then_def next_event_def lift_def hash_optional_at)

section \<open>The lock\<close>

definition holds_lock :: "lease \<Rightarrow> string option \<Rightarrow> world \<Rightarrow> bool" where
  "holds_lock l expected w \<longleftrightarrow>
     lease_context l = world_context w \<and> \<not> lease_released l \<and> disk_nonce w = Some (lease_nonce l)
     \<and> (\<forall>e. expected = Some e \<longrightarrow> e = lease_nonce l)"

lemma verify_lock_iff: "verify_lock l expected w = Inr () \<longleftrightarrow> holds_lock l expected w"
  by (auto simp: verify_lock_def verify_fence_def holds_lock_def result_simps split: option.splits)

lemma verify_attempt_Inr:
  "verify_attempt H l expected rv src dst sh dh w = Inr () \<longleftrightarrow>
     (rv \<longrightarrow> revalidate_owned_file False src w = Inr () \<and> revalidate_owned_file True dst w = Inr ())
     \<and> no_dir w src \<and> hash_at H w src = Some sh \<and> no_dir w dst \<and> hash_at H w dst = dh
     \<and> holds_lock l expected w"
  by (auto simp: verify_attempt_def Let_def result_simps require_source_hash_def
      require_target_hash_def hash_optional_at verify_lock_iff split: if_splits)

text \<open>A fenced replacement, in one line for each outcome.\<close>

lemma replace_with_retry_outcome:
  assumes "replace_with_retry H n l expected rv src dst sh dh w = (r, w')" "no_edits w"
    "plain_path src" "plain_path dst"
  shows "frame {src, dst} w w'"
    and "r = Inl e \<Longrightarrow> nodes w' = nodes w"
    and "r = Inr () \<Longrightarrow> hash_at H w src = Some sh \<and> hash_at H w dst = dh
           \<and> nodes w' = (nodes w)(src := None, dst := nodes w src)"
proof -
  let ?b = "verify_attempt H l expected rv src dst sh dh"
  have o: "(\<forall>e. r = Inl e \<longrightarrow> nodes w' = nodes w \<and> frame {} w w')
    \<and> (r = Inr () \<longrightarrow> (\<exists>v. nodes v = nodes w \<and> frame {} w v \<and> ?b v = Inr ()
          \<and> os_replace src dst v = (Inr (), w')))"
    using assms(1,2) unfolding replace_with_retry_def by (rule replace_retry_outcome)
  show "r = Inl e \<Longrightarrow> nodes w' = nodes w" using o by simp
  have ok: "frame {src, dst} w w' \<and> hash_at H w src = Some sh \<and> hash_at H w dst = dh
      \<and> nodes w' = (nodes w)(src := None, dst := nodes w src)" if ok_r: "r = Inr ()"
  proof -
    obtain v where v: "nodes v = nodes w" "frame {} w v" "?b v = Inr ()"
      "os_replace src dst v = (Inr (), w')"
      using conjunct2 [OF o, THEN mp, OF ok_r] by auto
    have "frame {src, dst} w v" using v(2) frame_mono by blast
    moreover have "frame {src, dst} v w'" using os_replace_frame [OF v(4) assms(3,4)] .
    ultimately have "frame {src, dst} w w'" by (rule frame_trans)
    then show ?thesis
      using v(1,3,4) by (auto simp: verify_attempt_Inr os_replace_Inr hash_at_def)
  qed
  then show "r = Inr () \<Longrightarrow> hash_at H w src = Some sh \<and> hash_at H w dst = dh
      \<and> nodes w' = (nodes w)(src := None, dst := nodes w src)" by blast
  show "frame {src, dst} w w'"
  proof (cases r)
    case (Inl e)
    then have "frame {} w w'" using o by simp
    then show ?thesis by (rule frame_mono) simp
  next
    case (Inr u)
    then show ?thesis using ok by simp
  qed
qed

lemma unlink_frame:
  assumes "unlink_retry H n validate before p h w = (r, w')" "no_edits w" "plain_path p"
  shows "frame {p} w w'"
    and "r = Inl e \<Longrightarrow> nodes w' = nodes w"
    and "r = Inr () \<Longrightarrow> (hash_at H w p = None \<or> hash_at H w p = Some h) \<and> nodes w' = (nodes w)(p := None)"
proof -
  note o = unlink_retry_outcome [OF assms(1,2)]
  show "r = Inl e \<Longrightarrow> nodes w' = nodes w" using o by simp
  have ok: "frame {p} w w' \<and> (hash_at H w p = None \<or> hash_at H w p = Some h)
      \<and> nodes w' = (nodes w)(p := None)" if ok_r: "r = Inr ()"
  proof -
    note finished = conjunct2 [OF o, THEN mp, OF ok_r]
    have nd: "no_dir w p" by (rule conjunct1 [OF finished])
    obtain v where v: "nodes v = nodes w" "frame {} w v"
      "hash_at H w p = None \<and> w' = v \<or> hash_at H w p = Some h \<and> w' = remove_file p v"
      using conjunct2 [OF finished] by auto
    have fv: "frame {p} w v" using v(2) frame_mono by blast
    show ?thesis
    proof (cases "hash_at H w p")
      case None
      then show ?thesis using v fv hash_at_None [OF nd, of H] by auto
    next
      case (Some x)
      then have "w' = remove_file p v" "x = h" using v(3) by auto
      moreover have "frame {p} v (remove_file p v)"
        using nd v(1) assms(3) by (intro remove_file_frame) (simp_all add: no_dir_def)
      ultimately show ?thesis using Some v(1) frame_trans [OF fv] by (auto simp: remove_file_def)
    qed
  qed
  then show "r = Inr () \<Longrightarrow> (hash_at H w p = None \<or> hash_at H w p = Some h)
      \<and> nodes w' = (nodes w)(p := None)" by blast
  show "frame {p} w w'"
  proof (cases r)
    case (Inl e)
    then have "frame {} w w'" using o by simp
    then show ?thesis by (rule frame_mono) simp
  next
    case (Inr u)
    then show ?thesis using ok by simp
  qed
qed

end
