(* ===== verification/StagingLayout.thy ===== *)
theory StagingLayout
  imports StagingFrame
begin

text \<open>
  What a validated intent guarantees about its paths: every target lies outside \<open>98_state\<close>, every
  backup and postimage lies in the one private directory of the transaction, and no two of these
  paths coincide. The recovery proofs rest on this layout.
\<close>

definition opt_list :: "'a option \<Rightarrow> 'a list" where
  "opt_list v = (case v of None \<Rightarrow> [] | Some x \<Rightarrow> [x])"

lemma opt_list_simps [simp]: "opt_list None = []" "opt_list (Some x) = [x]"
  by (simp_all add: opt_list_def)

lemma set_opt_list: "x \<in> set (opt_list v) \<longleftrightarrow> v = Some x"
  by (auto simp: opt_list_def split: option.splits)

definition paths_of :: "vtarget \<Rightarrow> fpath list" where
  "paths_of v = vt_target v # opt_list (vt_destination v)"

definition assets_of :: "vtarget \<Rightarrow> fpath list" where
  "assets_of v = opt_list (vt_staged v) @ opt_list (vt_backup v)"

text \<open>The parts of a path string.\<close>

definition path_of :: "string \<Rightarrow> fpath" where
  "path_of s = split_on CHR ''/'' s"

definition outside_state :: "fpath \<Rightarrow> bool" where
  "outside_state p \<longleftrightarrow> p \<noteq> [] \<and> hd p \<noteq> ''98_state''"

definition vt_static :: "vtarget \<Rightarrow> bool" where
  "vt_static v \<longleftrightarrow>
     (\<forall>p\<in>set (paths_of v). outside_state p \<and> path_of (as_posix p) = p)
     \<and> it_target (vt_intent v) = as_posix (vt_target v)
     \<and> it_destination (vt_intent v) = map_option as_posix (vt_destination v)
     \<and> it_staged (vt_intent v) = map_option as_posix (vt_staged v)
     \<and> it_backup (vt_intent v) = map_option as_posix (vt_backup v)
     \<and> (\<exists>d. vt_dir v = transactions_root @ [d])
     \<and> (\<forall>p. vt_staged v = Some p \<longrightarrow> (\<exists>x. p = vt_dir v @ [x @ ''.stage''] \<and> CHR ''.'' \<notin> set x))
     \<and> (\<forall>p. vt_backup v = Some p \<longrightarrow> (\<exists>x. p = vt_dir v @ [x @ ''.backup'']))"

definition layout :: "vtarget list \<Rightarrow> bool" where
  "layout vs \<longleftrightarrow>
     (\<forall>v\<in>set vs. vt_static v) \<and> distinct (concat (map paths_of vs))
     \<and> distinct (concat (map assets_of vs)) \<and> (\<exists>d. \<forall>v\<in>set vs. vt_dir v = d)"

section \<open>Resolved paths\<close>

lemma portable_parts_Inr:
  assumes "portable_parts raw = Inr p"
  shows "p \<noteq> [] \<and> (\<forall>x\<in>set p. CHR ''/'' \<notin> set x)"
proof -
  let ?s = "map (\<lambda>c. if c = CHR 0x5C then CHR ''/'' else c) raw"
  have "p = split_on CHR ''/'' ?s"
    using assms by (auto simp: portable_parts_def Let_def split: if_splits)
  then show ?thesis using split_on_no_sep [of _ "CHR ''/''" ?s] by auto
qed

lemma split_posix:
  assumes "portable_parts raw = Inr p"
  shows "split_on CHR ''/'' (as_posix p) = p"
  using portable_parts_Inr [OF assms] unfolding as_posix_def by (intro split_join) auto

lemma resolve_context_path_Inr:
  "resolve_context_path zs fs raw w = Inr p \<longleftrightarrow>
     portable_parts raw = Inr p \<and> allowed_location zs fs p \<and> nested_context_free w p"
  by (auto simp: resolve_context_path_def result_simps)

lemma in_zone_hd:
  assumes "in_zone (as_posix p) z" "split_on CHR ''/'' (as_posix p) = p" "CHR ''/'' \<notin> set z"
  shows "hd p = z"
proof -
  from assms(1) consider "as_posix p = z" | rest where "as_posix p = z @ CHR ''/'' # rest"
    by (auto simp: in_zone_def prefix_def)
  then show ?thesis
  proof cases
    case 1
    then show ?thesis using assms(2) split_on_whole [OF assms(3)] by (metis list.sel(1))
  next
    case 2
    then show ?thesis using assms(2) split_on_append [OF assms(3), of rest] by (metis list.sel(1))
  qed
qed

lemma resolve_target_outside:
  assumes "resolve_target raw w = Inr p"
  shows "outside_state p"
proof -
  have r: "portable_parts raw = Inr p" "allowed_location canonical_zones root_targets p"
    using assms by (simp_all add: resolve_target_def resolve_context_path_Inr)
  note s = split_posix [OF r(1)]
  have "hd p \<in> set (canonical_zones @ root_targets)"
  proof (cases "as_posix p \<in> set root_targets")
    case True
    then have "p = [''context.yaml'']"
      using s by (simp add: root_targets_def)
    then show ?thesis by (simp add: root_targets_def)
  next
    case False
    then obtain z where z: "z \<in> set canonical_zones" "in_zone (as_posix p) z"
      using r(2) by (auto simp: allowed_location_def canonical_zones_def)
    have "CHR ''/'' \<notin> set z" using z(1) by (auto simp: canonical_zones_def)
    then show ?thesis using in_zone_hd [OF z(2) s] z(1) by simp
  qed
  then have "hd p \<noteq> ''98_state''" by (auto simp: canonical_zones_def root_targets_def)
  then show ?thesis using portable_parts_Inr [OF r(1)] by (simp add: outside_state_def)
qed

lemma canonical_target_Inr:
  assumes "canonical_target raw w = Inr p"
  shows "raw = as_posix p \<and> outside_state p \<and> path_of (as_posix p) = p"
proof -
  have r: "resolve_target raw w = Inr p" "raw = as_posix p"
    using assms by (auto simp: canonical_target_def result_simps split: if_splits)
  then have "portable_parts raw = Inr p" by (simp add: resolve_target_def resolve_context_path_Inr)
  then show ?thesis using r resolve_target_outside split_posix by (simp add: path_of_def)
qed

lemma owned_asset_Inr:
  assumes "owned_asset i ext raw w = Inr p"
  shows "raw = as_posix p \<and> (\<exists>d. p = transactions_root @ [d, index_name i @ ext])"
proof -
  have r: "portable_parts raw = Inr p" "allowed_location [transactions_zone] [] p"
    and l: "length p = 5" "last p = index_name i @ ext" "raw = as_posix p"
    using assms
    by (auto simp: owned_asset_def resolve_staging_path_def resolve_context_path_Inr result_simps
        split: if_splits)
  note s = split_posix [OF r(1)]
  have "as_posix p = transactions_zone \<or> prefix (transactions_zone @ ''/'') (as_posix p)"
    using r(2) by (simp add: allowed_location_def in_zone_def)
  moreover have "as_posix p \<noteq> transactions_zone"
  proof
    assume "as_posix p = transactions_zone"
    then have "length (split_on CHR ''/'' transactions_zone) = 5" using s l(1) by simp
    then show False by (simp add: transactions_zone_def)
  qed
  ultimately obtain rest where "as_posix p = transactions_zone @ CHR ''/'' # rest"
    by (auto simp: prefix_def)
  then have "p = ''98_state'' # ''staging'' # ''transactions'' # split_on CHR ''/'' rest"
    using s split_on_append [of "CHR ''/''" "''98_state''"] split_on_append [of "CHR ''/''" "''staging''"]
      split_on_append [of "CHR ''/''" "''transactions''"]
    by (simp add: transactions_zone_def)
  moreover from this l(1) obtain d x where "split_on CHR ''/'' rest = [d, x]"
    by (auto simp: length_Suc_conv numeral_eq_Suc)
  ultimately show ?thesis
    using l(2,3) by (simp add: transactions_root_def staging_root_def)
qed

lemma digits_no_dot: "CHR ''.'' \<notin> set (digits n)"
proof (induction n rule: digits.induct)
  case (1 n)
  have "CHR ''.'' \<noteq> char_of (48 + k)" if "k < 10" for k :: nat
  proof
    assume "CHR ''.'' = char_of (48 + k)"
    then have "(of_char CHR ''.'' :: nat) = of_char (char_of (48 + k) :: char)" by (rule arg_cong)
    then show False using that by simp
  qed
  moreover have "n mod 10 < 10" by simp
  ultimately show ?case using 1 by (subst digits.simps) auto
qed

lemma index_name_no_dot: "CHR ''.'' \<notin> set (index_name i)"
  using digits_no_dot by (simp add: index_name_def)

section \<open>A validated intent has a layout\<close>

definition target_strings :: "intent_target \<Rightarrow> string list" where
  "target_strings t = it_target t # opt_list (it_destination t)"

definition asset_strings :: "intent_target \<Rightarrow> string list" where
  "asset_strings t = opt_list (it_staged t) @ opt_list (it_backup t)"

definition claimed_assets :: "claims \<Rightarrow> string set" where
  "claimed_assets cl = claimed_staged cl \<union> claimed_backup cl"

lemma claim_keys_Inr:
  "claim_keys ck keys ps = Inr keys' \<longleftrightarrow>
     distinct (map ck ps) \<and> ck ` set ps \<inter> keys = {} \<and> keys' = keys \<union> ck ` set ps"
  by (induction ps arbitrary: keys) auto

lemma opt_result_Inr:
  "opt_result f v = Inr r \<longleftrightarrow>
     (v = None \<and> r = None) \<or> (\<exists>x y. v = Some x \<and> f x = Inr y \<and> r = Some y)"
  by (auto simp: opt_result_def result_simps split: option.splits)

lemma validate_target_static:
  assumes "validate_target_paths ck i cl item w = Inr (v, cl')"
  shows "vt_intent v = item" "vt_static v" "claimed_dir cl' = Some (vt_dir v)"
    "claimed_dir cl = None \<or> claimed_dir cl = Some (vt_dir v)"
proof -
  from assms obtain tp sp bp dp owner where parts:
    "canonical_target (it_target item) w = Inr tp"
    "opt_result (\<lambda>s. owned_asset i ''.stage'' s w) (it_staged item) = Inr sp"
    "opt_result (\<lambda>b. owned_asset i ''.backup'' b w) (it_backup item) = Inr bp"
    "owned_parent sp bp = Inr owner"
    "opt_result (\<lambda>d. canonical_target d w) (it_destination item) = Inr dp"
    "claimed_dir cl = None \<or> claimed_dir cl = Some owner"
    "v = \<lparr>vt_intent = item, vt_target = tp, vt_staged = sp, vt_backup = bp,
          vt_destination = dp, vt_dir = owner\<rparr>"
    "claimed_dir cl' = Some owner"
    unfolding validate_target_paths_def by (auto simp: result_simps split: if_splits)
  have tp: "it_target item = as_posix tp" "outside_state tp" "path_of (as_posix tp) = tp"
    using canonical_target_Inr [OF parts(1)] by auto
  have dp: "it_destination item = map_option as_posix dp" "\<forall>p\<in>set (opt_list dp). outside_state p \<and> path_of (as_posix p) = p"
    using parts(5) by (auto simp: opt_result_Inr dest!: canonical_target_Inr)
  have sp: "it_staged item = map_option as_posix sp"
    "\<forall>p. sp = Some p \<longrightarrow> (\<exists>d x. p = transactions_root @ [d, x @ ''.stage''] \<and> CHR ''.'' \<notin> set x)"
    using parts(2) index_name_no_dot by (auto simp: opt_result_Inr dest!: owned_asset_Inr)
  have bp: "it_backup item = map_option as_posix bp"
    "\<forall>p. bp = Some p \<longrightarrow> (\<exists>d x. p = transactions_root @ [d, x @ ''.backup''])"
    using parts(3) by (auto simp: opt_result_Inr dest!: owned_asset_Inr)
  have own: "sp = Some p \<Longrightarrow> owner = butlast p" "bp = Some p \<Longrightarrow> owner = butlast p" for p
    using parts(4) by (auto simp: owned_parent_def split: option.splits if_splits)
  have in_dir: "\<exists>x. p = owner @ [x @ e]"
    if "p = transactions_root @ [d, x @ e]" "owner = butlast p" for p d x e
    using that by (simp add: butlast_append)
  have s_dir: "\<forall>p. sp = Some p \<longrightarrow> (\<exists>x. p = owner @ [x @ ''.stage''] \<and> CHR ''.'' \<notin> set x)"
  proof (intro allI impI)
    fix p
    assume p: "sp = Some p"
    then obtain d x where x: "p = transactions_root @ [d, x @ ''.stage'']" "CHR ''.'' \<notin> set x"
      using sp(2) by blast
    then have "p = owner @ [x @ ''.stage'']" using own(1) [OF p] by (simp add: butlast_append)
    then show "\<exists>x. p = owner @ [x @ ''.stage''] \<and> CHR ''.'' \<notin> set x" using x(2) by blast
  qed
  have b_dir: "\<forall>p. bp = Some p \<longrightarrow> (\<exists>x. p = owner @ [x @ ''.backup''])"
    using bp(2) own(2) in_dir by blast
  have "\<exists>d. owner = transactions_root @ [d]"
  proof (cases sp)
    case (Some p)
    then obtain d x where "p = transactions_root @ [d, x @ ''.stage'']" using sp(2) by blast
    then show ?thesis using own(1) [OF Some] by (simp add: butlast_append)
  next
    case None
    then obtain p where p: "bp = Some p" using parts(4) by (cases bp) (auto simp: owned_parent_def)
    then obtain d x where "p = transactions_root @ [d, x @ ''.backup'']" using bp(2) by blast
    then show ?thesis using own(2) [OF p] by (simp add: butlast_append)
  qed
  then show "vt_static v"
    using tp dp sp(1) bp(1) s_dir b_dir by (simp add: vt_static_def parts(7) paths_of_def)
  show "vt_intent v = item" "claimed_dir cl' = Some (vt_dir v)"
    "claimed_dir cl = None \<or> claimed_dir cl = Some (vt_dir v)"
    using parts(6,7,8) by simp_all
qed

lemma validate_target_claims:
  assumes "validate_target_paths ck i cl item w = Inr (v, cl')"
  shows "distinct (map ck (target_strings item))"
    "ck ` set (target_strings item) \<inter> claimed_targets cl = {}"
    "claimed_targets cl' = claimed_targets cl \<union> ck ` set (target_strings item)"
    "distinct (map ck (asset_strings item))"
    "ck ` set (asset_strings item) \<inter> claimed_assets cl = {}"
    "claimed_assets cl' = claimed_assets cl \<union> ck ` set (asset_strings item)"
proof -
  from assms obtain tkeys skeys bkeys where k:
    "claim_keys ck (claimed_targets cl) (target_strings item) = Inr tkeys"
    "claim_asset ck (claimed_staged cl) (claimed_backup cl) (it_staged item) = Inr skeys"
    "claim_asset ck (claimed_backup cl) skeys (it_backup item) = Inr bkeys"
    "claimed_targets cl' = tkeys" "claimed_staged cl' = skeys" "claimed_backup cl' = bkeys"
    unfolding validate_target_paths_def target_strings_def opt_list_def
    by (auto simp: result_simps simp del: claim_keys.simps split: if_splits)
  show "distinct (map ck (target_strings item))"
    "ck ` set (target_strings item) \<inter> claimed_targets cl = {}"
    "claimed_targets cl' = claimed_targets cl \<union> ck ` set (target_strings item)"
    using k(1,4) by (auto simp: claim_keys_Inr)
  show "distinct (map ck (asset_strings item))"
    "ck ` set (asset_strings item) \<inter> claimed_assets cl = {}"
    "claimed_assets cl' = claimed_assets cl \<union> ck ` set (asset_strings item)"
    using k(2,3,5,6) unfolding asset_strings_def claimed_assets_def opt_list_def claim_asset_def
    by (auto split: option.splits if_splits)
qed

lemma distinct_claims:
  assumes "distinct (map f xs)" "distinct (map f ys)" "f ` set ys \<inter> K' = {}"
    "K' = K \<union> f ` set xs" "f ` set xs \<inter> K = {}"
  shows "distinct (map f (xs @ ys)) \<and> f ` set (xs @ ys) \<inter> K = {}"
  using assms unfolding map_append distinct_append set_map set_append image_Un by blast

lemma validate_paths_layout:
  assumes "validate_paths_from ck i cl ts w = Inr vs"
  shows "map vt_intent vs = ts \<and> (\<forall>v\<in>set vs. vt_static v)
     \<and> (\<forall>d. claimed_dir cl = Some d \<longrightarrow> (\<forall>v\<in>set vs. vt_dir v = d))
     \<and> (\<exists>d. \<forall>v\<in>set vs. vt_dir v = d)
     \<and> distinct (map ck (concat (map target_strings ts)))
     \<and> ck ` set (concat (map target_strings ts)) \<inter> claimed_targets cl = {}
     \<and> distinct (map ck (concat (map asset_strings ts)))
     \<and> ck ` set (concat (map asset_strings ts)) \<inter> claimed_assets cl = {}"
  using assms
proof (induction ts arbitrary: i cl vs)
  case (Cons t ts)
  then obtain v cl' us where step: "validate_target_paths ck i cl t w = Inr (v, cl')"
    and rest: "validate_paths_from ck (Suc i) cl' ts w = Inr us" and vs: "vs = v # us"
    by (auto simp: result_simps)
  note st = validate_target_static [OF step]
  note c = validate_target_claims [OF step]
  note ih = Cons.IH [OF rest]
  have dirs: "\<forall>u\<in>set us. vt_dir u = vt_dir v" using ih st(3) by simp
  have "map vt_intent vs = t # ts" using ih st(1) vs by simp
  moreover have "\<forall>v\<in>set vs. vt_static v" using ih st(2) vs by simp
  moreover have "\<forall>d. claimed_dir cl = Some d \<longrightarrow> (\<forall>v\<in>set vs. vt_dir v = d)"
    using st(4) dirs vs by auto
  moreover have "\<exists>d. \<forall>v\<in>set vs. vt_dir v = d"
    using dirs vs by auto
  moreover have "distinct (map ck (target_strings t @ concat (map target_strings ts)))
      \<and> ck ` set (target_strings t @ concat (map target_strings ts)) \<inter> claimed_targets cl = {}"
    using ih by (intro distinct_claims [OF c(1) _ _ c(3,2)]) simp_all
  moreover have "distinct (map ck (asset_strings t @ concat (map asset_strings ts)))
      \<and> ck ` set (asset_strings t @ concat (map asset_strings ts)) \<inter> claimed_assets cl = {}"
    using ih by (intro distinct_claims [OF c(4) _ _ c(6,5)]) simp_all
  ultimately show ?case unfolding list.map concat.simps by (intro conjI) blast+
qed simp

lemma static_strings:
  assumes "vt_static v"
  shows "target_strings (vt_intent v) = map as_posix (paths_of v)"
    "asset_strings (vt_intent v) = map as_posix (assets_of v)"
proof -
  have "it_target (vt_intent v) = as_posix (vt_target v)"
    "it_destination (vt_intent v) = map_option as_posix (vt_destination v)"
    "it_staged (vt_intent v) = map_option as_posix (vt_staged v)"
    "it_backup (vt_intent v) = map_option as_posix (vt_backup v)"
    using assms by (simp_all add: vt_static_def)
  then show "target_strings (vt_intent v) = map as_posix (paths_of v)"
    "asset_strings (vt_intent v) = map as_posix (assets_of v)"
    by (simp_all add: target_strings_def asset_strings_def paths_of_def assets_of_def opt_list_def
        split: option.splits)
qed

lemma validated_layout:
  assumes "validated_intent_paths ck i w = Inr vs"
  shows "layout vs" "map vt_intent vs = intent_targets i"
proof -
  note l = validate_paths_layout [OF assms [unfolded validated_intent_paths_def]]
  have st: "\<forall>v\<in>set vs. vt_static v" using l by simp
  have strings: "map (target_strings \<circ> vt_intent) vs = map (map as_posix \<circ> paths_of) vs"
    "map (asset_strings \<circ> vt_intent) vs = map (map as_posix \<circ> assets_of) vs"
    using st by (simp_all add: static_strings)
  have intents: "intent_targets i = map vt_intent vs" using l by simp
  have "concat (map target_strings (intent_targets i)) = map as_posix (concat (map paths_of vs))"
    "concat (map asset_strings (intent_targets i)) = map as_posix (concat (map assets_of vs))"
    unfolding intents map_map strings by (simp_all add: map_concat)
  moreover have "distinct (map ck (concat (map target_strings (intent_targets i))))"
    "distinct (map ck (concat (map asset_strings (intent_targets i))))"
    using l by simp_all
  ultimately have "distinct (map ck (map as_posix (concat (map paths_of vs))))"
    "distinct (map ck (map as_posix (concat (map assets_of vs))))"
    by (simp_all only:)
  then have "distinct (concat (map paths_of vs))" "distinct (concat (map assets_of vs))"
    by (simp_all only: distinct_map)
  then show "layout vs" using l st by (simp add: layout_def)
  show "map vt_intent vs = intent_targets i" using l by simp
qed

end
