(* ===== verification/StagingSteps.thy ===== *)
theory StagingSteps
  imports StagingLayout
begin

text \<open>
  One step of applying and one step of rolling back a staged target: which paths it may change,
  that it keeps the target between its two recorded images whatever happens, and that it succeeds
  when nothing interferes.
\<close>

section \<open>Separation of the paths of an intent\<close>

definition reads :: "vtarget \<Rightarrow> fpath set" where
  "reads v = set (paths_of v) \<union> set (assets_of v)"

definition scratch :: "vtarget \<Rightarrow> fpath set" where
  "scratch v = {rollback_path b | b. vt_backup v = Some b}
     \<union> {rebuild_path sp token | sp token. vt_staged v = Some sp}"

definition writes :: "vtarget \<Rightarrow> fpath set" where
  "writes v = set (paths_of v) \<union> set (opt_list (vt_staged v)) \<union> scratch v"

definition unmarked :: "fpath \<Rightarrow> bool" where
  "unmarked p \<longleftrightarrow> length p < 2 \<or> last p \<noteq> ''context.yaml''"

definition fields_ok :: "vtarget \<Rightarrow> bool" where
  "fields_ok v \<longleftrightarrow> validate_intent_target_fields (vt_intent v) = Inr (vt_intent v)"

text \<open>The plan of a transaction: a laid out, field-valid list of targets none of which would turn a
  directory into a nested context.\<close>

definition plan_ok :: "vtarget list \<Rightarrow> bool" where
  "plan_ok vs \<longleftrightarrow> layout vs \<and> (\<forall>v\<in>set vs. fields_ok v \<and> (\<forall>p\<in>set (paths_of v). unmarked p))"

lemma concat_disjoint:
  assumes "distinct (concat (map f vs))" "u \<in> set vs" "v \<in> set vs" "u \<noteq> v"
  shows "set (f u) \<inter> set (f v) = {}"
  using assms
proof (induction vs)
  case (Cons x vs)
  then show ?case by (auto simp: disjoint_iff)
qed simp

lemma concat_distinct_one:
  "distinct (concat (map f vs)) \<Longrightarrow> v \<in> set vs \<Longrightarrow> distinct (f v)"
  by (induction vs) auto

lemma plan_static: "plan_ok vs \<Longrightarrow> v \<in> set vs \<Longrightarrow> vt_static v"
  by (simp add: plan_ok_def layout_def)

lemma name_stem_ext: "CHR ''.'' \<notin> set e \<Longrightarrow> name_stem (x @ CHR ''.'' # e) = x"
proof -
  assume "CHR ''.'' \<notin> set e"
  then have "dropWhile (\<lambda>c. c \<noteq> CHR ''.'') (rev e @ CHR ''.'' # rev x) = CHR ''.'' # rev x"
    by (subst dropWhile_append2) auto
  then show ?thesis by (simp add: name_stem_def)
qed

lemma rollback_path_name: "rollback_path (d @ [x @ ''.backup'']) = d @ [x @ ''.rollback'']"
  using name_stem_ext [of "''backup''" x] by (simp add: rollback_path_def with_name_def)

lemma rebuild_path_name:
  "rebuild_path (d @ [x @ ''.stage'']) token = d @ [x @ ''.rebuild-'' @ token @ ''.tmp'']"
  using name_stem_ext [of "''stage''" x] by (simp add: rebuild_path_def with_name_def)

text \<open>The two last characters of a file name tell its role.\<close>

definition tail2 :: "string \<Rightarrow> string" where
  "tail2 s = drop (length s - 2) s"

lemma tail2_append: "2 \<le> length e \<Longrightarrow> tail2 (x @ e) = tail2 e"
  by (simp add: tail2_def)

lemma tail2_names:
  "tail2 (x @ ''.stage'') = ''ge''" "tail2 (x @ ''.backup'') = ''up''"
  "tail2 (x @ ''.rollback'') = ''ck''" "tail2 (x @ ''.rebuild-'' @ t @ ''.tmp'') = ''mp''"
  "tail2 ''context.yaml'' = ''ml''"
proof -
  show "tail2 (x @ ''.stage'') = ''ge''" "tail2 (x @ ''.backup'') = ''up''"
    "tail2 (x @ ''.rollback'') = ''ck''" "tail2 ''context.yaml'' = ''ml''"
    by (simp_all add: tail2_append) (simp_all add: tail2_def)
  have "tail2 (x @ ''.rebuild-'' @ t @ ''.tmp'') = tail2 ((x @ ''.rebuild-'' @ t) @ ''.tmp'')"
    by simp
  also have "\<dots> = ''mp''" by (subst tail2_append) (simp_all add: tail2_def)
  finally show "tail2 (x @ ''.rebuild-'' @ t @ ''.tmp'') = ''mp''" .
qed

lemma static_assets:
  assumes "vt_static v" "p \<in> set (assets_of v)"
  shows "\<exists>x e. p = vt_dir v @ [x @ e] \<and> (e = ''.stage'' \<and> vt_staged v = Some p
     \<or> e = ''.backup'' \<and> vt_backup v = Some p)"
proof -
  have "\<forall>q. vt_staged v = Some q \<longrightarrow> (\<exists>x. q = vt_dir v @ [x @ ''.stage''])"
    "\<forall>q. vt_backup v = Some q \<longrightarrow> (\<exists>x. q = vt_dir v @ [x @ ''.backup''])"
    using assms(1) unfolding vt_static_def by blast+
  moreover have "vt_staged v = Some p \<or> vt_backup v = Some p"
    using assms(2) by (simp add: assets_of_def set_opt_list)
  ultimately show ?thesis by blast
qed

lemma static_scratch:
  assumes "vt_static v" "p \<in> scratch v"
  shows "\<exists>x. p = vt_dir v @ [x] \<and> tail2 x \<in> {''ck'', ''mp''}"
proof -
  have st: "\<forall>q. vt_staged v = Some q \<longrightarrow> (\<exists>x. q = vt_dir v @ [x @ ''.stage''])"
    "\<forall>q. vt_backup v = Some q \<longrightarrow> (\<exists>x. q = vt_dir v @ [x @ ''.backup''])"
    using assms(1) unfolding vt_static_def by blast+
  from assms(2) consider b where "vt_backup v = Some b" "p = rollback_path b"
    | sp token where "vt_staged v = Some sp" "p = rebuild_path sp token"
    by (auto simp: scratch_def)
  then show ?thesis
  proof cases
    case 1
    then obtain x where "p = vt_dir v @ [x @ ''.rollback'']"
      using st(2) rollback_path_name by metis
    then show ?thesis by (auto simp: tail2_names)
  next
    case 2
    then obtain x where "p = vt_dir v @ [x @ ''.rebuild-'' @ token @ ''.tmp'']"
      using st(1) rebuild_path_name by metis
    then show ?thesis using tail2_names(4) by blast
  qed
qed

lemma in_state: "vt_static v \<Longrightarrow> \<not> outside_state (vt_dir v @ [x])"
  by (auto simp: vt_static_def transactions_root_def staging_root_def outside_state_def)

lemma asset_scratch_differ:
  assumes "vt_static u" "vt_static v" "p \<in> set (assets_of u)" "q \<in> scratch v"
  shows "p \<noteq> q"
proof
  assume "p = q"
  moreover obtain x e where "p = vt_dir u @ [x @ e]" "e = ''.stage'' \<or> e = ''.backup''"
    using static_assets [OF assms(1,3)] by blast
  moreover obtain y where "q = vt_dir v @ [y]" "tail2 y \<in> {''ck'', ''mp''}"
    using static_scratch [OF assms(2,4)] by blast
  ultimately show False by (auto simp: tail2_names)
qed

lemma path_asset_differ:
  assumes "vt_static u" "vt_static v" "p \<in> set (paths_of u)" "q \<in> set (assets_of v) \<union> scratch v"
  shows "p \<noteq> q"
proof -
  have "outside_state p" using assms(1,3) by (simp add: vt_static_def)
  moreover have "\<not> outside_state q"
    using assms(4) static_assets [OF assms(2)] static_scratch [OF assms(2)] in_state [OF assms(2)]
    by blast
  ultimately show ?thesis by auto
qed

text \<open>A step on one target never changes what another target reads, nor its own backup.\<close>

lemma writes_reads_disjoint:
  assumes "plan_ok vs" "u \<in> set vs" "v \<in> set vs" "u \<noteq> v"
  shows "writes v \<inter> reads u = {}"
proof -
  have st: "vt_static u" "vt_static v" using assms plan_static by auto
  have l: "distinct (concat (map paths_of vs))" "distinct (concat (map assets_of vs))"
    using assms(1) by (simp_all add: plan_ok_def layout_def)
  have "set (paths_of v) \<inter> set (paths_of u) = {}"
    using concat_disjoint [OF l(1) assms(3,2)] assms(4) by auto
  moreover have "set (opt_list (vt_staged v)) \<inter> set (assets_of u) = {}"
    using concat_disjoint [OF l(2) assms(3,2)] assms(4) by (auto simp: assets_of_def)
  moreover have "set (opt_list (vt_staged v)) \<subseteq> set (assets_of v)"
    by (auto simp: assets_of_def)
  ultimately show ?thesis
    using path_asset_differ [OF st] path_asset_differ [OF st(2,1)] asset_scratch_differ [OF st]
    unfolding writes_def reads_def by blast
qed

lemma own_paths_differ:
  assumes "plan_ok vs" "v \<in> set vs"
  shows "vt_destination v = Some d \<Longrightarrow> d \<noteq> vt_target v"
    and "p \<in> set (assets_of v) \<union> scratch v \<Longrightarrow> vt_target v \<noteq> p"
    and "p \<in> set (assets_of v) \<union> scratch v \<Longrightarrow> vt_destination v = Some d \<Longrightarrow> d \<noteq> p"
    and "vt_staged v = Some s \<Longrightarrow> vt_backup v = Some b \<Longrightarrow> s \<noteq> b"
    and "p \<in> scratch v \<Longrightarrow> vt_staged v = Some s \<Longrightarrow> s \<noteq> p"
    and "p \<in> scratch v \<Longrightarrow> vt_backup v = Some b \<Longrightarrow> b \<noteq> p"
proof -
  have st: "vt_static v" using assms plan_static by auto
  have l: "distinct (concat (map paths_of vs))" "distinct (concat (map assets_of vs))"
    using assms(1) by (simp_all add: plan_ok_def layout_def)
  show "vt_destination v = Some d \<Longrightarrow> d \<noteq> vt_target v"
    using concat_distinct_one [OF l(1) assms(2)] by (auto simp: paths_of_def)
  show "vt_staged v = Some s \<Longrightarrow> vt_backup v = Some b \<Longrightarrow> s \<noteq> b"
    using concat_distinct_one [OF l(2) assms(2)] by (auto simp: assets_of_def)
  show "p \<in> set (assets_of v) \<union> scratch v \<Longrightarrow> vt_target v \<noteq> p"
    using path_asset_differ [OF st st, of "vt_target v" p] by (simp add: paths_of_def)
  show "p \<in> set (assets_of v) \<union> scratch v \<Longrightarrow> vt_destination v = Some d \<Longrightarrow> d \<noteq> p"
    using path_asset_differ [OF st st, of d p] by (simp add: paths_of_def)
  show "p \<in> scratch v \<Longrightarrow> vt_staged v = Some s \<Longrightarrow> s \<noteq> p"
    "p \<in> scratch v \<Longrightarrow> vt_backup v = Some b \<Longrightarrow> b \<noteq> p"
    using asset_scratch_differ [OF st st] by (auto simp: assets_of_def)
qed

lemma in_state_plain:
  assumes "vt_static v" "tail2 x \<noteq> ''ml''"
  shows "plain_path (vt_dir v @ [x])"
proof -
  obtain d where d: "vt_dir v = transactions_root @ [d]" using assms(1) by (auto simp: vt_static_def)
  have "vt_dir v @ [x] = marker e \<Longrightarrow> x = ''context.yaml''" for e by (simp add: marker_def)
  then show ?thesis
    using d assms(2) tail2_names(5) by (auto simp: plain_path_def transactions_root_def staging_root_def)
qed

lemma writes_plain:
  assumes "plan_ok vs" "v \<in> set vs"
  shows "p \<in> set (paths_of v) \<Longrightarrow> plain_path p"
    and "p \<in> set (assets_of v) \<Longrightarrow> plain_path p"
    and "p \<in> scratch v \<Longrightarrow> plain_path p"
proof -
  have st: "vt_static v" using assms plan_static by auto
  show "plain_path p" if p: "p \<in> set (paths_of v)"
  proof -
    have o: "outside_state p" using st p by (simp add: vt_static_def)
    have "unmarked p" using assms p by (simp add: plan_ok_def)
    then have "p \<noteq> marker d" if "d \<noteq> []" for d
      using that by (auto simp: unmarked_def marker_def Suc_le_eq)
    then show ?thesis using o by (auto simp: plain_path_def outside_state_def staging_root_def)
  qed
  show "plain_path p" if p: "p \<in> set (assets_of v)"
    using static_assets [OF st p] in_state_plain [OF st] by (auto simp: tail2_names)
  show "plain_path p" if p: "p \<in> scratch v"
    using static_scratch [OF st p] in_state_plain [OF st] by auto
qed

section \<open>Between the two images\<close>

definition recoverable :: "(content \<Rightarrow> hash) \<Rightarrow> vtarget \<Rightarrow> world \<Rightarrow> bool" where
  "recoverable H v w \<longleftrightarrow>
     accessible v w \<and> backup_matches H v w
     \<and> (target_class H v w = Inr POSTIMAGE_PRESENT
        \<or> target_class H v w = Inr STAGED_POSTIMAGE_AVAILABLE)"

definition at_postimage :: "(content \<Rightarrow> hash) \<Rightarrow> vtarget \<Rightarrow> world \<Rightarrow> bool" where
  "at_postimage H v w \<longleftrightarrow>
     accessible v w \<and> backup_matches H v w \<and> target_class H v w = Inr POSTIMAGE_PRESENT"

definition at_preimage :: "(content \<Rightarrow> hash) \<Rightarrow> vtarget \<Rightarrow> world \<Rightarrow> bool" where
  "at_preimage H v w \<longleftrightarrow>
     accessible v w \<and> backup_matches H v w
     \<and> hash_at H w (vt_target v) = it_preimage_hash (vt_intent v)
     \<and> (it_kind (vt_intent v) = MOVE \<longrightarrow> hash_opt_at H w (vt_destination v) = None)
     \<and> (it_kind (vt_intent v) = REPLACE \<longrightarrow>
          hash_opt_at H w (vt_staged v) = it_content_hash (vt_intent v))"

lemma at_postimage_recoverable: "at_postimage H v w \<Longrightarrow> recoverable H v w"
  by (simp add: at_postimage_def recoverable_def)

lemma at_preimage_recoverable: "fields_ok v \<Longrightarrow> at_preimage H v w \<Longrightarrow> recoverable H v w"
  by (auto simp: at_preimage_def recoverable_def target_class_def classify_target_def fields_ok_def
      validate_intent_target_fields_def split: target_kind.splits if_splits)

lemma frame_reads:
  assumes "frame P w w'" "P \<inter> reads v = {}"
  shows "recoverable H v w' = recoverable H v w" "at_postimage H v w' = at_postimage H v w"
    "at_preimage H v w' = at_preimage H v w"
proof -
  have n: "nodes w' p = nodes w p" if "p \<in> reads v" for p
    using frame_nodes [OF assms(1)] assms(2) that by blast
  have h: "hash_at H w' (vt_target v) = hash_at H w (vt_target v)"
    by (rule hash_at_cong, rule n) (simp add: reads_def paths_of_def)
  have "hash_opt_at H w' x = hash_opt_at H w x"
    if "set (opt_list x) \<subseteq> reads v" for x
    using that n by (auto simp: hash_opt_at_def set_opt_list subset_iff intro: hash_at_cong split: option.splits)
  then have o: "hash_opt_at H w' (vt_destination v) = hash_opt_at H w (vt_destination v)"
    "hash_opt_at H w' (vt_staged v) = hash_opt_at H w (vt_staged v)"
    "hash_opt_at H w' (vt_backup v) = hash_opt_at H w (vt_backup v)"
    by (auto simp: reads_def paths_of_def assets_of_def)
  have a: "accessible v w' = accessible v w"
    using shape_accessible [OF frame_shape [OF assms(1)]] by simp
  have c: "target_class H v w' = target_class H v w" "backup_matches H v w' = backup_matches H v w"
    by (simp_all add: target_class_def backup_matches_def h o)
  show "recoverable H v w' = recoverable H v w" "at_postimage H v w' = at_postimage H v w"
    "at_preimage H v w' = at_preimage H v w"
    by (simp_all add: recoverable_def at_postimage_def at_preimage_def a c h o)
qed

lemma recoverable_snapshot:
  assumes "recoverable H v w"
  obtains s where "snapshot_operation H v w = Inr s"
    "snap_state s = POSTIMAGE_PRESENT \<or> snap_state s = STAGED_POSTIMAGE_AVAILABLE"
    "target_class H v w = Inr (snap_state s)" "snap_staged s = hash_opt_at H w (vt_staged v)"
proof -
  obtain st where st: "target_class H v w = Inr st"
    "st = POSTIMAGE_PRESENT \<or> st = STAGED_POSTIMAGE_AVAILABLE"
    using assms by (auto simp: recoverable_def)
  let ?s = "\<lparr>snap_current = hash_at H w (vt_target v),
      snap_destination = hash_opt_at H w (vt_destination v),
      snap_staged = hash_opt_at H w (vt_staged v), snap_backup = hash_opt_at H w (vt_backup v),
      snap_state = st\<rparr>"
  have "snapshot_operation H v w = Inr ?s"
    using assms st by (simp add: snapshot_iff recoverable_def)
  then show thesis by (rule that) (use st in simp_all)
qed

section \<open>Applying one target\<close>

lemma frame_same_nodes: "frame P w w' \<Longrightarrow> nodes w' = nodes w \<Longrightarrow> frame {} w w'"
  by (simp add: frame_def)

lemma frame_recoverable: "frame P w w' \<Longrightarrow> nodes w' = nodes w \<Longrightarrow> recoverable H v w' = recoverable H v w"
  using frame_reads(1) [OF frame_same_nodes [of P w w']] by simp

lemma frame_accessible: "frame P w w' \<Longrightarrow> accessible v w' = accessible v w"
  using shape_accessible [OF frame_shape] by simp

lemma frame_backup:
  assumes "frame P w w'" "\<And>b. vt_backup v = Some b \<Longrightarrow> b \<notin> P"
  shows "backup_matches H v w' = backup_matches H v w"
proof -
  have "hash_opt_at H w' (vt_backup v) = hash_opt_at H w (vt_backup v)"
    using frame_nodes [OF assms(1)] assms(2)
    by (auto simp: hash_opt_at_def intro!: hash_at_cong split: option.splits)
  then show ?thesis by (simp add: backup_matches_def)
qed

lemma static_None:
  assumes "vt_static v"
  shows "vt_staged v = None \<longleftrightarrow> it_staged (vt_intent v) = None"
    "vt_destination v = None \<longleftrightarrow> it_destination (vt_intent v) = None"
    "vt_backup v = None \<longleftrightarrow> it_backup (vt_intent v) = None"
  using assms by (simp_all add: vt_static_def)

lemma replace_fields:
  assumes "plan_ok vs" "v \<in> set vs" "it_kind (vt_intent v) = REPLACE"
  obtains sp h where "vt_staged v = Some sp" "it_content_hash (vt_intent v) = Some h"
    "vt_destination v = None"
proof -
  have "fields_ok v" "vt_static v" using assms plan_static by (auto simp: plan_ok_def)
  then show thesis
    using assms(3) that static_None [of v]
    by (auto simp: fields_ok_def validate_intent_target_fields_def split: if_splits)
qed

lemma move_fields:
  assumes "plan_ok vs" "v \<in> set vs" "it_kind (vt_intent v) = MOVE"
  obtains d h b where "vt_destination v = Some d" "it_content_hash (vt_intent v) = Some h"
    "it_preimage_hash (vt_intent v) = Some h" "vt_staged v = None" "vt_backup v = Some b"
proof -
  have "fields_ok v" "vt_static v" using assms plan_static by (auto simp: plan_ok_def)
  then show thesis
    using assms(3) that static_None [of v]
    by (auto simp: fields_ok_def validate_intent_target_fields_def split: if_splits)
qed

lemma delete_fields:
  assumes "plan_ok vs" "v \<in> set vs" "it_kind (vt_intent v) = DELETE"
  obtains h b where "it_preimage_hash (vt_intent v) = Some h" "vt_backup v = Some b"
    "it_content_hash (vt_intent v) = None" "vt_destination v = None" "vt_staged v = None"
proof -
  have "fields_ok v" "vt_static v" using assms plan_static by (auto simp: plan_ok_def)
  then show thesis
    using assms(3) that static_None [of v]
    by (auto simp: fields_ok_def validate_intent_target_fields_def split: if_splits)
qed

lemma writes_members:
  "vt_target v \<in> writes v" "vt_destination v = Some d \<Longrightarrow> d \<in> writes v"
  "vt_staged v = Some sp \<Longrightarrow> sp \<in> writes v" "vt_backup v = Some b \<Longrightarrow> rollback_path b \<in> writes v"
  "vt_staged v = Some sp \<Longrightarrow> rebuild_path sp token \<in> writes v"
  by (auto simp: writes_def paths_of_def scratch_def)

lemma apply_one_step:
  assumes plan: "plan_ok vs" "v \<in> set vs" and w: "no_edits w" "recoverable H v w"
    and run: "apply_one H n l expected v w = (r, w')"
  shows "frame (writes v) w w' \<and> recoverable H v w' \<and> (r = Inr () \<longrightarrow> at_postimage H v w')"
proof -
  obtain s where s: "snapshot_operation H v w = Inr s"
    "snap_state s = POSTIMAGE_PRESENT \<or> snap_state s = STAGED_POSTIMAGE_AVAILABLE"
    "target_class H v w = Inr (snap_state s)"
    using w(2) by (rule recoverable_snapshot)
  have acc: "accessible v w" "backup_matches H v w" using w(2) by (auto simp: recoverable_def)
  have plain: "plain_path (vt_target v)" "\<And>d. vt_destination v = Some d \<Longrightarrow> plain_path d"
    "\<And>p. vt_staged v = Some p \<Longrightarrow> plain_path p"
    using writes_plain [OF plan] by (auto simp: paths_of_def assets_of_def)
  note own = own_paths_differ [OF plan]
  have bk: "b \<noteq> vt_target v" "\<And>d. vt_destination v = Some d \<Longrightarrow> b \<noteq> d"
    "\<And>p. vt_staged v = Some p \<Longrightarrow> b \<noteq> p" if "vt_backup v = Some b" for b
    using own(2) [of b] own(3) [of b] own(4) [OF _ that] that by (auto simp: assets_of_def)
  show ?thesis
  proof (cases "snap_state s = POSTIMAGE_PRESENT")
    case True
    then have "r = Inr ()" "w' = w" using run s(1) by (simp_all add: apply_one_def Let_def step_simps and_then_def)
    then show ?thesis using True w(2) acc s(3) by (simp add: at_postimage_def)
  next
    case False
    then have st: "snap_state s = STAGED_POSTIMAGE_AVAILABLE" using s(2) by simp
    show ?thesis
    proof (cases "it_kind (vt_intent v)")
      case REPLACE
      obtain sp h where f: "vt_staged v = Some sp" "it_content_hash (vt_intent v) = Some h"
        using replace_fields [OF plan REPLACE] by blast
      have "replace_with_retry H n l expected False sp (vt_target v) h (it_preimage_hash (vt_intent v)) w
          = (r, w')"
        using run s(1) st REPLACE f by (simp add: apply_one_def Let_def and_then_def lift_def)
      note o = replace_with_retry_outcome [OF this w(1) plain(3) [OF f(1)] plain(1)]
      have fr: "frame (writes v) w w'"
        using o(1) by (rule frame_mono) (use f in \<open>auto intro: writes_members\<close>)
      show ?thesis
      proof (cases r)
        case (Inl e)
        then show ?thesis using fr frame_recoverable [OF fr o(2)] w(2) by simp
      next
        case (Inr u)
        then have "hash_at H w' (vt_target v) = Some h" using o(3) by (auto simp: hash_at_def)
        then have "target_class H v w' = Inr POSTIMAGE_PRESENT"
          using f REPLACE by (simp add: target_class_def classify_target_def)
        moreover have "backup_matches H v w'"
          using frame_backup [OF o(1)] acc(2) bk f by auto
        ultimately show ?thesis
          using fr acc(1) frame_accessible [OF fr] by (auto simp: at_postimage_def recoverable_def)
      qed
    next
      case MOVE
      obtain d h where f: "vt_destination v = Some d" "it_content_hash (vt_intent v) = Some h"
        using move_fields [OF plan MOVE] by blast
      have "replace_with_retry H n l expected True (vt_target v) d h None w = (r, w')"
        using run s(1) st MOVE f by (simp add: apply_one_def Let_def and_then_def lift_def)
      note o = replace_with_retry_outcome [OF this w(1) plain(1) plain(2) [OF f(1)]]
      have fr: "frame (writes v) w w'"
        using o(1) by (rule frame_mono) (use f in \<open>auto intro: writes_members\<close>)
      show ?thesis
      proof (cases r)
        case (Inl e)
        then show ?thesis using fr frame_recoverable [OF fr o(2)] w(2) by simp
      next
        case (Inr u)
        then have "hash_at H w' d = Some h" "hash_at H w' (vt_target v) = None"
          using o(3) own(1) [OF f(1)] by (auto simp: hash_at_def)
        then have "target_class H v w' = Inr POSTIMAGE_PRESENT"
          using f MOVE by (simp add: target_class_def classify_target_def hash_opt_at_def)
        moreover have "backup_matches H v w'"
          using frame_backup [OF o(1)] acc(2) bk f by auto
        ultimately show ?thesis
          using fr acc(1) frame_accessible [OF fr] by (auto simp: at_postimage_def recoverable_def)
      qed
    next
      case DELETE
      obtain h where f: "it_preimage_hash (vt_intent v) = Some h"
        using delete_fields [OF plan DELETE] by blast
      have "unlink_retry H n (revalidate_owned_file True (vt_target v)) (verify_lock l expected)
          (vt_target v) h w = (r, w')"
        using run s(1) st DELETE f by (simp add: apply_one_def Let_def and_then_def lift_def)
      note o = unlink_frame [OF this w(1) plain(1)]
      have fr: "frame (writes v) w w'"
        using o(1) by (rule frame_mono) (auto intro: writes_members)
      show ?thesis
      proof (cases r)
        case (Inl e)
        then show ?thesis using fr frame_recoverable [OF fr o(2)] w(2) by simp
      next
        case (Inr u)
        then have "hash_at H w' (vt_target v) = None" using o(3) by (auto simp: hash_at_def)
        then have "target_class H v w' = Inr POSTIMAGE_PRESENT"
          using DELETE by (simp add: target_class_def classify_target_def)
        moreover have "backup_matches H v w'"
          using frame_backup [OF o(1)] acc(2) bk by auto
        ultimately show ?thesis
          using fr acc(1) frame_accessible [OF fr] by (auto simp: at_postimage_def recoverable_def)
      qed
    qed
  qed
qed

section \<open>Rolling back one target\<close>

lemma sys_call_frame:
  assumes "sys_call op w = (r, w')" "no_edits w"
    and "\<And>v r' w''. nodes v = nodes w \<Longrightarrow> op v = (r', w'') \<Longrightarrow> frame P v w''"
  shows "frame P w w'"
  using assms(1) unfolding sys_call_def
proof (cases rule: and_then_cases)
  case (fails e)
  then show ?thesis using next_event_frame [OF fails(1) assms(2)] frame_mono by blast
next
  case (passes ev v)
  have v: "nodes v = nodes w" "frame P w v"
    using next_event_frame [OF passes(1) assms(2)] frame_mono by blast+
  show ?thesis
  proof (cases "ev = Deny")
    case True
    then show ?thesis using passes(2) v by (simp add: fail_def)
  next
    case False
    then have "op v = (r, w')" using passes(2) by simp
    then show ?thesis using assms(3) [OF v(1)] v(2) frame_trans by blast
  qed
qed

lemma unlink_if_present_frame:
  assumes "unlink_if_present p w = (r, w')" "no_edits w" "plain_path p"
  shows "frame {p} w w'"
  using assms(1,2) unfolding unlink_if_present_def
proof (rule sys_call_frame)
  fix v r' w''
  assume "(if is_file v p then (Inr (), remove_file p v) else (Inr (), v)) = (r', w'')"
  then show "frame {p} v w''"
    using assms(3) remove_file_frame [of p v] is_file_iff [of p v]
    by (auto simp: plain_path_def split: if_splits)
qed

lemma finally_cases:
  assumes "finally_do m c w = (r, w')"
  obtains (died) "m w = (Inl Crashed, w')" "r = Inl Crashed"
    | (cleaned) r1 r2 w1 where "m w = (r1, w1)" "c w1 = (r2, w')" "r = Inr x \<Longrightarrow> r1 = Inr x"
  using assms
  by (auto simp: finally_do_def split: prod.splits sum.splits exn.splits)

text \<open>Rebuilding a consumed postimage only touches the postimage and a fresh temporary file.\<close>

lemma publish_rebuilt_step:
  assumes run: "publish_rebuilt_postimage H n l expected sp c h w = (r, w')" and w: "no_edits w"
    and plain: "plain_path sp" "\<And>t. plain_path (rebuild_path sp t)" "\<And>t. rebuild_path sp t \<noteq> sp"
  shows "frame (insert sp {rebuild_path sp t | t. True}) w w'
     \<and> (r = Inr () \<longrightarrow> hash_at H w' sp = Some h)"
proof -
  let ?P = "insert sp {rebuild_path sp t | t. True}"
  obtain tok v where tok: "next_token w = (Inr tok, v)"
    by (cases "tokens w") (auto simp: next_token_def)
  have v: "frame ?P w v" "no_edits v"
    using tok w by (auto simp: next_token_def frame_def no_edits_def same_shape_def is_file_def
        path_exists_def split: list.splits)
  let ?rp = "rebuild_path sp tok"
  let ?before = "\<lambda>w. bind_result (require_source_hash H ?rp h w) (\<lambda>_. verify_lock l expected w)"
  let ?m = "and_then (lift (require_hash H ?rp h)) (\<lambda>_. replace_retry n ?before ?rp sp)"
  have in_P: "{?rp} \<subseteq> ?P" "{?rp, sp} \<subseteq> ?P" by auto
  have "and_then (write_fsynced True ?rp c) (\<lambda>_. finally_do ?m (unlink_if_present ?rp)) v = (r, w')"
    using run tok by (simp add: publish_rebuilt_postimage_def and_then_def Let_def)
  then show ?thesis
  proof (cases rule: and_then_cases)
    case (fails e)
    then have "frame ?P v w'"
      using write_fsynced_cases(1) [OF fails(1) v(2) plain(2)] in_P frame_mono by blast
    then show ?thesis using frame_trans [OF v(1)] fails by simp
  next
    case (passes u x)
    have x: "frame ?P w x"
      using frame_trans [OF v(1) frame_mono [OF write_fsynced_cases(1) [OF passes(1) v(2) plain(2)] in_P(1)]] .
    then have nx: "no_edits x" using w frame_no_edits by blast
    have m: "frame ?P x y \<and> (r1 = Inr () \<longrightarrow> hash_at H y sp = Some h)" if y: "?m x = (r1, y)" for r1 y
    proof (cases "require_hash H ?rp h x")
      case (Inl e)
      then show ?thesis using y by (auto simp: and_then_def lift_def)
    next
      case (Inr u)
      then have "replace_retry n ?before ?rp sp x = (r1, y)" using y by (simp add: and_then_def lift_def)
      note o = replace_retry_outcome [OF this nx]
      show ?thesis
      proof (cases r1)
        case (Inl e)
        then show ?thesis using o frame_mono [of "{}" x y ?P] by auto
      next
        case (Inr u)
        then obtain z where z: "nodes z = nodes x" "frame {} x z" "?before z = Inr ()"
          "os_replace ?rp sp z = (Inr (), y)" using o by auto
        have "frame ?P z y" using os_replace_frame [OF z(4) plain(2,1)] in_P(2) frame_mono by blast
        moreover have "frame ?P x z" using z(2) frame_mono by blast
        moreover have "hash_at H y sp = Some h"
          using z(3,4) by (auto simp: result_simps require_source_hash_def hash_optional_at
              os_replace_Inr hash_at_def split: if_splits)
        ultimately show ?thesis using frame_trans by blast
      qed
    qed
    from passes(2) show ?thesis
    proof (cases rule: finally_cases [where x = "()"])
      case died
      then show ?thesis using m [OF died(1)] frame_trans [OF x] by auto
    next
      case (cleaned r1 r2 w1)
      have f1: "frame ?P x w1" "r1 = Inr () \<Longrightarrow> hash_at H w1 sp = Some h" using m [OF cleaned(1)] by auto
      have f2: "frame {?rp} w1 w'"
        using unlink_if_present_frame [OF cleaned(2) frame_no_edits [OF f1(1) nx] plain(2)] .
      have "hash_at H w' sp = hash_at H w1 sp"
        using frame_nodes [OF f2, of sp] plain(3) [of tok] by (intro hash_at_cong) auto
      then show ?thesis
        using frame_trans [OF x frame_trans [OF f1(1) frame_mono [OF f2 in_P(1)]]] f1(2) cleaned(3)
        by auto
    qed
  qed
qed

text \<open>Restoring a backup touches the target and one temporary file, and the target only by the
  complete preimage.\<close>

lemma restore_backup_step:
  assumes run: "restore_backup H n l expected v th w = (r, w')" and w: "no_edits w"
    and bk: "vt_backup v = Some b"
    and plain: "plain_path (rollback_path b)" "plain_path (vt_target v)" "rollback_path b \<noteq> vt_target v"
  shows "frame {rollback_path b, vt_target v} w w'"
    and "r = Inl e \<Longrightarrow> nodes w' (vt_target v) = nodes w (vt_target v)"
    and "r = Inr () \<Longrightarrow> hash_at H w' (vt_target v) = it_preimage_hash (vt_intent v)"
proof -
  let ?P = "{rollback_path b, vt_target v}"
  have "frame ?P w w'
      \<and> (\<forall>e. r = Inl e \<longrightarrow> nodes w' (vt_target v) = nodes w (vt_target v))
      \<and> (r = Inr () \<longrightarrow> hash_at H w' (vt_target v) = it_preimage_hash (vt_intent v))"
  proof (cases "\<exists>h c. it_preimage_hash (vt_intent v) = Some h \<and> read_file b w = Inr c \<and> H c = h
      \<and> reject_unsafe_file True (rollback_path b) w = Inr ()")
    case False
    then have "w' = w \<and> (\<exists>e. r = Inl e)"
      using run bk
      by (auto simp: restore_backup_def and_then_def lift_def check_def ret_def fail_def
          split: option.splits sum.splits if_splits) metis+
    then show ?thesis by auto
  next
    case True
    then obtain h c where hc: "it_preimage_hash (vt_intent v) = Some h" "read_file b w = Inr c"
      "H c = h" "reject_unsafe_file True (rollback_path b) w = Inr ()" by blast
    let ?rv = "it_kind (vt_intent v) \<noteq> REPLACE"
    have "and_then (write_fsynced False (rollback_path b) c) (\<lambda>_.
        replace_with_retry H n l expected ?rv (rollback_path b) (vt_target v) h th) w = (r, w')"
      using run bk hc by (simp add: restore_backup_def and_then_def lift_def check_def ret_def)
    then show ?thesis
    proof (cases rule: and_then_cases)
      case (fails e)
      note o = write_fsynced_cases(1) [OF fails(1) w plain(1)]
      show ?thesis
        using frame_mono [OF o, of ?P] frame_nodes [OF o, of "vt_target v"] plain(3) fails(2) by auto
    next
      case (passes u x)
      note o = write_fsynced_cases [OF passes(1) w plain(1)]
      have x: "frame ?P w x" "nodes x (vt_target v) = nodes w (vt_target v)"
        using frame_mono [OF o(1), of ?P] frame_nodes [OF o(1), of "vt_target v"] plain(3) by auto
      note q = replace_with_retry_outcome [OF passes(2) frame_no_edits [OF x(1) w] plain(1,2)]
      show ?thesis
        using frame_trans [OF x(1) q(1)] q(2,3) x(2) hc(1) by (auto simp: hash_at_def)
    qed
  qed
  then show "frame ?P w w'" "r = Inl e \<Longrightarrow> nodes w' (vt_target v) = nodes w (vt_target v)"
    "r = Inr () \<Longrightarrow> hash_at H w' (vt_target v) = it_preimage_hash (vt_intent v)" by auto
qed

text \<open>What a rollback step leaves of the target it works on.\<close>

lemma recoverable_if_target_kept:
  assumes plan: "plan_ok vs" "v \<in> set vs" and fr: "frame (writes v) w w'"
    and post: "at_postimage H v w" and kind: "it_kind (vt_intent v) \<noteq> MOVE"
    and same: "nodes w' (vt_target v) = nodes w (vt_target v)"
  shows "recoverable H v w'"
proof -
  have bk: "b \<notin> writes v" if "vt_backup v = Some b" for b
    using own_paths_differ(2) [OF plan, of b] own_paths_differ(3) [OF plan, of b]
      own_paths_differ(4) [OF plan _ that] own_paths_differ(6) [OF plan _ that] that
    by (auto simp: writes_def paths_of_def assets_of_def set_opt_list)
  have "hash_at H w' (vt_target v) = hash_at H w (vt_target v)"
    using same by (rule hash_at_cong)
  then have "target_class H v w' = Inr POSTIMAGE_PRESENT"
    using post kind replace_fields [OF plan]
    by (cases "it_kind (vt_intent v)")
      (auto simp: at_postimage_def target_class_def classify_target_def split: if_splits)
  then show ?thesis
    using post frame_accessible [OF fr] frame_backup [OF fr bk]
    by (simp add: at_postimage_def recoverable_def)
qed

lemma backup_not_written:
  assumes "plan_ok vs" "v \<in> set vs" "vt_backup v = Some b"
  shows "b \<notin> writes v"
  using own_paths_differ(2) [OF assms(1,2), of b] own_paths_differ(3) [OF assms(1,2), of b]
    own_paths_differ(4) [OF assms(1,2) _ assms(3)] own_paths_differ(6) [OF assms(1,2) _ assms(3)] assms(3)
  by (auto simp: writes_def paths_of_def assets_of_def set_opt_list)

lemma rollback_replace_step:
  assumes plan: "plan_ok vs" "v \<in> set vs" and w: "no_edits w" "at_postimage H v w"
    and kind: "it_kind (vt_intent v) = REPLACE" and s: "snap_staged s = hash_opt_at H w (vt_staged v)"
    and run: "rollback_replace H n l expected v s w = (r, w')"
  shows "frame (writes v) w w' \<and> recoverable H v w' \<and> (r = Inr () \<longrightarrow> at_preimage H v w')"
proof -
  obtain sp h where f: "vt_staged v = Some sp" "it_content_hash (vt_intent v) = Some h"
    "vt_destination v = None"
    using replace_fields [OF plan kind] by blast
  note own = own_paths_differ [OF plan]
  have sc: "rebuild_path sp t \<in> scratch v" "vt_backup v = Some b \<Longrightarrow> rollback_path b \<in> scratch v" for t b
    using f(1) by (auto simp: scratch_def)
  have plain: "plain_path (vt_target v)" "plain_path sp" "\<And>t. plain_path (rebuild_path sp t)"
    "\<And>b. vt_backup v = Some b \<Longrightarrow> plain_path (rollback_path b)"
    using writes_plain(1) [OF plan, of "vt_target v"] writes_plain(2) [OF plan, of sp]
      writes_plain(3) [OF plan] sc f(1) by (simp_all add: paths_of_def assets_of_def)
  have ne: "rebuild_path sp t \<noteq> sp" "vt_target v \<noteq> sp" "vt_target v \<noteq> rebuild_path sp t" for t
    using own(5) [OF sc(1) f(1), symmetric] own(2) [of sp] own(2) [of "rebuild_path sp t"] sc(1) f(1)
    by (auto simp: assets_of_def)
  let ?R = "insert sp {rebuild_path sp t | t. True}"
  have Rw: "?R \<subseteq> writes v" "vt_target v \<notin> ?R" using f(1) ne by (auto intro: writes_members)
  define rebuild where "rebuild = (if snap_staged s \<noteq> Some h
       then and_then (lift (read_file (vt_target v))) (\<lambda>c.
            and_then (check (H c = h) Recovery_required) (\<lambda>_.
            publish_rebuilt_postimage H n l expected sp c h))
       else ret ())"
  have reb: "frame ?R w x \<and> (q = Inr () \<longrightarrow> hash_at H x sp = Some h)" if "rebuild w = (q, x)" for q x
  proof (cases "snap_staged s = Some h")
    case True
    then show ?thesis using that s f(1) by (auto simp: rebuild_def ret_def hash_opt_at_def)
  next
    case False
    then have m: "and_then (lift (read_file (vt_target v))) (\<lambda>c.
            and_then (check (H c = h) Recovery_required) (\<lambda>_.
            publish_rebuilt_postimage H n l expected sp c h)) w = (q, x)"
      using that by (simp add: rebuild_def)
    show ?thesis
    proof (cases "\<exists>c. read_file (vt_target v) w = Inr c \<and> H c = h")
      case True
      then obtain c where "publish_rebuilt_postimage H n l expected sp c h w = (q, x)"
        using m by (auto simp: and_then_def lift_def check_def ret_def)
      then show ?thesis by (rule publish_rebuilt_step [OF _ w(1) plain(2,3) ne(1)])
    next
      case no: False
      then have "x = w \<and> (\<exists>e. q = Inl e)"
        using m by (auto simp: and_then_def lift_def check_def ret_def fail_def split: sum.splits if_splits; metis)
      then show ?thesis by auto
    qed
  qed
  have "and_then rebuild (\<lambda>_. case it_preimage_hash (vt_intent v) of
            None \<Rightarrow> unlink_retry H n (\<lambda>_. Inr ()) (verify_lock l expected) (vt_target v) h
          | Some _ \<Rightarrow> restore_backup H n l expected v (Some h)) w = (r, w')"
    using run f by (simp add: rollback_replace_def rebuild_def)
  then show ?thesis
  proof (cases rule: and_then_cases)
    case (fails e)
    have fr: "frame ?R w w'" using reb [OF fails(1)] by blast
    then have "frame (writes v) w w'" using Rw(1) by (rule frame_mono)
    moreover have "recoverable H v w'"
      using recoverable_if_target_kept [OF plan calculation w(2)] kind frame_nodes [OF fr Rw(2)] by simp
    ultimately show ?thesis using fails(2) by simp
  next
    case (passes u x)
    have x: "frame ?R w x" "hash_at H x sp = Some h" using reb [OF passes(1)] by auto
    have fx: "frame (writes v) w x" using x(1) Rw(1) by (rule frame_mono)
    have nx: "no_edits x" using fx w(1) frame_no_edits by blast
    have tx: "nodes x (vt_target v) = nodes w (vt_target v)" using frame_nodes [OF x(1) Rw(2)] .
    have acc: "accessible v x" "backup_matches H v x"
      using frame_accessible [OF fx] frame_backup [OF fx backup_not_written [OF plan]] w(2)
      by (auto simp: at_postimage_def)
    show ?thesis
    proof (cases "it_preimage_hash (vt_intent v)")
      case None
      then have "unlink_retry H n (\<lambda>_. Inr ()) (verify_lock l expected) (vt_target v) h x = (r, w')"
        using passes(2) by simp
      note o = unlink_frame [OF this nx plain(1)]
      have fr: "frame (writes v) w w'"
        using frame_trans [OF fx frame_mono [OF o(1)]] by (auto intro: writes_members)
      show ?thesis
      proof (cases r)
        case (Inl e)
        then show ?thesis using fr recoverable_if_target_kept [OF plan fr w(2)] o(2) tx kind by simp
      next
        case (Inr u)
        then have "hash_at H w' (vt_target v) = None" "hash_at H w' sp = Some h"
          using o(3) x(2) ne(2) by (auto simp: hash_at_def)
        then have "at_preimage H v w'"
          using None f kind acc frame_accessible [OF o(1)] frame_backup [OF o(1)]
            own(2) [of "the (vt_backup v)"]
          by (auto simp: at_preimage_def hash_opt_at_def assets_of_def backup_matches_def)
        moreover have "fields_ok v" using plan by (simp add: plan_ok_def)
        ultimately show ?thesis using fr at_preimage_recoverable by blast
      qed
    next
      case (Some ph)
      then obtain b where b: "vt_backup v = Some b"
        using acc(2) by (auto simp: backup_matches_def hash_opt_at_def split: option.splits)
      have "restore_backup H n l expected v (Some h) x = (r, w')"
        using passes(2) Some by simp
      note o = restore_backup_step [OF this nx b plain(4) [OF b] plain(1)]
      have rb: "rollback_path b \<noteq> vt_target v" "rollback_path b \<noteq> sp"
        using own(2) [of "rollback_path b"] own(5) [OF sc(2) [OF b] f(1)] sc(2) [OF b] by auto
      have fr: "frame (writes v) w w'"
        using frame_trans [OF fx frame_mono [OF o(1) [OF rb(1)]]] b by (auto intro: writes_members)
      show ?thesis
      proof (cases r)
        case (Inl e)
        then show ?thesis
          using fr recoverable_if_target_kept [OF plan fr w(2)] o(2) [OF rb(1)] tx kind by simp
      next
        case (Inr u)
        then have "hash_at H w' (vt_target v) = it_preimage_hash (vt_intent v)"
          using o(3) [OF rb(1)] by simp
        moreover have "hash_at H w' sp = Some h"
          using frame_nodes [OF o(1) [OF rb(1)], of sp] ne(2) rb(2) x(2) by (auto simp: hash_at_def)
        ultimately have "at_preimage H v w'"
          using f kind acc frame_accessible [OF fr] frame_backup [OF fr backup_not_written [OF plan]]
            w(2) by (auto simp: at_preimage_def hash_opt_at_def at_postimage_def)
        moreover have "fields_ok v" using plan by (simp add: plan_ok_def)
        ultimately show ?thesis using fr at_preimage_recoverable by blast
      qed
    qed
  qed
qed

lemma rollback_one_step:
  assumes plan: "plan_ok vs" "v \<in> set vs" and w: "no_edits w" "recoverable H v w"
    and run: "rollback_one H n l expected v w = (r, w')"
  shows "frame (writes v) w w' \<and> recoverable H v w' \<and> (r = Inr () \<longrightarrow> at_preimage H v w')"
proof -
  obtain s where s: "snapshot_operation H v w = Inr s"
    "snap_state s = POSTIMAGE_PRESENT \<or> snap_state s = STAGED_POSTIMAGE_AVAILABLE"
    "target_class H v w = Inr (snap_state s)" "snap_staged s = hash_opt_at H w (vt_staged v)"
    using w(2) by (rule recoverable_snapshot)
  have acc: "accessible v w" "backup_matches H v w" using w(2) by (auto simp: recoverable_def)
  have ok: "fields_ok v" using plan by (simp add: plan_ok_def)
  note own = own_paths_differ [OF plan]
  have plain: "plain_path (vt_target v)" "\<And>d. vt_destination v = Some d \<Longrightarrow> plain_path d"
    "\<And>b. vt_backup v = Some b \<Longrightarrow> plain_path (rollback_path b)"
    using writes_plain [OF plan] by (auto simp: paths_of_def scratch_def)
  show ?thesis
  proof (cases "snap_state s = STAGED_POSTIMAGE_AVAILABLE")
    case True
    then have "r = Inr ()" "w' = w"
      using run s(1) by (simp_all add: rollback_one_def Let_def step_simps and_then_def)
    moreover have "at_preimage H v w"
      using acc True s(3) by (auto simp: at_preimage_def target_class_def classify_target_def
          split: target_kind.splits if_splits)
    ultimately show ?thesis using w(2) by simp
  next
    case False
    then have st: "snap_state s = POSTIMAGE_PRESENT" using s(2) by simp
    have post: "at_postimage H v w" using acc s(3) st by (simp add: at_postimage_def)
    show ?thesis
    proof (cases "it_kind (vt_intent v)")
      case REPLACE
      then have "rollback_replace H n l expected v s w = (r, w')"
        using run s(1) st by (simp add: rollback_one_def Let_def and_then_def lift_def)
      then show ?thesis by (rule rollback_replace_step [OF plan w(1) post REPLACE s(4)])
    next
      case MOVE
      obtain d h where f: "vt_destination v = Some d" "it_content_hash (vt_intent v) = Some h"
        "it_preimage_hash (vt_intent v) = Some h"
        using move_fields [OF plan MOVE] by blast
      have "replace_with_retry H n l expected True d (vt_target v) h None w = (r, w')"
        using run s(1) st MOVE f by (simp add: rollback_one_def Let_def and_then_def lift_def)
      note o = replace_with_retry_outcome [OF this w(1) plain(2) [OF f(1)] plain(1)]
      have fr: "frame (writes v) w w'"
        using o(1) by (rule frame_mono) (use f in \<open>auto intro: writes_members\<close>)
      show ?thesis
      proof (cases r)
        case (Inl e)
        then show ?thesis using fr frame_recoverable [OF fr o(2)] w(2) by simp
      next
        case (Inr u)
        then have "hash_at H w' d = None" "hash_at H w' (vt_target v) = Some h"
          using o(3) own(1) [OF f(1)] by (auto simp: hash_at_def)
        then have "at_preimage H v w'"
          using f MOVE acc frame_accessible [OF fr] frame_backup [OF fr backup_not_written [OF plan]]
          by (simp add: at_preimage_def hash_opt_at_def)
        then show ?thesis using fr at_preimage_recoverable [OF ok] by blast
      qed
    next
      case DELETE
      obtain b where f: "vt_backup v = Some b" using delete_fields [OF plan DELETE] by blast
      have "restore_backup H n l expected v None w = (r, w')"
        using run s(1) st DELETE by (simp add: rollback_one_def Let_def and_then_def lift_def)
      note o = restore_backup_step [OF this w(1) f plain(3) [OF f] plain(1)]
      have ne: "rollback_path b \<noteq> vt_target v"
        using own(2) [of "rollback_path b"] f by (auto simp: scratch_def)
      have fr: "frame (writes v) w w'"
        using frame_mono [OF o(1) [OF ne]] f by (auto intro: writes_members)
      show ?thesis
      proof (cases r)
        case (Inl e)
        then show ?thesis
          using fr recoverable_if_target_kept [OF plan fr post] o(2) [OF ne] DELETE by simp
      next
        case (Inr u)
        then have "at_preimage H v w'"
          using o(3) [OF ne] DELETE acc frame_accessible [OF fr]
            frame_backup [OF fr backup_not_written [OF plan]]
          by (simp add: at_preimage_def)
        then show ?thesis using fr at_preimage_recoverable [OF ok] by blast
      qed
    qed
  qed
qed

section \<open>Progress when nothing interferes\<close>

text \<open>The environment is quiet and the caller holds the lock.\<close>

definition quiet :: "lease \<Rightarrow> string option \<Rightarrow> world \<Rightarrow> bool" where
  "quiet l expected w \<longleftrightarrow> events w = [] \<and> holds_lock l expected w"

lemma quiet_no_edits: "quiet l expected w \<Longrightarrow> no_edits w"
  by (simp add: quiet_def no_edits_def)

lemma quiet_next_event: "quiet l expected w \<Longrightarrow> next_event w = (Inr Go, w)"
  by (simp add: quiet_def next_event_def)

lemma accessible_parents:
  assumes "accessible v w"
  shows "is_dir w (butlast (vt_target v))" "\<And>d. vt_destination v = Some d \<Longrightarrow> is_dir w (butlast d)"
    "it_kind (vt_intent v) \<noteq> REPLACE \<Longrightarrow> revalidate_owned_file True (vt_target v) w = Inr ()"
    "it_kind (vt_intent v) \<noteq> REPLACE \<Longrightarrow> vt_destination v = Some d \<Longrightarrow>
       revalidate_owned_file True d w = Inr ()"
    "vt_staged v = Some p \<Longrightarrow> plain_parents w p" "vt_backup v = Some p \<Longrightarrow> plain_parents w p"
proof -
  have rescue: "rescue_boundary e r = Inr u \<Longrightarrow> r = Inr u" for e u and r :: "exn + unit"
    by (cases r) (auto split: if_splits)
  have "require_operation_parents v w = Inr ()" using assms by (simp add: accessible_def)
  then show "is_dir w (butlast (vt_target v))" "\<And>d. vt_destination v = Some d \<Longrightarrow> is_dir w (butlast d)"
    "it_kind (vt_intent v) \<noteq> REPLACE \<Longrightarrow> revalidate_owned_file True (vt_target v) w = Inr ()"
    "it_kind (vt_intent v) \<noteq> REPLACE \<Longrightarrow> vt_destination v = Some d \<Longrightarrow>
       revalidate_owned_file True d w = Inr ()"
    "vt_staged v = Some p \<Longrightarrow> plain_parents w p" "vt_backup v = Some p \<Longrightarrow> plain_parents w p"
    by (auto simp: require_operation_parents_def result_simps check_opt_def target_parent_is_usable_def
        require_plain_parent_chain_def dest!: rescue split: if_splits)
qed

lemma revalidate_existing:
  "revalidate_owned_file True p w = Inr () \<Longrightarrow> is_file w p \<Longrightarrow> revalidate_owned_file False p w = Inr ()"
  by (auto simp: revalidate_owned_file_def Let_def result_simps reject_unsafe_file_def split: if_splits)

lemma replace_with_retry_quiet:
  assumes "quiet l expected w" "n \<noteq> 0" "no_dir w src" "no_dir w dst" "is_dir w (butlast dst)"
    and "hash_at H w src = Some sh" "hash_at H w dst = dh"
    and "rv \<Longrightarrow> revalidate_owned_file False src w = Inr () \<and> revalidate_owned_file True dst w = Inr ()"
  shows "\<exists>w'. replace_with_retry H n l expected rv src dst sh dh w = (Inr (), w')
     \<and> events w' = events w \<and> tokens w' = tokens w \<and> quiet l expected w'"
proof -
  obtain c where c: "nodes w src = Some (File c)" using assms(6) by (auto simp: hash_at_Some)
  let ?w' = "w\<lparr>nodes := (nodes w)(src := None, dst := Some (File c))\<rparr>"
  have "verify_attempt H l expected rv src dst sh dh w = Inr ()"
    using assms by (simp add: verify_attempt_Inr quiet_def)
  then have "replace_with_retry H n l expected rv src dst sh dh w = os_replace src dst w"
    using assms(1,2) by (simp add: replace_with_retry_def quiet_def replace_retry_quiet)
  moreover have "os_replace src dst w = (Inr (), ?w')"
    using assms(4,5) c by (simp add: os_replace_Inr no_dir_def)
  ultimately show ?thesis using assms(1) by (auto simp: quiet_def holds_lock_def)
qed

lemma apply_one_live:
  assumes plan: "plan_ok vs" "v \<in> set vs" and w: "quiet l expected w" "n \<noteq> 0" "recoverable H v w"
  shows "\<exists>w'. apply_one H n l expected v w = (Inr (), w') \<and> quiet l expected w'"
proof -
  obtain s where s: "snapshot_operation H v w = Inr s"
    "snap_state s = POSTIMAGE_PRESENT \<or> snap_state s = STAGED_POSTIMAGE_AVAILABLE"
    "target_class H v w = Inr (snap_state s)"
    using w(3) by (rule recoverable_snapshot)
  have acc: "accessible v w" using w(3) by (auto simp: recoverable_def)
  note par = accessible_parents [OF acc]
  have nd: "no_dir w (vt_target v)" "\<And>d. vt_destination v = Some d \<Longrightarrow> no_dir w d"
    "\<And>p. vt_staged v = Some p \<Longrightarrow> no_dir w p" using acc by (auto simp: accessible_def)
  show ?thesis
  proof (cases "snap_state s = POSTIMAGE_PRESENT")
    case True
    then show ?thesis using s(1) w(1) by (simp add: apply_one_def Let_def and_then_def lift_def ret_def)
  next
    case False
    then have st: "snap_state s = STAGED_POSTIMAGE_AVAILABLE" using s(2) by simp
    note cls = s(3) [unfolded st target_class_def classify_target_def]
    show ?thesis
    proof (cases "it_kind (vt_intent v)")
      case REPLACE
      obtain sp h where f: "vt_staged v = Some sp" "it_content_hash (vt_intent v) = Some h"
        using replace_fields [OF plan REPLACE] by blast
      have "hash_at H w sp = Some h" "hash_at H w (vt_target v) = it_preimage_hash (vt_intent v)"
        using cls REPLACE f by (auto simp: hash_opt_at_def split: if_splits)
      from replace_with_retry_quiet [OF w(1,2) nd(3) [OF f(1)] nd(1) par(1) this, of False]
      show ?thesis using s(1) st REPLACE f by (auto simp: apply_one_def Let_def and_then_def lift_def)
    next
      case MOVE
      obtain d h where f: "vt_destination v = Some d" "it_content_hash (vt_intent v) = Some h"
        "it_preimage_hash (vt_intent v) = Some h"
        using move_fields [OF plan MOVE] by blast
      have hh: "hash_at H w (vt_target v) = Some h" "hash_at H w d = None"
        using cls MOVE f by (auto simp: hash_opt_at_def split: if_splits)
      have "is_file w (vt_target v)"
        using hh(1) nd(1) by (auto simp: hash_at_Some is_file_iff no_dir_def)
      then have "revalidate_owned_file False (vt_target v) w = Inr ()"
        using par(3) MOVE revalidate_existing by simp
      then have "True \<Longrightarrow> revalidate_owned_file False (vt_target v) w = Inr ()
          \<and> revalidate_owned_file True d w = Inr ()"
        using par(4) [OF _ f(1)] MOVE by simp
      from replace_with_retry_quiet [OF w(1,2) nd(1) nd(2) [OF f(1)] par(2) [OF f(1)] hh this, of True]
      show ?thesis using s(1) st MOVE f by (auto simp: apply_one_def Let_def and_then_def lift_def)
    next
      case DELETE
      obtain h where f: "it_preimage_hash (vt_intent v) = Some h"
        using delete_fields [OF plan DELETE] by blast
      have "hash_at H w (vt_target v) = Some h" using cls DELETE f by (auto split: if_splits)
      then have "unlink_retry H n (revalidate_owned_file True (vt_target v)) (verify_lock l expected)
          (vt_target v) h w = (Inr (), remove_file (vt_target v) w)"
        using w(1,2) par(3) DELETE nd(1) by (intro unlink_retry_quiet) (simp_all add: quiet_def verify_lock_iff)
      then show ?thesis
        using s(1) st DELETE f w(1)
        by (auto simp: apply_one_def Let_def and_then_def lift_def quiet_def holds_lock_def remove_file_def)
    qed
  qed
qed

text \<open>The temporary names of a rollback are free.\<close>

definition scratch_ready :: "vtarget \<Rightarrow> world \<Rightarrow> bool" where
  "scratch_ready v w \<longleftrightarrow>
     (\<forall>b. vt_backup v = Some b \<longrightarrow> nodes w (rollback_path b) \<noteq> Some Dir)
     \<and> (\<forall>sp token. vt_staged v = Some sp \<longrightarrow> token \<in> insert [] (set (tokens w)) \<longrightarrow>
          nodes w (rebuild_path sp token) = None)"

lemma plain_parents_snoc: "plain_parents w (d @ [x]) = plain_parents w (d @ [y])"
proof -
  have "take k (d @ [x]) = take k (d @ [y])" if "k < length (d @ [x])" for k
    using that by simp
  then show ?thesis
    unfolding plain_parents_def by (intro ball_cong) auto
qed

lemma plain_parents_dir: "plain_parents w (d @ [x]) \<Longrightarrow> is_dir w d"
proof (cases "d = []")
  case False
  assume "plain_parents w (d @ [x])"
  moreover have "length d \<in> set [1..<length (d @ [x])]" using False by (cases d) auto
  ultimately have "nodes w (take (length d) (d @ [x])) = Some Dir"
    unfolding plain_parents_def by blast
  then show ?thesis by (simp add: is_dir_def)
qed (simp add: is_dir_def)

lemma scratch_in_zone:
  assumes "vt_static v" "p = vt_dir v @ [x]"
  shows "in_zone (as_posix p) ''98_state/staging''"
proof -
  obtain d where "vt_dir v = transactions_root @ [d]" using assms(1) by (auto simp: vt_static_def)
  then show ?thesis
    using assms(2) by (simp add: in_zone_def as_posix_def transactions_root_def staging_root_def)
qed

lemma write_fsynced_quiet:
  assumes "quiet l expected w" "is_dir w (butlast p)" "nodes w p \<noteq> Some Dir" "ex \<longrightarrow> nodes w p = None"
  shows "write_fsynced ex p c w = (Inr (), put_file p c w)"
  using assms by (auto simp: write_fsynced_def quiet_def and_then_def next_event_def)

lemma put_file_quiet: "quiet l expected w \<Longrightarrow> quiet l expected (put_file p c w)"
  by (simp add: quiet_def holds_lock_def put_file_def)

lemma read_file_hash:
  "no_dir w p \<Longrightarrow> hash_at H w p = Some h \<Longrightarrow> \<exists>c. read_file p w = Inr c \<and> H c = h"
  by (auto simp: read_file_def reject_unsafe_file_def path_exists_def is_file_iff no_dir_def hash_at_Some)

lemma restore_backup_live:
  assumes plan: "plan_ok vs" "v \<in> set vs" and w: "quiet l expected w" "n \<noteq> 0"
    and acc: "accessible v w" "backup_matches H v w" "nodes w (rollback_path b) \<noteq> Some Dir"
    and f: "vt_backup v = Some b" "it_preimage_hash (vt_intent v) = Some h"
    and th: "hash_at H w (vt_target v) = th"
  shows "\<exists>w'. restore_backup H n l expected v th w = (Inr (), w') \<and> quiet l expected w'"
proof -
  have st: "vt_static v" using plan plan_static by auto
  obtain x where b: "b = vt_dir v @ [x @ ''.backup'']" using st f(1) by (auto simp: vt_static_def)
  let ?rb = "rollback_path b"
  have rb: "?rb = vt_dir v @ [x @ ''.rollback'']" by (simp add: b rollback_path_name)
  note par = accessible_parents [OF acc(1)]
  have "hash_at H w b = Some h" "no_dir w b"
    using acc(1,2) f by (auto simp: backup_matches_def hash_opt_at_def accessible_def)
  then obtain c where c: "read_file b w = Inr c" "H c = h" using read_file_hash by blast
  have pb: "plain_parents w ?rb"
    using par(6) [OF f(1)] plain_parents_snoc unfolding rb unfolding b by blast
  note nd = acc(3)
  let ?v = "put_file ?rb c w"
  have wr: "write_fsynced False ?rb c w = (Inr (), ?v)"
    using w(1) nd plain_parents_dir [of w "vt_dir v"] pb unfolding rb by (intro write_fsynced_quiet) auto
  have fr: "frame {?rb} w ?v"
    using writes_plain(3) [OF plan, of ?rb] nd f(1) by (intro put_file_frame) (auto simp: scratch_def)
  have ne: "?rb \<noteq> vt_target v"
    using own_paths_differ(2) [OF plan, of ?rb] f(1) by (auto simp: scratch_def)
  have src: "no_dir ?v ?rb" "hash_at H ?v ?rb = Some h" "is_file ?v ?rb"
    using c(2) by (simp_all add: put_file_def no_dir_def hash_at_def is_file_def rb)
  have tgt: "no_dir ?v (vt_target v)" "hash_at H ?v (vt_target v) = th"
    using acc(1) ne th by (simp_all add: accessible_def put_file_def no_dir_def hash_at_def)
  have av: "accessible v ?v" using acc(1) frame_accessible [OF fr] by simp
  have "revalidate_owned_file False ?rb ?v = Inr ()"
    using scratch_in_zone [OF st rb] pb shape_plain_parents [OF frame_shape [OF fr]] src(3)
    by (simp add: revalidate_owned_file_def require_plain_parent_chain_def reject_unsafe_file_def)
  then have "it_kind (vt_intent v) \<noteq> REPLACE \<Longrightarrow> revalidate_owned_file False ?rb ?v = Inr ()
      \<and> revalidate_owned_file True (vt_target v) ?v = Inr ()"
    using accessible_parents(3) [OF av] by simp
  from replace_with_retry_quiet [OF put_file_quiet [OF w(1)] w(2) src(1) tgt(1)
      accessible_parents(1) [OF av] src(2) tgt(2) this]
  obtain w' where "replace_with_retry H n l expected (it_kind (vt_intent v) \<noteq> REPLACE) ?rb (vt_target v)
      h th ?v = (Inr (), w')" "quiet l expected w'" by blast
  then show ?thesis
    using f c wr nd
    by (auto simp: restore_backup_def and_then_def lift_def check_def ret_def reject_unsafe_True
        no_dir_def rb)
qed

lemma publish_rebuilt_live:
  assumes plan: "plan_ok vs" "v \<in> set vs" and w: "quiet l expected w" "n \<noteq> 0"
    and acc: "accessible v w" "scratch_ready v w" and sp: "vt_staged v = Some sp" and c: "H c = h"
  shows "\<exists>w'. publish_rebuilt_postimage H n l expected sp c h w = (Inr (), w') \<and> quiet l expected w'"
proof -
  have st: "vt_static v" using plan plan_static by auto
  obtain x where s: "sp = vt_dir v @ [x @ ''.stage'']" using st sp by (auto simp: vt_static_def)
  obtain t v' where t: "next_token w = (Inr t, v')" "nodes v' = nodes w" "quiet l expected v'"
    "t \<in> insert [] (set (tokens w))"
    using w(1) by (cases "tokens w") (auto simp: next_token_def quiet_def holds_lock_def)
  let ?rp = "rebuild_path sp t"
  have rp: "?rp = vt_dir v @ [x @ ''.rebuild-'' @ t @ ''.tmp'']" by (simp add: s rebuild_path_name)
  have dir: "is_dir v' (vt_dir v)"
    using accessible_parents(5) [OF acc(1) sp] plain_parents_dir [of w "vt_dir v"] t(2)
    by (simp add: s is_dir_def)
  have free: "nodes v' ?rp = None" using acc(2) sp t(2,4) unfolding scratch_ready_def by metis
  have ne: "?rp \<noteq> sp"
  proof -
    have "?rp \<in> scratch v" using sp unfolding scratch_def by blast
    from own_paths_differ(5) [OF plan this sp] show ?thesis by simp
  qed
  let ?u = "put_file ?rp c v'"
  have wr: "write_fsynced True ?rp c v' = (Inr (), ?u)"
    using t(3) dir free by (intro write_fsynced_quiet) (simp_all add: rp)
  have u: "quiet l expected ?u" using t(3) put_file_quiet by blast
  have nd: "nodes ?u sp \<noteq> Some Dir" using acc(1) sp ne t(2) by (auto simp: accessible_def no_dir_def put_file_def)
  have src: "no_dir ?u ?rp" "hash_at H ?u ?rp = Some h" "read_file ?rp ?u = Inr c"
    using c by (simp_all add: put_file_def no_dir_def hash_at_def read_file_def reject_unsafe_file_def
        is_file_def rp)
  have ud: "is_dir ?u (butlast sp)" using dir free by (auto simp: s is_dir_def put_file_def)
  let ?x = "?u\<lparr>nodes := (nodes ?u)(?rp := None, sp := Some (File c))\<rparr>"
  have "replace_retry n (\<lambda>w. bind_result (require_source_hash H ?rp h w) (\<lambda>_. verify_lock l expected w))
      ?rp sp ?u = os_replace ?rp sp ?u"
    using u w(2) src by (intro replace_retry_quiet)
      (simp_all add: quiet_def require_source_hash_def hash_optional_at verify_lock_iff)
  also have "\<dots> = (Inr (), ?x)"
    using nd ud by (simp add: os_replace_Inr) (simp add: put_file_def)
  finally have rep: "replace_retry n (\<lambda>w. bind_result (require_source_hash H ?rp h w)
      (\<lambda>_. verify_lock l expected w)) ?rp sp ?u = (Inr (), ?x)" .
  have qx: "quiet l expected ?x" using u by (simp add: quiet_def holds_lock_def)
  have "unlink_if_present ?rp ?x = (Inr (), ?x)"
    using qx ne by (simp add: unlink_if_present_def sys_call_def and_then_def quiet_next_event is_file_def)
  then have "publish_rebuilt_postimage H n l expected sp c h w = (Inr (), ?x)"
    using t(1) wr rep src c
    by (simp add: publish_rebuilt_postimage_def and_then_def Let_def finally_do_def lift_def
        require_hash_def hash_regular_def)
  then show ?thesis using qx by blast
qed

lemma scratch_ready_frame:
  assumes "frame P w w'" "scratch_ready v w"
    and "\<And>sp t. vt_staged v = Some sp \<Longrightarrow> rebuild_path sp t \<notin> P"
  shows "scratch_ready v w'"
proof -
  have "nodes w' p = Some Dir \<longleftrightarrow> nodes w p = Some Dir" for p
    using frame_shape [OF assms(1)] by (simp add: same_shape_def)
  moreover have "set (tokens w') \<subseteq> set (tokens w)" using assms(1) by (simp add: frame_def)
  ultimately show ?thesis
    using assms(2,3) frame_nodes [OF assms(1)] unfolding scratch_ready_def
    by (metis insert_iff subset_iff)
qed

lemma rollback_replace_live:
  assumes plan: "plan_ok vs" "v \<in> set vs" and w: "quiet l expected w" "n \<noteq> 0" "at_postimage H v w"
    and kind: "it_kind (vt_intent v) = REPLACE" and ready: "scratch_ready v w"
  shows "\<exists>w'. rollback_replace H n l expected v s w = (Inr (), w') \<and> quiet l expected w'"
proof -
  obtain sp h where f: "vt_staged v = Some sp" "it_content_hash (vt_intent v) = Some h"
    using replace_fields [OF plan kind] by blast
  have acc: "accessible v w" "backup_matches H v w" "hash_at H w (vt_target v) = Some h"
    using w(3) kind f
    by (auto simp: at_postimage_def target_class_def classify_target_def split: if_splits)
  have nd: "no_dir w (vt_target v)" using acc(1) by (simp add: accessible_def)
  obtain c where c: "read_file (vt_target v) w = Inr c" "H c = h"
    using read_file_hash [OF nd acc(3)] by blast
  define rebuild where "rebuild = (if snap_staged s \<noteq> Some h
       then and_then (lift (read_file (vt_target v))) (\<lambda>c.
            and_then (check (H c = h) Recovery_required) (\<lambda>_.
            publish_rebuilt_postimage H n l expected sp c h))
       else ret ())"
  have sc: "rebuild_path sp t \<in> scratch v" for t using f(1) by (auto simp: scratch_def)
  have plain: "plain_path sp" "plain_path (rebuild_path sp t)" "rebuild_path sp t \<noteq> sp"
    "vt_target v \<noteq> sp" "vt_target v \<noteq> rebuild_path sp t" for t
    using writes_plain(2) [OF plan, of sp] writes_plain(3) [OF plan, of "rebuild_path sp t"] sc [of t]
      own_paths_differ(5) [OF plan sc f(1), symmetric] own_paths_differ(2) [OF plan, of sp]
      own_paths_differ(2) [OF plan, of "rebuild_path sp t"] f(1)
    by (auto simp: assets_of_def)
  have "\<exists>x. rebuild w = (Inr (), x) \<and> quiet l expected x
      \<and> frame (insert sp {rebuild_path sp t | t. True}) w x"
  proof (cases "snap_staged s = Some h")
    case True
    then show ?thesis using w(1) by (simp add: rebuild_def ret_def)
  next
    case False
    obtain x where x: "publish_rebuilt_postimage H n l expected sp c h w = (Inr (), x)" "quiet l expected x"
      using publish_rebuilt_live [where H = H and c = c and h = h, OF plan w(1,2) acc(1) ready f(1) c(2)]
      by blast
    from publish_rebuilt_step [OF x(1) quiet_no_edits [OF w(1)] plain(1,2,3)]
    show ?thesis
      using False x c by (auto simp: rebuild_def and_then_def lift_def check_def ret_def)
  qed
  then obtain x where x: "rebuild w = (Inr (), x)" "quiet l expected x"
    "frame (insert sp {rebuild_path sp t | t. True}) w x" by blast
  let ?P = "insert sp {rebuild_path sp t | t. True}"
  have tx: "hash_at H x (vt_target v) = Some h"
    using frame_nodes [OF x(3), of "vt_target v"] plain(4,5) acc(3) by (auto simp: hash_at_def)
  have ax: "accessible v x" using acc(1) frame_accessible [OF x(3)] by simp
  have run: "rollback_replace H n l expected v s w = (case it_preimage_hash (vt_intent v) of
            None \<Rightarrow> unlink_retry H n (\<lambda>_. Inr ()) (verify_lock l expected) (vt_target v) h
          | Some _ \<Rightarrow> restore_backup H n l expected v (Some h)) x"
    using x(1) f by (simp add: rollback_replace_def rebuild_def and_then_Inr)
  show ?thesis
  proof (cases "it_preimage_hash (vt_intent v)")
    case None
    have "unlink_retry H n (\<lambda>_. Inr ()) (verify_lock l expected) (vt_target v) h x
        = (Inr (), remove_file (vt_target v) x)"
      using x(2) w(2) ax tx by (intro unlink_retry_quiet)
        (simp_all add: quiet_def verify_lock_iff accessible_def)
    then show ?thesis
      using None run x(2) by (auto simp: quiet_def holds_lock_def remove_file_def)
  next
    case (Some ph)
    then obtain b where b: "vt_backup v = Some b"
      using acc(2) by (auto simp: backup_matches_def hash_opt_at_def split: option.splits)
    have "?P \<subseteq> writes v" using f(1) by (auto intro: writes_members)
    then have bm: "backup_matches H v x"
      using frame_backup [OF x(3)] backup_not_written [OF plan] acc(2) by blast
    have "nodes x (rollback_path b) \<noteq> Some Dir"
      using ready b frame_shape [OF x(3)] by (auto simp: scratch_ready_def same_shape_def)
    from restore_backup_live [OF plan x(2) w(2) ax bm this b Some tx]
    show ?thesis using Some run by simp
  qed
qed

lemma rollback_one_live:
  assumes plan: "plan_ok vs" "v \<in> set vs" and w: "quiet l expected w" "n \<noteq> 0" "recoverable H v w"
    and ready: "scratch_ready v w"
  shows "\<exists>w'. rollback_one H n l expected v w = (Inr (), w') \<and> quiet l expected w'"
proof -
  obtain s where s: "snapshot_operation H v w = Inr s"
    "snap_state s = POSTIMAGE_PRESENT \<or> snap_state s = STAGED_POSTIMAGE_AVAILABLE"
    "target_class H v w = Inr (snap_state s)"
    using w(3) by (rule recoverable_snapshot)
  have acc: "accessible v w" "backup_matches H v w" using w(3) by (auto simp: recoverable_def)
  note par = accessible_parents [OF acc(1)]
  show ?thesis
  proof (cases "snap_state s = STAGED_POSTIMAGE_AVAILABLE")
    case True
    then show ?thesis using s(1) w(1) by (simp add: rollback_one_def Let_def and_then_def lift_def ret_def)
  next
    case False
    then have st: "snap_state s = POSTIMAGE_PRESENT" using s(2) by simp
    note cls = s(3) [unfolded st target_class_def classify_target_def]
    show ?thesis
    proof (cases "it_kind (vt_intent v)")
      case REPLACE
      have "at_postimage H v w" using acc s(3) st by (simp add: at_postimage_def)
      from rollback_replace_live [OF plan w(1,2) this REPLACE ready, of s]
      show ?thesis using s(1) st REPLACE by (simp add: rollback_one_def Let_def and_then_def lift_def)
    next
      case MOVE
      obtain d h where f: "vt_destination v = Some d" "it_content_hash (vt_intent v) = Some h"
        "it_preimage_hash (vt_intent v) = Some h"
        using move_fields [OF plan MOVE] by blast
      have nd: "no_dir w (vt_target v)" "no_dir w d" using acc(1) f(1) by (auto simp: accessible_def)
      have hh: "hash_at H w d = Some h" "hash_at H w (vt_target v) = None"
        using cls MOVE f by (auto simp: hash_opt_at_def split: if_splits)
      have "is_file w d" using hh(1) nd(2) by (auto simp: hash_at_Some is_file_iff no_dir_def)
      then have "True \<Longrightarrow> revalidate_owned_file False d w = Inr ()
          \<and> revalidate_owned_file True (vt_target v) w = Inr ()"
        using par(3) par(4) [OF _ f(1)] MOVE revalidate_existing by simp
      from replace_with_retry_quiet [OF w(1,2) nd(2,1) par(1) hh this, of True]
      show ?thesis using s(1) st MOVE f by (auto simp: rollback_one_def Let_def and_then_def lift_def)
    next
      case DELETE
      obtain h b where f: "it_preimage_hash (vt_intent v) = Some h" "vt_backup v = Some b"
        using delete_fields [OF plan DELETE] by blast
      have "hash_at H w (vt_target v) = None" using cls DELETE f by (auto split: if_splits)
      moreover have "nodes w (rollback_path b) \<noteq> Some Dir"
        using ready f(2) by (auto simp: scratch_ready_def)
      ultimately show ?thesis
        using restore_backup_live [OF plan w(1,2) acc _ f(2,1)] s(1) st DELETE
        by (simp add: rollback_one_def Let_def and_then_def lift_def)
    qed
  qed
qed

end
