(* ===== verification/Recovery.thy ===== *)
theory Recovery
  imports IntentJson StagingSteps
begin

text \<open>
  Crash consistency of staged transactions. A locale states what it takes for a loop over targets
  to be restartable: each step keeps the invariant under every outcome, establishes its own goal
  when it succeeds and disturbs no other goal. The two loops of the staging component, applying and
  rolling back, are interpretations. The properties then follow for whole sessions: whatever
  sequence of interrupted applies, recoveries and rollbacks has run, the transaction can still be
  completed or undone.
\<close>

section \<open>Restartable loops\<close>

locale restartable =
  fixes step :: "'p \<Rightarrow> 'v \<Rightarrow> unit action"
    and items :: "'p \<Rightarrow> 'v set"
    and inv :: "'p \<Rightarrow> world \<Rightarrow> bool"
    and spans :: "'p \<Rightarrow> world \<Rightarrow> world \<Rightarrow> bool"
    and finished :: "'p \<Rightarrow> 'v \<Rightarrow> world \<Rightarrow> bool"
    and calm :: "'p \<Rightarrow> world \<Rightarrow> bool"
    and ready :: "'p \<Rightarrow> 'v \<Rightarrow> world \<Rightarrow> bool"
  assumes spans_refl: "spans p w w"
    and spans_trans: "spans p u v \<Longrightarrow> spans p v w \<Longrightarrow> spans p u w"
    and step_keeps: "x \<in> items p \<Longrightarrow> inv p w \<Longrightarrow> step p x w = (r, w') \<Longrightarrow> inv p w' \<and> spans p w w'"
    and step_finishes: "x \<in> items p \<Longrightarrow> inv p w \<Longrightarrow> step p x w = (Inr (), w') \<Longrightarrow> finished p x w'"
    and finished_stable: "x \<in> items p \<Longrightarrow> y \<in> items p \<Longrightarrow> x \<noteq> y \<Longrightarrow> inv p w \<Longrightarrow>
      step p x w = (r, w') \<Longrightarrow> finished p y w \<Longrightarrow> finished p y w'"
    and ready_stable: "x \<in> items p \<Longrightarrow> y \<in> items p \<Longrightarrow> x \<noteq> y \<Longrightarrow> inv p w \<Longrightarrow>
      step p x w = (r, w') \<Longrightarrow> ready p y w \<Longrightarrow> ready p y w'"
    and step_live: "x \<in> items p \<Longrightarrow> inv p w \<Longrightarrow> calm p w \<Longrightarrow> ready p x w \<Longrightarrow>
      \<exists>w'. step p x w = (Inr (), w') \<and> calm p w'"
begin

lemma run_keeps:
  assumes "set xs \<subseteq> items p" "inv p w" "for_each (step p) xs w = (r, w')"
  shows "inv p w' \<and> spans p w w'"
  using assms
proof (induction xs arbitrary: w)
  case Nil
  then show ?case by (simp add: ret_def spans_refl)
next
  case (Cons x xs)
  from Cons.prems(3) [unfolded for_each.simps] show ?case
  proof (cases rule: and_then_cases)
    case (fails e)
    then show ?thesis using step_keeps [of x p w] Cons.prems(1,2) by auto
  next
    case (passes u v)
    have v: "inv p v" "spans p w v" using step_keeps [of x p w] Cons.prems(1,2) passes(1) by auto
    have "inv p w' \<and> spans p v w'" using Cons.IH [OF _ v(1) passes(2)] Cons.prems(1) by simp
    then show ?thesis using spans_trans [OF v(2)] by blast
  qed
qed

lemma run_stable:
  assumes "set xs \<subseteq> items p" "inv p w" "for_each (step p) xs w = (r, w')"
    and "y \<in> items p" "y \<notin> set xs" "finished p y w"
  shows "finished p y w'"
  using assms
proof (induction xs arbitrary: w)
  case Nil
  then show ?case by (simp add: ret_def)
next
  case (Cons x xs)
  have xy: "x \<in> items p" "x \<noteq> y" using Cons.prems by auto
  from Cons.prems(3) [unfolded for_each.simps] show ?case
  proof (cases rule: and_then_cases)
    case (fails e)
    then show ?thesis using finished_stable [OF xy(1) _ xy(2)] Cons.prems by blast
  next
    case (passes u v)
    have "inv p v" "finished p y v"
      using step_keeps [OF xy(1) _ passes(1)] finished_stable [OF xy(1) _ xy(2) _ passes(1)] Cons.prems
      by auto
    then show ?thesis using Cons.IH [OF _ _ passes(2)] Cons.prems by simp
  qed
qed

lemma run_finishes:
  assumes "set xs \<subseteq> items p" "distinct xs" "inv p w" "for_each (step p) xs w = (Inr (), w')"
  shows "\<forall>x\<in>set xs. finished p x w'"
  using assms
proof (induction xs arbitrary: w)
  case (Cons x xs)
  from Cons.prems(4) [unfolded for_each.simps] show ?case
  proof (cases rule: and_then_cases)
    case (passes u v)
    have x: "x \<in> items p" using Cons.prems(1) by simp
    have v: "inv p v" "finished p x v"
      using step_keeps [OF x _ passes(1)] step_finishes [OF x] passes(1) Cons.prems(3) by auto
    have "finished p x w'"
      using run_stable [OF _ v(1) passes(2) x _ v(2)] Cons.prems(1,2) by simp
    moreover have "\<forall>y\<in>set xs. finished p y w'"
      using Cons.IH [OF _ _ v(1) passes(2)] Cons.prems(1,2) by simp
    ultimately show ?thesis by simp
  qed simp
qed simp

lemma run_live:
  assumes "set xs \<subseteq> items p" "distinct xs" "inv p w" "calm p w" "\<forall>x\<in>set xs. ready p x w"
  shows "\<exists>w'. for_each (step p) xs w = (Inr (), w') \<and> calm p w'"
  using assms
proof (induction xs arbitrary: w)
  case Nil
  then show ?case by (simp add: ret_def)
next
  case (Cons x xs)
  have x: "x \<in> items p" using Cons.prems(1) by simp
  obtain v where v: "step p x w = (Inr (), v)" "calm p v"
    using step_live [OF x Cons.prems(3,4)] Cons.prems(5) by auto
  have i: "inv p v" using step_keeps [OF x Cons.prems(3) v(1)] by simp
  have "\<forall>y\<in>set xs. ready p y v"
  proof
    fix y
    assume y: "y \<in> set xs"
    then have "y \<in> items p" "x \<noteq> y" using Cons.prems(1,2) by auto
    then show "ready p y v"
      using ready_stable [OF x _ _ Cons.prems(3) v(1)] Cons.prems(5) y by simp
  qed
  then obtain w' where "for_each (step p) xs v = (Inr (), w')" "calm p w'"
    using Cons.IH [OF _ _ i v(2)] Cons.prems(1,2) by auto
  then show ?case using v(1) by (auto simp: and_then_def)
qed

end

section \<open>The two loops\<close>

text \<open>What a session is run with.\<close>

record session =
  ses_hash :: "content \<Rightarrow> hash"
  ses_attempts :: nat
  ses_lease :: lease
  ses_expected :: "string option"
  ses_plan :: "vtarget list"

definition all_writes :: "vtarget list \<Rightarrow> fpath set" where
  "all_writes vs = (\<Union>v\<in>set vs. writes v)"

definition session_inv :: "session \<Rightarrow> world \<Rightarrow> bool" where
  "session_inv s w \<longleftrightarrow>
     plan_ok (ses_plan s) \<and> no_edits w \<and> (\<forall>v\<in>set (ses_plan s). recoverable (ses_hash s) v w)"

definition session_items :: "session \<Rightarrow> vtarget set" where
  "session_items s = set (ses_plan s)"

definition session_spans :: "session \<Rightarrow> world \<Rightarrow> world \<Rightarrow> bool" where
  "session_spans s = frame (all_writes (ses_plan s))"

definition session_calm :: "session \<Rightarrow> world \<Rightarrow> bool" where
  "session_calm s w \<longleftrightarrow> quiet (ses_lease s) (ses_expected s) w \<and> ses_attempts s \<noteq> 0"

definition apply_step :: "session \<Rightarrow> vtarget \<Rightarrow> unit action" where
  "apply_step s = apply_one (ses_hash s) (ses_attempts s) (ses_lease s) (ses_expected s)"

definition rollback_step :: "session \<Rightarrow> vtarget \<Rightarrow> unit action" where
  "rollback_step s = rollback_one (ses_hash s) (ses_attempts s) (ses_lease s) (ses_expected s)"

lemma writes_all: "v \<in> set vs \<Longrightarrow> writes v \<subseteq> all_writes vs"
  by (auto simp: all_writes_def)

text \<open>A step on one target, seen from the whole plan.\<close>

lemma session_step:
  assumes "session_inv s w" "v \<in> set (ses_plan s)"
    and "frame (writes v) w w'" "recoverable (ses_hash s) v w'"
  shows "session_inv s w' \<and> session_spans s w w'"
proof -
  let ?vs = "ses_plan s"
  have plan: "plan_ok ?vs" using assms(1) by (simp add: session_inv_def)
  have "recoverable (ses_hash s) u w'" if u: "u \<in> set ?vs" for u
  proof (cases "u = v")
    case False
    then show ?thesis
      using frame_reads(1) [OF assms(3) writes_reads_disjoint [OF plan u assms(2) False]] assms(1) u
      by (simp add: session_inv_def)
  qed (use assms(4) in simp)
  then show ?thesis
    using assms(1) frame_no_edits [OF assms(3)] frame_mono [OF assms(3) writes_all [OF assms(2)]]
    by (simp add: session_inv_def session_spans_def)
qed

lemma apply_step_facts:
  assumes "session_inv s w" "v \<in> set (ses_plan s)" "apply_step s v w = (r, w')"
  shows "frame (writes v) w w'" "recoverable (ses_hash s) v w'"
    "r = Inr () \<Longrightarrow> at_postimage (ses_hash s) v w'"
  using apply_one_step [of "ses_plan s" v w "ses_hash s" "ses_attempts s" "ses_lease s" "ses_expected s" r w']
    assms by (simp_all add: session_inv_def apply_step_def)

lemma rollback_step_facts:
  assumes "session_inv s w" "v \<in> set (ses_plan s)" "rollback_step s v w = (r, w')"
  shows "frame (writes v) w w'" "recoverable (ses_hash s) v w'"
    "r = Inr () \<Longrightarrow> at_preimage (ses_hash s) v w'"
  using rollback_one_step [of "ses_plan s" v w "ses_hash s" "ses_attempts s" "ses_lease s" "ses_expected s" r w']
    assms by (simp_all add: session_inv_def rollback_step_def)

lemma before_dot:
  assumes "CHR ''.'' \<notin> set x" "CHR ''.'' \<notin> set y" "x @ CHR ''.'' # a = y @ CHR ''.'' # b"
  shows "x = y"
proof -
  have "takeWhile (\<lambda>c. c \<noteq> CHR ''.'') (z @ CHR ''.'' # e) = z" if "CHR ''.'' \<notin> set z" for z e :: string
    using that by (auto simp: takeWhile_append)
  then show ?thesis using assms by metis
qed

lemma rebuild_not_in_writes:
  assumes "plan_ok vs" "u \<in> set vs" "v \<in> set vs" "u \<noteq> v" "vt_staged u = Some sp"
  shows "rebuild_path sp t \<notin> writes v"
proof
  assume w: "rebuild_path sp t \<in> writes v"
  have st: "vt_static u" "vt_static v" using assms plan_static by auto
  have sc: "rebuild_path sp t \<in> scratch u" using assms(5) by (auto simp: scratch_def)
  obtain x where x: "sp = vt_dir u @ [x @ ''.stage'']" "CHR ''.'' \<notin> set x"
    using st(1) assms(5) by (auto simp: vt_static_def)
  have path: "rebuild_path sp t \<notin> set (paths_of v)"
    using path_asset_differ [OF st(2,1)] sc by blast
  have asset: "rebuild_path sp t \<notin> set (assets_of v)"
    using asset_scratch_differ [OF st(2,1) _ sc] by blast
  from w path asset consider b where "vt_backup v = Some b" "rebuild_path sp t = rollback_path b"
    | q t' where "vt_staged v = Some q" "rebuild_path sp t = rebuild_path q t'"
    by (auto simp: writes_def scratch_def assets_of_def)
  then show False
  proof cases
    case 1
    then obtain y where "b = vt_dir v @ [y @ ''.backup'']" using st(2) by (auto simp: vt_static_def)
    then have "tail2 (y @ ''.rollback'') = tail2 (x @ ''.rebuild-'' @ t @ ''.tmp'')"
      using 1(2) x by (simp add: rebuild_path_name rollback_path_name)
    then show False unfolding tail2_names by simp
  next
    case 2
    then obtain y where y: "q = vt_dir v @ [y @ ''.stage'']" "CHR ''.'' \<notin> set y"
      using st(2) by (auto simp: vt_static_def)
    have "x @ CHR ''.'' # ''rebuild-'' @ t @ ''.tmp'' = y @ CHR ''.'' # ''rebuild-'' @ t' @ ''.tmp''"
      and dirs: "vt_dir u = vt_dir v"
      using 2(2) x(1) y(1) by (simp_all add: rebuild_path_name)
    then have "sp = q" using before_dot [OF x(2) y(2)] x(1) y(1) by blast
    moreover have "set (assets_of u) \<inter> set (assets_of v) = {}"
      using assms by (intro concat_disjoint) (auto simp: plan_ok_def layout_def)
    ultimately show False using assms(5) 2(1) by (auto simp: assets_of_def)
  qed
qed

interpretation applying: restartable apply_step session_items session_inv session_spans
  "\<lambda>s. at_postimage (ses_hash s)" session_calm "\<lambda>_ _ _. True"
proof (unfold_locales, goal_cases)
  case (1 p w)
  show ?case by (simp add: session_spans_def)
next
  case (2 p u v w)
  then show ?case unfolding session_spans_def by (rule frame_trans)
next
  case (3 x p w r w')
  then show ?case
    using apply_step_facts [of p w x r w'] session_step [of p w x w'] by (simp add: session_items_def)
next
  case (4 x p w w')
  then show ?case using apply_step_facts(3) [of p w x "Inr ()" w'] by (simp add: session_items_def)
next
  case (5 x p y w r w')
  then have f: "frame (writes x) w w'"
    using apply_step_facts(1) [of p w x r w'] by (simp add: session_items_def)
  have "writes x \<inter> reads y = {}"
    using writes_reads_disjoint [of "ses_plan p" y x] 5 by (simp add: session_items_def session_inv_def)
  then show ?case using frame_reads(2) [OF f] 5 by simp
next
  case (7 x p w)
  then show ?case
    using apply_one_live [of "ses_plan p" x "ses_lease p" "ses_expected p" w "ses_attempts p" "ses_hash p"]
    by (auto simp: session_items_def session_inv_def session_calm_def apply_step_def)
qed simp

interpretation rolling_back: restartable rollback_step session_items session_inv session_spans
  "\<lambda>s. at_preimage (ses_hash s)" session_calm "\<lambda>_. scratch_ready"
proof (unfold_locales, goal_cases)
  case (1 p w)
  show ?case by (simp add: session_spans_def)
next
  case (2 p u v w)
  then show ?case unfolding session_spans_def by (rule frame_trans)
next
  case (3 x p w r w')
  then show ?case
    using rollback_step_facts [of p w x r w'] session_step [of p w x w'] by (simp add: session_items_def)
next
  case (4 x p w w')
  then show ?case using rollback_step_facts(3) [of p w x "Inr ()" w'] by (simp add: session_items_def)
next
  case (5 x p y w r w')
  then have f: "frame (writes x) w w'"
    using rollback_step_facts(1) [of p w x r w'] by (simp add: session_items_def)
  have "writes x \<inter> reads y = {}"
    using writes_reads_disjoint [of "ses_plan p" y x] 5 by (simp add: session_items_def session_inv_def)
  then show ?case using frame_reads(3) [OF f] 5 by simp
next
  case (6 x p y w r w')
  then have f: "frame (writes x) w w'"
    using rollback_step_facts(1) [of p w x r w'] by (simp add: session_items_def)
  show ?case
    using scratch_ready_frame [OF f] rebuild_not_in_writes [of "ses_plan p" y x] 6
    by (simp add: session_items_def session_inv_def)
next
  case (7 x p w)
  then show ?case
    using rollback_one_live [of "ses_plan p" x "ses_lease p" "ses_expected p" w "ses_attempts p" "ses_hash p"]
    by (auto simp: session_items_def session_inv_def session_calm_def rollback_step_def)
qed

section \<open>A transaction in flight\<close>

text \<open>No target of the intent would turn a directory into a nested context.\<close>

definition marker_free :: "intent_record \<Rightarrow> bool" where
  "marker_free i \<longleftrightarrow>
     (\<forall>t\<in>set (intent_targets i). \<forall>s\<in>set (target_strings t). unmarked (path_of s))"

text \<open>The inspection finds the intent and no target is in conflict.\<close>

definition in_flight ::
  "(content \<Rightarrow> hash) \<Rightarrow> (string \<Rightarrow> string) \<Rightarrow> intent_record \<Rightarrow> world \<Rightarrow> bool" where
  "in_flight H ck i w \<longleftrightarrow>
     marker_free i \<and> ri_intent (inspect_recovery H ck w) = Some i
     \<and> ri_state (inspect_recovery H ck w) \<noteq> RECOVERY_CONFLICT"

lemma inspect_loaded:
  assumes "load_intent ck w = Inr i" "validated_intent_paths ck i w = Inr vs"
  shows "inspect_recovery H ck w =
    \<lparr>ri_state = overall_state (ti_state ` set (map (inspect_target H w) vs)), ri_intent = Some i,
     ri_targets = map (inspect_target H w) vs\<rparr>"
proof -
  have "reject_unsafe_file False intent_path w = Inr ()"
    using assms(1) by (auto simp: load_intent_def result_simps)
  then have "reject_unsafe_file True intent_path w = Inr ()" "path_exists w intent_path"
    by (auto simp: reject_unsafe_file_def path_exists_def is_file_def split: if_splits option.splits)
  then show ?thesis using assms by (simp add: inspect_recovery_def Let_def)
qed

lemma inspect_Some:
  assumes "ri_intent (inspect_recovery H ck w) = Some i"
  obtains vs where "load_intent ck w = Inr i" "validated_intent_paths ck i w = Inr vs"
proof -
  obtain j vs where "load_intent ck w = Inr j" "validated_intent_paths ck j w = Inr vs" "j = i"
    using assms by (auto simp: inspect_recovery_def Let_def result_simps
        split: sum.splits if_splits)
  then show thesis using that by simp
qed

lemma inspect_target_state:
  "ti_state (inspect_target H w v) \<noteq> CONFLICT \<longleftrightarrow> recoverable H v w"
  "ti_state (inspect_target H w v) = POSTIMAGE_PRESENT \<longleftrightarrow> at_postimage H v w"
proof -
  show "ti_state (inspect_target H w v) \<noteq> CONFLICT \<longleftrightarrow> recoverable H v w"
  proof
    assume c: "ti_state (inspect_target H w v) \<noteq> CONFLICT"
    then obtain s where s: "snapshot_operation H v w = Inr s" "snap_state s \<noteq> CONFLICT"
      by (auto simp: inspect_target_def Let_def conflict_snapshot_def split: sum.splits)
    then show "recoverable H v w"
      by (cases "snap_state s") (auto simp: snapshot_iff recoverable_def)
  next
    assume "recoverable H v w"
    then obtain s where "snapshot_operation H v w = Inr s"
      "snap_state s = POSTIMAGE_PRESENT \<or> snap_state s = STAGED_POSTIMAGE_AVAILABLE"
      by (rule recoverable_snapshot)
    then show "ti_state (inspect_target H w v) \<noteq> CONFLICT"
      by (auto simp: inspect_target_def Let_def)
  qed
  show "ti_state (inspect_target H w v) = POSTIMAGE_PRESENT \<longleftrightarrow> at_postimage H v w"
  proof
    assume "ti_state (inspect_target H w v) = POSTIMAGE_PRESENT"
    then show "at_postimage H v w"
      by (auto simp: inspect_target_def Let_def conflict_snapshot_def snapshot_iff at_postimage_def
          split: sum.splits)
  next
    assume p: "at_postimage H v w"
    then obtain s where "snapshot_operation H v w = Inr s" "target_class H v w = Inr (snap_state s)"
      using recoverable_snapshot [OF at_postimage_recoverable] by metis
    then show "ti_state (inspect_target H w v) = POSTIMAGE_PRESENT"
      using p by (simp add: inspect_target_def Let_def at_postimage_def)
  qed
qed

lemma load_intent_fields:
  assumes "load_intent ck w = Inr i"
  shows "intent_targets i \<noteq> []" "\<forall>t\<in>set (intent_targets i). validate_intent_target_fields t = Inr t"
proof -
  obtain d where d: "intent_from_dict d = Inr i"
    using assms by (auto simp: load_intent_def result_simps split: option.splits node.splits
        content.splits if_splits sum.splits)
  obtain items where items: "items \<noteq> []" "map_results target_from_dict items = Inr (intent_targets i)"
    using intent_from_dict_targets [OF d] by blast
  then show "intent_targets i \<noteq> []" by (cases items) (auto simp: result_simps)
  show "\<forall>t\<in>set (intent_targets i). validate_intent_target_fields t = Inr t"
    using map_results_all [OF items(2)] target_from_dict_ok by blast
qed

lemma loaded_plan:
  assumes "load_intent ck w = Inr i" "validated_intent_paths ck i w = Inr vs" "marker_free i"
  shows "plan_ok vs" "vs \<noteq> []" "map vt_intent vs = intent_targets i"
proof -
  note l = validated_layout [OF assms(2)]
  have "fields_ok v \<and> (\<forall>p\<in>set (paths_of v). unmarked p)" if v: "v \<in> set vs" for v
  proof -
    have t: "vt_intent v \<in> set (intent_targets i)" using l(2) v by (metis image_eqI set_map)
    have st: "vt_static v" using l(1) v by (simp add: layout_def)
    have "path_of (as_posix p) = p" if "p \<in> set (paths_of v)" for p
      using st that by (simp add: vt_static_def)
    moreover have "\<forall>s\<in>set (map as_posix (paths_of v)). unmarked (path_of s)"
      using assms(3) t static_strings(1) [OF st] by (simp add: marker_free_def)
    ultimately show ?thesis
      using load_intent_fields(2) [OF assms(1)] t by (simp add: fields_ok_def)
  qed
  then show "plan_ok vs" using l(1) by (simp add: plan_ok_def)
  show "map vt_intent vs = intent_targets i" by (rule l(2))
  then show "vs \<noteq> []" using load_intent_fields(1) [OF assms(1)] by auto
qed

lemma in_flight_plan:
  assumes "in_flight H ck i w"
  obtains vs where "load_intent ck w = Inr i" "validated_intent_paths ck i w = Inr vs" "plan_ok vs"
    "vs \<noteq> []" "map vt_intent vs = intent_targets i" "\<forall>v\<in>set vs. recoverable H v w"
proof -
  from assms obtain vs where l: "load_intent ck w = Inr i" "validated_intent_paths ck i w = Inr vs"
    unfolding in_flight_def by (blast elim: inspect_Some)
  have m: "marker_free i" using assms by (simp add: in_flight_def)
  have "CONFLICT \<notin> ti_state ` set (map (inspect_target H w) vs)"
    using assms unfolding in_flight_def inspect_loaded [OF l] by (auto simp: overall_state_def)
  then have "\<forall>v\<in>set vs. recoverable H v w"
    unfolding inspect_target_state(1) [symmetric] by force
  then show thesis using that l loaded_plan [OF l m] by blast
qed

lemma in_flight_intro:
  assumes "load_intent ck w = Inr i" "validated_intent_paths ck i w = Inr vs" "marker_free i"
    "\<forall>v\<in>set vs. recoverable H v w"
  shows "in_flight H ck i w"
proof -
  have "CONFLICT \<notin> ti_state ` set (map (inspect_target H w) vs)"
    using assms(4) unfolding inspect_target_state(1) [symmetric] by force
  then show ?thesis
    using assms(3) unfolding in_flight_def inspect_loaded [OF assms(1,2)]
    by (auto simp: overall_state_def)
qed

end
