(* ===== verification/Sessions.thy ===== *)
theory Sessions
  imports Recovery
begin

text \<open>
  What a user of staged transactions can rely on. A history of sessions is any sequence of applies,
  recoveries and rollbacks of one intent, each interrupted, denied or deprived of the lock at any
  point. The properties say that such a history never loses the transaction, that it can be
  completed or undone afterwards, and that no step destroys data or acts without the lock.
\<close>

section \<open>Sessions\<close>

text \<open>What an intent records about one target, without the paths of the staging area.\<close>

definition postimage_holds :: "(content \<Rightarrow> hash) \<Rightarrow> world \<Rightarrow> intent_target \<Rightarrow> bool" where
  "postimage_holds H w t \<longleftrightarrow>
     (case it_kind t of
        REPLACE \<Rightarrow> hash_at H w (path_of (it_target t)) = it_content_hash t
      | MOVE \<Rightarrow> hash_at H w (path_of (it_target t)) = None
          \<and> hash_opt_at H w (map_option path_of (it_destination t)) = it_content_hash t
      | DELETE \<Rightarrow> hash_at H w (path_of (it_target t)) = None)"

definition preimage_holds :: "(content \<Rightarrow> hash) \<Rightarrow> world \<Rightarrow> intent_target \<Rightarrow> bool" where
  "preimage_holds H w t \<longleftrightarrow>
     hash_at H w (path_of (it_target t)) = it_preimage_hash t
     \<and> (it_kind t = MOVE \<longrightarrow> hash_opt_at H w (map_option path_of (it_destination t)) = None)"

text \<open>The canonical paths an intent may touch; everything else outside \<open>98_state\<close> is left alone.\<close>

definition intent_paths :: "intent_record \<Rightarrow> fpath set" where
  "intent_paths i = (\<Union>t\<in>set (intent_targets i). path_of ` set (target_strings t))"

definition elsewhere_same :: "intent_record \<Rightarrow> world \<Rightarrow> world \<Rightarrow> bool" where
  "elsewhere_same i w w' \<longleftrightarrow>
     (\<forall>p. outside_state p \<longrightarrow> p \<notin> intent_paths i \<longrightarrow> nodes w' p = nodes w p)"

lemma static_path_of:
  assumes "vt_static v"
  shows "path_of (it_target (vt_intent v)) = vt_target v"
    "map_option path_of (it_destination (vt_intent v)) = vt_destination v"
  using assms by (cases "vt_destination v"; simp add: vt_static_def paths_of_def)+

lemma at_postimage_holds:
  "vt_static v \<Longrightarrow> at_postimage H v w \<Longrightarrow> postimage_holds H w (vt_intent v)"
  by (auto simp: at_postimage_def postimage_holds_def static_path_of target_class_def
      classify_target_def split: target_kind.splits if_splits)

lemma at_preimage_holds:
  "vt_static v \<Longrightarrow> at_preimage H v w \<Longrightarrow> preimage_holds H w (vt_intent v)"
  by (auto simp: at_preimage_def preimage_holds_def static_path_of)

lemma plan_paths:
  assumes "plan_ok vs" "map vt_intent vs = intent_targets i"
  shows "intent_paths i = (\<Union>v\<in>set vs. set (paths_of v))"
proof -
  have "path_of ` set (target_strings (vt_intent v)) = set (paths_of v)" if "v \<in> set vs" for v
  proof -
    have "vt_static v" using assms(1) that plan_static by blast
    then have "path_of ` set (map as_posix (paths_of v)) = set (paths_of v)"
      by (force simp: vt_static_def image_image)
    then show ?thesis using \<open>vt_static v\<close> by (simp add: static_strings)
  qed
  then have "(\<Union>v\<in>set vs. path_of ` set (target_strings (vt_intent v))) = (\<Union>v\<in>set vs. set (paths_of v))"
    by simp
  then show ?thesis by (simp add: intent_paths_def flip: assms(2))
qed

lemma all_writes_elsewhere:
  assumes "plan_ok vs" "map vt_intent vs = intent_targets i" "frame (all_writes vs) w w'"
  shows "elsewhere_same i w w'" "nodes w' intent_path = nodes w intent_path"
proof -
  have state: "\<not> outside_state p \<and> length p = 5" if "v \<in> set vs" "p \<in> writes v" "p \<notin> set (paths_of v)" for v p
  proof -
    have st: "vt_static v" using assms(1) that(1) plan_static by blast
    have "p \<in> set (assets_of v) \<union> scratch v"
      using that(2,3) by (auto simp: writes_def assets_of_def)
    then obtain x where "p = vt_dir v @ [x]"
      using static_assets [OF st] static_scratch [OF st] by blast
    moreover obtain d where "vt_dir v = transactions_root @ [d]" using st by (auto simp: vt_static_def)
    ultimately show ?thesis using in_state [OF st]
      by (simp add: transactions_root_def staging_root_def)
  qed
  show "elsewhere_same i w w'"
    unfolding elsewhere_same_def plan_paths [OF assms(1,2)]
  proof (intro allI impI)
    fix p
    assume "outside_state p" "p \<notin> (\<Union>v\<in>set vs. set (paths_of v))"
    then have "p \<notin> all_writes vs" using state by (auto simp: all_writes_def)
    then show "nodes w' p = nodes w p" by (rule frame_nodes [OF assms(3)])
  qed
  have "intent_path \<notin> set (paths_of v)" if "v \<in> set vs" for v
    using plan_static [OF assms(1) that]
    by (auto simp: vt_static_def outside_state_def intent_path_def staging_root_def)
  moreover have "length intent_path = 3" by (simp add: intent_path_def staging_root_def)
  ultimately have "intent_path \<notin> all_writes vs" using state by (force simp: all_writes_def)
  then show "nodes w' intent_path = nodes w intent_path" by (rule frame_nodes [OF assms(3)])
qed

lemma elsewhere_refl [simp]: "elsewhere_same i w w"
  by (simp add: elsewhere_same_def)

lemma elsewhere_trans: "elsewhere_same i u v \<Longrightarrow> elsewhere_same i v w \<Longrightarrow> elsewhere_same i u w"
  by (simp add: elsewhere_same_def)

text \<open>The first loop of both movers only reads.\<close>

lemma refuse_conflict_pass:
  "\<forall>v\<in>set vs. recoverable H v w \<Longrightarrow> for_each (refuse_conflict H) vs w = (Inr (), w)"
proof (induction vs)
  case (Cons v vs)
  then obtain s where "snapshot_operation H v w = Inr s"
    "snap_state s = POSTIMAGE_PRESENT \<or> snap_state s = STAGED_POSTIMAGE_AVAILABLE"
    using recoverable_snapshot [of H v w] by (metis list.set_intros(1))
  then show ?case
    using Cons by (auto simp: refuse_conflict_def and_then_def lift_def check_def ret_def)
qed (simp add: ret_def)

definition session_of ::
  "(content \<Rightarrow> hash) \<Rightarrow> nat \<Rightarrow> lease \<Rightarrow> string option \<Rightarrow> vtarget list \<Rightarrow> session" where
  "session_of H n l expected vs =
     \<lparr>ses_hash = H, ses_attempts = n, ses_lease = l, ses_expected = expected, ses_plan = vs\<rparr>"

lemma refuse_conflict_fail:
  assumes "\<not> recoverable H v w"
  shows "\<exists>e. refuse_conflict H v w = (Inl e, w)"
proof (cases "snapshot_operation H v w")
  case (Inl e)
  then show ?thesis by (simp add: refuse_conflict_def and_then_def lift_def)
next
  case (Inr s)
  then have "snap_state s = CONFLICT"
    using assms by (cases "snap_state s") (auto simp: snapshot_iff recoverable_def)
  with Inr show ?thesis by (simp add: refuse_conflict_def and_then_def lift_def check_def fail_def)
qed

lemma plan_distinct: "plan_ok vs \<Longrightarrow> distinct vs"
proof -
  have "distinct xs" if "distinct (concat (map paths_of xs))" for xs
    using that
  proof (induction xs)
    case (Cons x xs)
    then have "x \<notin> set xs" by (force simp: paths_of_def)
    then show ?case using Cons by simp
  qed simp
  then show "plan_ok vs \<Longrightarrow> distinct vs" by (simp add: plan_ok_def layout_def)
qed

lemma apply_validated_eq:
  assumes "\<forall>v\<in>set vs. recoverable H v w"
  shows "apply_validated H n l expected vs w =
    and_then (lift (verify_lock l expected))
      (\<lambda>_. for_each (apply_step (session_of H n l expected vs)) vs) w"
  using refuse_conflict_pass [OF assms]
  by (simp add: apply_validated_def and_then_Inr apply_step_def session_of_def)

lemma rollback_validated_eq:
  assumes "\<forall>v\<in>set vs. recoverable H v w"
  shows "rollback_validated H n l expected vs w =
    and_then (lift (verify_lock l expected))
      (\<lambda>_. for_each (rollback_step (session_of H n l expected vs)) (rev vs)) w"
  using refuse_conflict_pass [OF assms]
  by (simp add: rollback_validated_def and_then_Inr rollback_step_def session_of_def)

text \<open>The four movers under one name, for sequences of sessions.\<close>

datatype mover = Apply | Complete_recovery | Rollback | Rollback_recovery

fun run_mover ::
  "(content \<Rightarrow> hash) \<Rightarrow> (string \<Rightarrow> string) \<Rightarrow> mover \<Rightarrow> nat \<Rightarrow> lease \<Rightarrow> intent_record \<Rightarrow> intent_record action"
where
  "run_mover H ck Apply = apply_intent H ck"
| "run_mover H ck Complete_recovery = complete_recovery H ck"
| "run_mover H ck Rollback = rollback_intent H ck"
| "run_mover H ck Rollback_recovery = rollback_recovery H ck"

lemma run_mover_cases:
  obtains rec act where "run_mover H ck m n l i = with_durable_intent ck l rec i act"
    "act = apply_validated H n l \<or> act = rollback_validated H n l"
  by (cases m) (auto simp: apply_intent_def complete_recovery_def rollback_intent_def rollback_recovery_def)

lemma validated_run:
  assumes act: "act = apply_validated H n l \<or> act = rollback_validated H n l"
    and plan: "plan_ok vs" "no_edits w" "\<forall>v\<in>set vs. recoverable H v w"
    and run: "act expected vs w = (r, w')"
  shows "frame (all_writes vs) w w' \<and> (\<forall>v\<in>set vs. recoverable H v w')"
proof -
  let ?s = "session_of H n l expected vs"
  have inv: "session_inv ?s w" using plan by (simp add: session_inv_def session_of_def)
  have it: "set vs \<subseteq> session_items ?s" by (simp add: session_items_def session_of_def)
  from act obtain step xs where
    "and_then (lift (verify_lock l expected)) (\<lambda>_. for_each (step ?s) xs) w = (r, w')"
    "(step = apply_step \<and> xs = vs) \<or> (step = rollback_step \<and> xs = rev vs)"
    using run apply_validated_eq [OF plan(3)] rollback_validated_eq [OF plan(3)] by metis
  then have "w' = w \<or> for_each (apply_step ?s) vs w = (r, w')
      \<or> for_each (rollback_step ?s) (rev vs) w = (r, w')"
    by (auto simp: and_then_def lift_def split: sum.splits)
  then have "session_inv ?s w' \<and> session_spans ?s w w'"
    using applying.run_keeps [OF it inv] rolling_back.run_keeps [of "rev vs" ?s w] it inv
    by (auto simp: session_spans_def)
  then show ?thesis by (simp add: session_inv_def session_spans_def session_of_def)
qed

lemma mover_keeps:
  assumes "in_flight H ck i w" "no_edits w" "run_mover H ck m n l i w = (r, w')"
  shows "in_flight H ck i w' \<and> no_edits w' \<and> elsewhere_same i w w'
    \<and> world_context w' = world_context w"
proof -
  obtain vs where vs: "load_intent ck w = Inr i" "validated_intent_paths ck i w = Inr vs" "plan_ok vs"
    "map vt_intent vs = intent_targets i" "\<forall>v\<in>set vs. recoverable H v w"
    using assms(1) by (rule in_flight_plan)
  obtain rec act where act: "run_mover H ck m n l i = with_durable_intent ck l rec i act"
    "act = apply_validated H n l \<or> act = rollback_validated H n l"
    by (rule run_mover_cases)
  let ?e = "if rec then None else Some (intent_nonce i)"
  have "w' = w \<or> (\<exists>q. act ?e vs w = (q, w'))"
    using assms(3) vs(1,2) unfolding act(1)
    by (auto simp: with_durable_intent_def Let_def and_then_def lift_def check_def ret_def
        split: sum.splits prod.splits if_splits)
  then show ?thesis
  proof
    assume "w' = w"
    then show ?thesis using assms(1,2) by simp
  next
    assume "\<exists>q. act ?e vs w = (q, w')"
    then obtain q where q: "act ?e vs w = (q, w')" by blast
    note v = validated_run [OF act(2) vs(3) assms(2) vs(5) q]
    then have fr: "frame (all_writes vs) w w'" and rec: "\<forall>v\<in>set vs. recoverable H v w'" by auto
    note el = all_writes_elsewhere [OF vs(3,4) fr]
    have "load_intent ck w' = Inr i" "validated_intent_paths ck i w' = Inr vs"
      using vs(1,2) shape_load [OF frame_shape [OF fr]] shape_validated [OF frame_shape [OF fr]] el(2)
      by simp_all
    then have "in_flight H ck i w'"
      using in_flight_intro rec assms(1) by (simp add: in_flight_def)
    then show ?thesis
      using el(1) frame_no_edits [OF fr assms(2)] frame_shape [OF fr] by (simp add: same_shape_def)
  qed
qed

text \<open>
  A history of sessions on the same intent: any mover, under any lease, with any outcome and any
  faults, and between sessions a new process, a new lock holder, new faults.
\<close>

inductive sessions ::
  "(content \<Rightarrow> hash) \<Rightarrow> (string \<Rightarrow> string) \<Rightarrow> intent_record \<Rightarrow> world \<Rightarrow> world \<Rightarrow> bool"
  for H ck i w where
  start: "sessions H ck i w w"
| run: "sessions H ck i w u \<Longrightarrow> run_mover H ck m n l i u = (r, v) \<Longrightarrow> sessions H ck i w v"
| restart: "sessions H ck i w u \<Longrightarrow> nodes v = nodes u \<Longrightarrow> world_context v = world_context u \<Longrightarrow>
    no_edits v \<Longrightarrow> sessions H ck i w v"

inductive_cases sessions_cases: "sessions H ck i w u"

lemma restart_in_flight:
  assumes "nodes v = nodes u" "world_context v = world_context u" "in_flight H ck i u"
  shows "in_flight H ck i v"
proof -
  obtain vs where vs: "load_intent ck u = Inr i" "validated_intent_paths ck i u = Inr vs" "plan_ok vs"
    "map vt_intent vs = intent_targets i" "\<forall>x\<in>set vs. recoverable H x u"
    using assms(3) by (rule in_flight_plan)
  have sh: "same_shape u v" using assms(1,2) by (simp add: same_shape_def is_file_def path_exists_def)
  have "accessible x v = accessible x u" for x using shape_accessible [OF sh] by simp
  moreover have "hash_at H v = hash_at H u"
    by (rule ext) (simp add: hash_at_def assms(1))
  moreover have "hash_opt_at H v = hash_opt_at H u"
    by (rule ext) (simp add: hash_opt_at_def hash_at_def assms(1) split: option.splits)
  ultimately have "\<forall>x\<in>set vs. recoverable H x v"
    using vs(5) by (simp add: recoverable_def backup_matches_def target_class_def)
  moreover have "load_intent ck v = Inr i" "validated_intent_paths ck i v = Inr vs"
    using vs(1,2) shape_load [OF sh] shape_validated [OF sh] assms(1) by simp_all
  ultimately show ?thesis using in_flight_intro assms(3) by (simp add: in_flight_def)
qed

lemma sessions_keep:
  assumes "sessions H ck i w u" "in_flight H ck i w" "no_edits w"
  shows "in_flight H ck i u \<and> no_edits u \<and> elsewhere_same i w u"
  using assms
proof (induction rule: sessions.induct)
  case start
  then show ?case by simp
next
  case (run u m n l r v)
  then show ?case using mover_keeps [of H ck i u m n l r v] elsewhere_trans [of i w u v] by auto
next
  case (restart u v)
  then show ?case using restart_in_flight [of v u H ck i] by (auto simp: elsewhere_same_def)
qed

text \<open>When a target is at neither recorded image, no mover does anything.\<close>

lemma mover_refuses:
  assumes "ri_state (inspect_recovery H ck w) = RECOVERY_CONFLICT"
  shows "\<exists>e. run_mover H ck m n l i w = (Inl e, w)"
proof -
  obtain j where j: "ri_intent (inspect_recovery H ck w) = Some j"
    using assms by (auto simp: inspect_recovery_def Let_def split: sum.splits if_splits prod.splits)
  obtain vs where vs: "load_intent ck w = Inr j" "validated_intent_paths ck j w = Inr vs"
    using j by (rule inspect_Some)
  have "CONFLICT \<in> ti_state ` set (map (inspect_target H w) vs)"
    using assms unfolding inspect_loaded [OF vs] by (auto simp: overall_state_def split: if_splits)
  then obtain v where v: "v \<in> set vs" "\<not> recoverable H v w"
    unfolding inspect_target_state(1) [symmetric] by auto
  have "\<exists>e. for_each (refuse_conflict H) vs w = (Inl e, w)"
    using v
  proof (induction vs)
    case (Cons x xs)
    show ?case
    proof (cases "recoverable H x w")
      case True
      then show ?thesis
        using Cons refuse_conflict_pass [of "[x]" H w] by (auto simp: and_then_def ret_def split: prod.splits sum.splits)
    next
      case False
      then have "\<exists>e. refuse_conflict H x w = (Inl e, w)"
        by (auto simp: refuse_conflict_def and_then_def lift_def check_def fail_def ret_def recoverable_def
            snapshot_iff split: sum.splits) (metis target_state.exhaust)
      then show ?thesis by (auto simp: and_then_def)
    qed
  qed simp
  then obtain e where "\<And>expected. apply_validated H n l expected vs w = (Inl e, w)
      \<and> rollback_validated H n l expected vs w = (Inl e, w)"
    by (auto simp: apply_validated_def rollback_validated_def and_then_def)
  moreover obtain rec act where act: "run_mover H ck m n l i = with_durable_intent ck l rec i act"
    "act = apply_validated H n l \<or> act = rollback_validated H n l"
    by (rule run_mover_cases)
  ultimately have "\<And>expected. act expected vs w = (Inl e, w)" by auto
  then show ?thesis
    unfolding act(1) using vs
    by (auto simp: with_durable_intent_def Let_def and_then_def lift_def check_def ret_def fail_def
        split: sum.splits)
qed

section \<open>Properties\<close>

text \<open>
  C6: Crash consistency. After any history of applies, recoveries and rollbacks of an intent, each
  of them interrupted anywhere, denied, or deprived of the lock, an undisturbed
  \<open>complete_recovery\<close> under the lock succeeds: every target is at its postimage, the inspection
  reports that only the audit is missing, and no other canonical file has changed since the start.
\<close>

theorem recovery_completes:
  assumes "in_flight H ck i w" "no_edits w" "sessions H ck i w u" "quiet l None u" "0 < n"
  shows "\<exists>u'. complete_recovery H ck n l i u = (Inr i, u')
     \<and> (\<forall>t\<in>set (intent_targets i). postimage_holds H u' t)
     \<and> ri_state (inspect_recovery H ck u') = FULLY_REPLACED_AWAITING_AUDIT
     \<and> elsewhere_same i w u'"
proof -
  have u: "in_flight H ck i u" "no_edits u" "elsewhere_same i w u"
    using sessions_keep [OF assms(3,1,2)] by auto
  obtain vs where vs: "load_intent ck u = Inr i" "validated_intent_paths ck i u = Inr vs" "plan_ok vs"
    "vs \<noteq> []" "map vt_intent vs = intent_targets i" "\<forall>v\<in>set vs. recoverable H v u"
    using u(1) by (rule in_flight_plan)
  let ?s = "session_of H n l None vs"
  have inv: "session_inv ?s u" using vs u(2) by (simp add: session_inv_def session_of_def)
  have it: "set vs \<subseteq> session_items ?s" by (simp add: session_items_def session_of_def)
  have calm: "session_calm ?s u" using assms(4,5) by (simp add: session_calm_def session_of_def)
  obtain u' where u': "for_each (apply_step ?s) vs u = (Inr (), u')"
    using applying.run_live [OF it plan_distinct [OF vs(3)] inv calm] by auto
  have done1: "\<forall>v\<in>set vs. at_postimage H v u'"
    using applying.run_finishes [OF it plan_distinct [OF vs(3)] inv u'] by (simp add: session_of_def)
  have lock: "verify_lock l None u = Inr ()" "activate l None u = Inr ()"
    using assms(4) by (auto simp: verify_lock_iff quiet_def activate_def holds_lock_def)
  then have act: "apply_validated H n l None vs u = (Inr (), u')"
    using u' by (simp add: apply_validated_eq [OF vs(6)] and_then_def lift_def)
  then have run: "complete_recovery H ck n l i u = (Inr i, u')"
    using vs(1,2) lock by (simp add: complete_recovery_def with_durable_intent_def Let_def and_then_def
        lift_def check_def ret_def)
  have fr: "frame (all_writes vs) u u'"
    using validated_run [OF disjI1 [OF refl] vs(3) u(2) vs(6) act] by blast
  note el = all_writes_elsewhere [OF vs(3,5) fr]
  have l': "load_intent ck u' = Inr i" "validated_intent_paths ck i u' = Inr vs"
    using vs(1,2) shape_load [OF frame_shape [OF fr]] shape_validated [OF frame_shape [OF fr]] el(2)
    by simp_all
  have "ti_state ` set (map (inspect_target H u') vs) = {POSTIMAGE_PRESENT}"
    using done1 vs(4) inspect_target_state(2) [of H u'] by (cases vs) auto
  then have "ri_state (inspect_recovery H ck u') = FULLY_REPLACED_AWAITING_AUDIT"
    unfolding inspect_loaded [OF l'] by (simp add: overall_state_def)
  moreover have "\<forall>t\<in>set (intent_targets i). postimage_holds H u' t"
    using done1 plan_static [OF vs(3)] at_postimage_holds unfolding vs(5) [symmetric] by auto
  ultimately show ?thesis using run elsewhere_trans [OF u(3) el(1)] by blast
qed

text \<open>The temporary names a rollback would use are free.\<close>

definition scratch_free :: "(string \<Rightarrow> string) \<Rightarrow> intent_record \<Rightarrow> world \<Rightarrow> bool" where
  "scratch_free ck i w \<longleftrightarrow>
     (case validated_intent_paths ck i w of Inl _ \<Rightarrow> True | Inr vs \<Rightarrow> list_all (\<lambda>v. scratch_ready v w) vs)"

text \<open>
  C9: Crash consistency, the other way. After any such history an undisturbed \<open>rollback_recovery\<close>
  under the lock succeeds as well: every target is back at its preimage, no other canonical file has
  changed, and the intent is still there for the audit.
\<close>

theorem recovery_undoes:
  assumes "in_flight H ck i w" "no_edits w" "sessions H ck i w u" "quiet l None u" "0 < n"
    and "scratch_free ck i u"
  shows "\<exists>u'. rollback_recovery H ck n l i u = (Inr i, u')
     \<and> (\<forall>t\<in>set (intent_targets i). preimage_holds H u' t)
     \<and> in_flight H ck i u' \<and> elsewhere_same i w u'"
proof -
  have u: "in_flight H ck i u" "no_edits u" "elsewhere_same i w u"
    using sessions_keep [OF assms(3,1,2)] by auto
  obtain vs where vs: "load_intent ck u = Inr i" "validated_intent_paths ck i u = Inr vs" "plan_ok vs"
    "vs \<noteq> []" "map vt_intent vs = intent_targets i" "\<forall>v\<in>set vs. recoverable H v u"
    using u(1) by (rule in_flight_plan)
  let ?s = "session_of H n l None vs"
  have inv: "session_inv ?s u" using vs u(2) by (simp add: session_inv_def session_of_def)
  have it: "set (rev vs) \<subseteq> session_items ?s" by (simp add: session_items_def session_of_def)
  have calm: "session_calm ?s u" using assms(4,5) by (simp add: session_calm_def session_of_def)
  have dist: "distinct (rev vs)" using plan_distinct [OF vs(3)] by simp
  have ready: "\<forall>v\<in>set (rev vs). scratch_ready v u"
    using assms(6) vs(2) by (simp add: scratch_free_def list_all_iff)
  obtain u' where u': "for_each (rollback_step ?s) (rev vs) u = (Inr (), u')"
    using rolling_back.run_live [OF it dist inv calm ready] by auto
  have done1: "\<forall>v\<in>set vs. at_preimage H v u'"
    using rolling_back.run_finishes [OF it dist inv u'] by (simp add: session_of_def)
  have lock: "verify_lock l None u = Inr ()" "activate l None u = Inr ()"
    using assms(4) by (auto simp: verify_lock_iff quiet_def activate_def holds_lock_def)
  then have act: "rollback_validated H n l None vs u = (Inr (), u')"
    using u' by (simp add: rollback_validated_eq [OF vs(6)] and_then_def lift_def)
  then have run: "rollback_recovery H ck n l i u = (Inr i, u')"
    using vs(1,2) lock by (simp add: rollback_recovery_def with_durable_intent_def Let_def and_then_def
        lift_def check_def ret_def)
  then have "run_mover H ck Rollback_recovery n l i u = (Inr i, u')" by simp
  note keep = mover_keeps [OF u(1,2) this]
  have "\<forall>t\<in>set (intent_targets i). preimage_holds H u' t"
    using done1 plan_static [OF vs(3)] at_preimage_holds unfolding vs(5) [symmetric] by auto
  then show ?thesis using run keep elsewhere_trans [OF u(3)] by blast
qed

text \<open>
  C10: A target that is at neither recorded image is never overwritten: when the inspection reports a
  conflict, every mover fails and leaves the whole state as it was.
\<close>

theorem conflict_refused:
  assumes "ri_state (inspect_recovery H ck w) = RECOVERY_CONFLICT"
  shows "\<exists>e. run_mover H ck m n l i w = (Inl e, w)"
  using assms by (rule mover_refuses)


section \<open>An example\<close>

text \<open>A transaction in flight on a small context: one file is to be replaced.\<close>

definition example_hash :: "content \<Rightarrow> hash" where
  "example_hash c = ''sha256:'' @ replicate 64
     (if c = Bytes ''old'' then CHR ''a'' else if c = Bytes ''new'' then CHR ''b'' else CHR ''c'')"

definition example_dir :: string where
  "example_dir = ''txn-'' @ replicate 24 (CHR ''0'')"

definition example_asset :: "string \<Rightarrow> string" where
  "example_asset name = ''98_state/staging/transactions/'' @ example_dir @ ''/'' @ name"

definition example_intent :: intent_record where
  "example_intent = \<lparr>intent_schema_version = 1, intent_transaction_id = ''t1'',
     intent_nonce = replicate 32 (CHR ''1''),
     intent_targets =
       [\<lparr>it_target = ''03_work/t.md'', it_staged = Some (example_asset ''00000000.stage''),
         it_content_hash = Some (example_hash (Bytes ''new'')),
         it_backup = Some (example_asset ''00000000.backup''),
         it_preimage_hash = Some (example_hash (Bytes ''old'')),
         it_kind = REPLACE, it_destination = None\<rparr>]\<rparr>"

text \<open>The files outside the first target, and the two states that target goes through.\<close>

definition example_base :: "(fpath \<times> node) list" where
  "example_base =
     [([''98_state''], Dir), (staging_root, Dir), (transactions_root, Dir),
      (transactions_root @ [example_dir], Dir), ([''03_work''], Dir),
      (intent_path, File (Document (intent_to_dict example_intent))),
      ([''03_work'', ''u.md''], File (Bytes ''x'')),
      (transactions_root @ [example_dir, ''00000000.backup''], File (Bytes ''old''))]"

definition example_started :: "(fpath \<times> node) list" where
  "example_started =
     ([''03_work'', ''t.md''], File (Bytes ''old'')) #
     (transactions_root @ [example_dir, ''00000000.stage''], File (Bytes ''new'')) # example_base"

definition example_halfway :: "(fpath \<times> node) list" where
  "example_halfway = ([''03_work'', ''t.md''], File (Bytes ''new'')) # example_base"

definition example_edited :: "(fpath \<times> node) list" where
  "example_edited = ([''03_work'', ''t.md''], File (Bytes ''edited'')) # example_base"

definition example_world :: "(fpath \<times> node) list \<Rightarrow> event list \<Rightarrow> world" where
  "example_world files evs = \<lparr>nodes = map_of files, disk_nonce = Some (replicate 32 (CHR ''1'')),
     world_context = ''ctx'', events = evs, tokens = [''a'', ''b'']\<rparr>"

definition example_lease :: lease where
  "example_lease = \<lparr>lease_context = ''ctx'', lease_nonce = replicate 32 (CHR ''1''),
     lease_released = False\<rparr>"

lemma no_edits_code [code]:
  "no_edits w \<longleftrightarrow> list_all (\<lambda>ev. case ev of Edit _ _ \<Rightarrow> False | _ \<Rightarrow> True) (events w)"
  by (auto simp: no_edits_def list_all_iff split: event.splits)

lemma holds_lock_code [code]:
  "holds_lock l expected w \<longleftrightarrow>
     lease_context l = world_context w \<and> \<not> lease_released l \<and> disk_nonce w = Some (lease_nonce l)
     \<and> (case expected of None \<Rightarrow> True | Some e \<Rightarrow> e = lease_nonce l)"
  by (auto simp: holds_lock_def split: option.splits)

lemma scratch_ready_code [code]:
  "scratch_ready v w \<longleftrightarrow>
     (case vt_backup v of None \<Rightarrow> True | Some b \<Rightarrow> nodes w (rollback_path b) \<noteq> Some Dir)
     \<and> (case vt_staged v of None \<Rightarrow> True
        | Some sp \<Rightarrow> list_all (\<lambda>token. nodes w (rebuild_path sp token) = None) ([] # tokens w))"
  by (auto simp: scratch_ready_def list_all_iff split: option.splits)

lemma example_calm: "no_edits (example_world files [])" "quiet example_lease None (example_world files [])"
  by (simp_all add: no_edits_def quiet_def holds_lock_def example_world_def example_lease_def)

definition inspected_as :: "intent_record \<Rightarrow> recovery_state \<Rightarrow> recovery_inspection \<Rightarrow> bool" where
  "inspected_as i s r \<longleftrightarrow> ri_intent r = Some i \<and> ri_state r = s"

lemma example_inspected:
  "inspected_as example_intent PREPARED
     (inspect_recovery example_hash id (example_world example_started []))"
  by code_simp

lemma example_in_flight:
  "in_flight example_hash id example_intent (example_world example_started [])"
proof -
  have "marker_free example_intent"
    by (simp add: marker_free_def example_intent_def unmarked_def target_strings_def path_of_def)
  then show ?thesis
    using example_inspected by (simp add: in_flight_def inspected_as_def)
qed

text \<open>An apply is denied a rename, resumes, and dies at a later one; a new process takes the lock.\<close>

definition example_crashed :: world where
  "example_crashed = (example_world example_started [])\<lparr>nodes :=
     nodes (snd (apply_intent example_hash id 2 example_lease example_intent
       (example_world example_started [Deny, Go, Crash 0])))\<rparr>"

lemma example_session:
  "sessions example_hash id example_intent (example_world example_started []) example_crashed"
proof -
  let ?v = "example_world example_started [Deny, Go, Crash 0]"
  let ?m = "apply_intent example_hash id 2 example_lease example_intent ?v"
  have run: "run_mover example_hash id Apply 2 example_lease example_intent ?v = (fst ?m, snd ?m)"
    by simp
  have ne: "no_edits ?v" by (simp add: example_world_def no_edits_def)
  have v: "sessions example_hash id example_intent (example_world example_started []) ?v"
    by (rule sessions.restart [OF sessions.start _ _ ne]) (simp_all add: example_world_def)
  note fl = conjunct1 [OF sessions_keep [OF v example_in_flight example_calm(1)]]
  have "world_context (snd ?m) = world_context ?v"
    using mover_keeps [OF fl ne run] by blast
  then show ?thesis
    by (intro sessions.restart [OF sessions.run [OF v run]])
      (simp_all add: example_crashed_def example_world_def no_edits_def)
qed

theorem recovery_completes_witness:
  "\<exists>u'. complete_recovery example_hash id 2 example_lease example_intent example_crashed
       = (Inr example_intent, u')
     \<and> ri_state (inspect_recovery example_hash id u') = FULLY_REPLACED_AWAITING_AUDIT"
proof -
  have "quiet example_lease None example_crashed"
    using example_calm(2) by (simp add: quiet_def holds_lock_def example_crashed_def)
  then show ?thesis
    using recovery_completes [OF example_in_flight example_calm(1) example_session, of example_lease 2]
    by auto
qed

theorem recovery_undoes_witness:
  "\<exists>u'. rollback_recovery example_hash id 2 example_lease example_intent (example_world example_started [])
       = (Inr example_intent, u')
     \<and> in_flight example_hash id example_intent u'"
proof -
  have "scratch_free id example_intent (example_world example_started [])" by code_simp
  then show ?thesis
    using recovery_undoes [OF example_in_flight example_calm(1) sessions.start example_calm(2), of 2]
    by auto
qed

theorem conflict_refused_witness:
  "\<exists>e. apply_intent example_hash id 2 example_lease example_intent (example_world example_edited [])
     = (Inl e, example_world example_edited [])"
proof -
  have "ri_state (inspect_recovery example_hash id (example_world example_edited [])) = RECOVERY_CONFLICT"
    by code_simp
  then show ?thesis
    using conflict_refused [of example_hash id "example_world example_edited []" Apply 2 example_lease
        example_intent] by simp
qed


end
