(* ===== verification/Prepare.thy ===== *)
theory Prepare
  imports StagingPrepare Sessions
begin

text \<open>
  What starting a transaction and appending a line may change. The first part is a small calculus of
  what an action leaves alone, one rule per system call and per combinator; the second applies it to
  \<open>prepare\<close> and to \<open>atomic_append_line_bytes\<close>.
\<close>

named_theorems spares_intros \<open>rules that show what an action leaves alone\<close>

section \<open>What an action leaves alone\<close>

text \<open>Without edits from outside, the action changes no path in \<open>Q\<close>, whatever its outcome.\<close>

definition spares :: "(fpath \<Rightarrow> bool) \<Rightarrow> 'a action \<Rightarrow> bool" where
  "spares Q m \<longleftrightarrow>
     (\<forall>w r w'. no_edits w \<longrightarrow> m w = (r, w') \<longrightarrow> no_edits w' \<and> (\<forall>p. Q p \<longrightarrow> nodes w' p = nodes w p))"

lemma sparesI:
  assumes "\<And>w r w'. no_edits w \<Longrightarrow> m w = (r, w') \<Longrightarrow> no_edits w' \<and> (\<forall>p. Q p \<longrightarrow> nodes w' p = nodes w p)"
  shows "spares Q m"
  using assms by (simp add: spares_def)

lemma sparesD:
  assumes "spares Q m" "no_edits w" "m w = (r, w')"
  shows "no_edits w'" "Q p \<Longrightarrow> nodes w' p = nodes w p"
  using assms by (auto simp: spares_def)

lemma spares_weaken: "spares Q m \<Longrightarrow> (\<And>p. R p \<Longrightarrow> Q p) \<Longrightarrow> spares R m"
  unfolding spares_def by blast

lemma spares_basic [spares_intros]:
  "spares Q (ret x)" "spares Q (fail e)" "spares Q (lift f)" "spares Q (check b e)"
  "spares Q (\<lambda>w. check (g w) e w)" "spares Q next_token"
  by (auto simp: spares_def ret_def fail_def lift_def check_def next_token_def no_edits_def
      split: list.splits)

lemma spares_next_event [spares_intros]: "spares Q next_event"
proof (rule sparesI)
  fix w r w'
  assume w: "no_edits w" "next_event w = (r, w')"
  have "frame {} w w'" using next_event_frame [OF w(2,1)] by auto
  then show "no_edits w' \<and> (\<forall>p. Q p \<longrightarrow> nodes w' p = nodes w p)"
    using frame_no_edits [OF _ w(1)] frame_nodes by auto
qed

lemma spares_and_then [spares_intros]:
  assumes "spares Q m" "\<And>x. spares Q (k x)"
  shows "spares Q (and_then m k)"
proof (rule sparesI)
  fix w r w'
  assume w: "no_edits w" "and_then m k w = (r, w')"
  from w(2) show "no_edits w' \<and> (\<forall>p. Q p \<longrightarrow> nodes w' p = nodes w p)"
  proof (cases rule: and_then_cases)
    case (fails e)
    then show ?thesis using sparesD [OF assms(1) w(1)] by auto
  next
    case (passes x v)
    then show ?thesis using sparesD [OF assms(1) w(1) passes(1)] sparesD [OF assms(2)] by metis
  qed
qed

lemma spares_lift:
  assumes "\<And>x w. f w = Inr x \<Longrightarrow> spares Q (k x)"
  shows "spares Q (and_then (lift f) k)"
proof (rule sparesI)
  fix w r w'
  assume w: "no_edits w" "and_then (lift f) k w = (r, w')"
  from w(2) show "no_edits w' \<and> (\<forall>p. Q p \<longrightarrow> nodes w' p = nodes w p)"
  proof (cases rule: and_then_cases)
    case (passes x v)
    then have "f w = Inr x" "v = w" by (auto simp: lift_def)
    then show ?thesis using sparesD [OF assms w(1)] passes(2) by metis
  qed (use w(1) in \<open>auto simp: lift_def\<close>)
qed

lemma spares_for_each [spares_intros]: "(\<And>x. x \<in> set xs \<Longrightarrow> spares Q (f x)) \<Longrightarrow> spares Q (for_each f xs)"
  by (induction xs) (auto intro: spares_intros)

lemma spares_finally [spares_intros]:
  assumes "spares Q m" "spares Q c"
  shows "spares Q (finally_do m c)"
proof (rule sparesI)
  fix w r w'
  assume w: "no_edits w" "finally_do m c w = (r, w')"
  obtain q v where v: "m w = (q, v)" by fastforce
  note mv = sparesD [OF assms(1) w(1) v]
  have "w' = v \<or> (\<exists>s. c v = (s, w'))"
    using w(2) v by (auto simp: finally_do_def split: sum.splits prod.splits exn.splits)
  then show "no_edits w' \<and> (\<forall>p. Q p \<longrightarrow> nodes w' p = nodes w p)"
    using mv sparesD [OF assms(2) mv(1)] by metis
qed

lemma spares_sys_call:
  assumes "spares Q op"
  shows "spares Q (sys_call op)"
  unfolding sys_call_def by (intro spares_and_then spares_next_event) (auto intro: assms spares_intros)

lemma spares_unlink [spares_intros]: "\<not> Q p \<Longrightarrow> spares Q (unlink_if_present p)"
  unfolding unlink_if_present_def
  by (intro spares_sys_call) (auto simp: spares_def remove_file_def no_edits_def split: if_splits)

lemma spares_make_dir [spares_intros]:
  "\<not> Q p \<Longrightarrow> spares Q (make_dir p)" "\<not> Q p \<Longrightarrow> spares Q (make_dir_or_existing p)"
  unfolding make_dir_def make_dir_or_existing_def
  by (intro spares_sys_call; auto simp: spares_def no_edits_def split: if_splits)+

lemma spares_make_dir_exist_ok [spares_intros]: "\<not> Q p \<Longrightarrow> spares Q (make_dir_exist_ok p)"
  using spares_make_dir(1) [of Q p] by (auto simp: spares_def make_dir_exist_ok_def)

lemma spares_remove_directory [spares_intros]:
  assumes "\<And>p. prefix d p \<Longrightarrow> \<not> Q p"
  shows "spares Q (remove_owned_directory d)"
proof -
  have "spares Q (sys_call (\<lambda>w. (Inr (), remove_tree d w)))"
    using assms by (intro spares_sys_call) (auto simp: spares_def remove_tree_def no_edits_def)
  then show ?thesis by (auto simp: spares_def remove_owned_directory_def)
qed

lemma spares_write [spares_intros]:
  assumes "\<not> Q p"
  shows "spares Q (write_fsynced ex p c)"
proof -
  let ?put = "\<lambda>ev. if ev = Deny then fail Os_error else (\<lambda>w. (Inr (), put_file p c w))"
  have goes: "spares Q (and_then next_event ?put)"
    by (intro spares_and_then spares_next_event)
      (use assms in \<open>auto simp: spares_def fail_def put_file_def no_edits_def\<close>)
  show ?thesis
  proof (rule sparesI)
    fix w r w'
    assume w: "no_edits w" "write_fsynced ex p c w = (r, w')"
    have "w' = w \<or> and_then next_event ?put w = (r, w')
        \<or> (\<exists>k rest c'. events w = Crash k # rest
             \<and> (w' = w\<lparr>events := rest\<rparr> \<or> w' = put_file p c' (w\<lparr>events := rest\<rparr>)))"
      using w(2) by (auto simp: write_fsynced_def split: list.splits event.splits if_splits)
    then show "no_edits w' \<and> (\<forall>q. Q q \<longrightarrow> nodes w' q = nodes w q)"
    proof (elim disjE exE conjE)
      assume "and_then next_event ?put w = (r, w')"
      then show ?thesis using sparesD [OF goes w(1)] by blast
    qed (use w(1) assms in \<open>auto simp: no_edits_def put_file_def\<close>)
  qed
qed

lemma spares_replace [spares_intros]:
  assumes "\<not> Q src" "\<not> Q dst"
  shows "spares Q (replace_retry n chk src dst)"
proof (rule sparesI)
  fix w r w'
  assume w: "no_edits w" "replace_retry n chk src dst w = (r, w')"
  note o = replace_retry_outcome [OF w(2,1)]
  show "no_edits w' \<and> (\<forall>p. Q p \<longrightarrow> nodes w' p = nodes w p)"
  proof (cases r)
    case (Inl e)
    then show ?thesis using o frame_no_edits [OF _ w(1)] by auto
  next
    case (Inr u)
    then obtain v where v: "nodes v = nodes w" "frame {} w v" "os_replace src dst v = (Inr (), w')"
      using o by auto
    then show ?thesis
      using assms frame_no_edits [OF v(2) w(1)] by (auto simp: os_replace_Inr no_edits_def)
  qed
qed

lemma spares_unless_published [spares_intros]:
  assumes "spares Q m" "\<And>p. prefix d p \<Longrightarrow> \<not> Q p"
  shows "spares Q (unless_published m d)"
proof (rule sparesI)
  fix w r w'
  assume w: "no_edits w" "unless_published m d w = (r, w')"
  obtain q v where v: "m w = (q, v)" by fastforce
  note mv = sparesD [OF assms(1) w(1) v]
  have "w' = v \<or> (\<exists>s. remove_owned_directory d v = (s, w'))"
    using w(2) v by (auto simp: unless_published_def split: sum.splits prod.splits if_splits)
  then show "no_edits w' \<and> (\<forall>p. Q p \<longrightarrow> nodes w' p = nodes w p)"
    using mv sparesD [OF spares_remove_directory [of d Q, OF assms(2)] mv(1)] by metis
qed
section \<open>Prepare\<close>

lemma state_path: "outside_state (''98_state'' # p) = False"
  by (simp add: outside_state_def)

lemma state_roots [simp]:
  "\<not> outside_state [''98_state'']" "\<not> outside_state (staging_root @ p)" "\<not> outside_state staging_root"
  "\<not> outside_state (transactions_root @ p)" "\<not> outside_state transactions_root"
  "\<not> outside_state intent_path"
  by (simp_all add: outside_state_def staging_root_def transactions_root_def intent_path_def)

lemma state_below: "\<not> outside_state d \<Longrightarrow> d \<noteq> [] \<Longrightarrow> prefix d p \<Longrightarrow> \<not> outside_state p"
  by (auto simp: outside_state_def prefix_def)

lemma transaction_dir_below:
  assumes "resolve_staging_path raw w = Inr d"
  shows "\<exists>rest. d = transactions_root @ rest"
proof -
  have r: "portable_parts raw = Inr d" "allowed_location [transactions_zone] [] d"
    using assms by (auto simp: resolve_staging_path_def resolve_context_path_Inr)
  note s = split_posix [OF r(1)]
  have base: "split_on CHR ''/'' transactions_zone = transactions_root"
    by (simp add: transactions_zone_def transactions_root_def staging_root_def)
  have "as_posix d = transactions_zone \<or> prefix (transactions_zone @ ''/'') (as_posix d)"
    using r(2) by (simp add: allowed_location_def in_zone_def)
  then show ?thesis
  proof
    assume "as_posix d = transactions_zone"
    then have "d = transactions_root" using s base by simp
    then show ?thesis by simp
  next
    assume "prefix (transactions_zone @ ''/'') (as_posix d)"
    then obtain rest where "as_posix d = transactions_zone @ CHR ''/'' # rest"
      by (auto simp: prefix_def)
    then have "d = ''98_state'' # ''staging'' # ''transactions'' # split_on CHR ''/'' rest"
      using s split_on_append [of "CHR ''/''" "''98_state''"] split_on_append [of "CHR ''/''" "''staging''"]
        split_on_append [of "CHR ''/''" "''transactions''"]
      by (simp add: transactions_zone_def)
    then show ?thesis by (simp add: transactions_root_def staging_root_def)
  qed
qed

lemma spares_runtime_directories [spares_intros]:
  assumes "\<And>p. Q p \<Longrightarrow> outside_state p"
  shows "spares Q ensure_runtime_directories"
proof -
  have "\<not> Q [''98_state'']" "\<not> Q staging_root" "\<not> Q transactions_root" using assms state_roots by blast+
  then show ?thesis
    unfolding ensure_runtime_directories_def ensure_runtime_directory_def
    by (intro spares_intros) auto
qed

lemma spares_prepare_targets:
  "spares outside_state (prepare_targets H (transactions_root @ rest) k rs)"
proof (induction rs arbitrary: k)
  case (Cons r rs)
  have "spares outside_state (prepare_target H (transactions_root @ rest) k r)"
    unfolding prepare_target_def copy_optional_def backup_file_def stage_file_def
    by (intro spares_intros) (auto intro!: spares_intros split: option.splits target_kind.splits)
  then show ?case using Cons.IH by (auto intro!: spares_intros)
qed (auto intro: spares_intros)

lemma spares_publish: "spares outside_state (publish_intent n (transactions_root @ rest) i)"
  unfolding publish_intent_def Let_def by (intro spares_intros) auto

lemma spares_prepare_in: "spares outside_state (prepare_in H n l tid nonce rs (transactions_root @ rest))"
proof -
  have below: "\<And>p. prefix (transactions_root @ rest) p \<Longrightarrow> \<not> outside_state p"
    by (auto simp: outside_state_def prefix_def transactions_root_def staging_root_def)
  show ?thesis
    unfolding prepare_in_def Let_def
    by (intro spares_intros spares_prepare_targets spares_publish below) auto
qed

lemma spares_located:
  "spares outside_state (and_then (lift (resolve_staging_path raw)) (\<lambda>d. prepare_in H n l tid nonce rs d))"
  by (rule spares_lift) (auto dest!: transaction_dir_below intro: spares_prepare_in)

lemma spares_prepare: "spares outside_state (prepare H ck n l tid nonce ops)"
  unfolding prepare_def
  by (rule spares_located spares_basic spares_runtime_directories spares_and_then | assumption)+

text \<open>
  C13: Preparing a transaction leaves every file outside \<open>98_state\<close> as it was, whether it succeeds,
  is refused, is denied a system call or dies at any point.
\<close>

theorem prepare_spares_canonical:
  assumes "no_edits w" "prepare H ck n l tid nonce ops w = (r, w')" "outside_state p"
  shows "nodes w' p = nodes w p"
  using sparesD(2) [OF spares_prepare assms(1,2)] assms(3) .

section \<open>Appending a line\<close>

text \<open>The action takes the file at \<open>p\<close> from \<open>c\<close> to \<open>c'\<close> in one step: at every outcome the file is
  at one of the two, and at \<open>c'\<close> when the action returns.\<close>

definition moves :: "fpath \<Rightarrow> node option \<Rightarrow> node option \<Rightarrow> unit action \<Rightarrow> bool" where
  "moves p c c' m \<longleftrightarrow>
     (\<forall>w r w'. no_edits w \<longrightarrow> nodes w p = c \<longrightarrow> m w = (r, w') \<longrightarrow>
        no_edits w' \<and> (nodes w' p = c \<or> nodes w' p = c') \<and> (r = Inr () \<longrightarrow> nodes w' p = c'))"

lemma movesD:
  assumes "moves p c c' m" "no_edits w" "nodes w p = c" "m w = (r, w')"
  shows "no_edits w'" "nodes w' p = c \<or> nodes w' p = c'" "r = Inr () \<Longrightarrow> nodes w' p = c'"
  using assms unfolding moves_def by blast+

lemma moves_after:
  assumes "spares (\<lambda>q. q = p) m" "\<And>x. moves p c c' (k x)"
  shows "moves p c c' (and_then m k)"
  unfolding moves_def
proof (intro allI impI)
  fix w r w'
  assume w: "no_edits w" "nodes w p = c" "and_then m k w = (r, w')"
  from w(3) show "no_edits w' \<and> (nodes w' p = c \<or> nodes w' p = c') \<and> (r = Inr () \<longrightarrow> nodes w' p = c')"
  proof (cases rule: and_then_cases)
    case (fails e)
    then show ?thesis using sparesD [OF assms(1) w(1)] w(2) by auto
  next
    case (passes x v)
    then have v: "no_edits v" "nodes v p = c" using sparesD [OF assms(1) w(1) passes(1)] w(2) by auto
    show ?thesis using movesD [OF assms(2) v passes(2)] by simp
  qed
qed

lemma moves_lift:
  assumes "\<And>x w. f w = Inr x \<Longrightarrow> nodes w p = c \<Longrightarrow> moves p c c' (k x)"
  shows "moves p c c' (and_then (lift f) k)"
  unfolding moves_def
proof (intro allI impI)
  fix w r w'
  assume w: "no_edits w" "nodes w p = c" "and_then (lift f) k w = (r, w')"
  from w(3) show "no_edits w' \<and> (nodes w' p = c \<or> nodes w' p = c') \<and> (r = Inr () \<longrightarrow> nodes w' p = c')"
  proof (cases rule: and_then_cases)
    case (passes x v)
    then have x: "f w = Inr x" and v: "v = w" by (auto simp: lift_def)
    show ?thesis using movesD [OF assms [OF x w(2)] w(1,2)] passes(2) v by simp
  qed (use w in \<open>auto simp: lift_def\<close>)
qed

lemma moves_finally:
  assumes "moves p c c' m" "spares (\<lambda>q. q = p) cl"
  shows "moves p c c' (finally_do m cl)"
  unfolding moves_def
proof (intro allI impI)
  fix w r w'
  assume w: "no_edits w" "nodes w p = c" "finally_do m cl w = (r, w')"
  obtain q v where v: "m w = (q, v)" by fastforce
  note mv = movesD [OF assms(1) w(1,2) v]
  have "(w' = v \<and> r = q) \<or> (\<exists>s. cl v = (s, w') \<and> (r = Inr () \<longrightarrow> q = Inr ()))"
    using w(3) v by (auto simp: finally_do_def split: sum.splits prod.splits exn.splits)
  then show "no_edits w' \<and> (nodes w' p = c \<or> nodes w' p = c') \<and> (r = Inr () \<longrightarrow> nodes w' p = c')"
    using mv sparesD [OF assms(2) mv(1)] by metis
qed

lemma publish_moves:
  assumes "temp \<noteq> p" "plain_path temp"
  shows "moves p c (Some (File new))
    (and_then (write_fsynced True temp new) (\<lambda>_. and_then (lift chk) (\<lambda>_. replace_retry n before temp p)))"
  unfolding moves_def
proof (intro allI impI)
  fix w r w'
  assume w: "no_edits w" "nodes w p = c"
    and run: "and_then (write_fsynced True temp new) (\<lambda>_.
      and_then (lift chk) (\<lambda>_. replace_retry n before temp p)) w = (r, w')"
  have sp: "spares (\<lambda>q. q = p) (write_fsynced True temp new)" using assms by (intro spares_intros) simp
  from run show "no_edits w' \<and> (nodes w' p = c \<or> nodes w' p = Some (File new))
      \<and> (r = Inr () \<longrightarrow> nodes w' p = Some (File new))"
  proof (cases rule: and_then_cases)
    case (fails e)
    then show ?thesis using sparesD [OF sp w(1)] w(2) by auto
  next
    case (passes u v)
    have v: "no_edits v" "nodes v p = c" "nodes v temp = Some (File new)"
      using sparesD [OF sp w(1) passes(1)] w(2) write_fsynced_cases(2) [OF passes(1) w(1) assms(2)]
      by auto
    from passes(2) show ?thesis
    proof (cases rule: and_then_cases)
      case (fails e)
      then show ?thesis using v by (auto simp: lift_def)
    next
      case (passes u' v')
      then have rr: "replace_retry n before temp p v = (r, w')" by (auto simp: lift_def)
      note o = replace_retry_outcome [OF rr v(1)]
      show ?thesis
      proof (cases r)
        case (Inl e)
        then show ?thesis using o v frame_no_edits by auto
      next
        case (Inr u)
        then obtain z where z: "nodes z = nodes v" "frame {} v z" "os_replace temp p z = (Inr (), w')"
          using o by auto
        then show ?thesis
          using v(3) frame_no_edits [OF z(2) v(1)] by (auto simp: os_replace_Inr no_edits_def)
      qed
    qed
  qed
qed

definition file_bytes :: "(json \<Rightarrow> bytes) \<Rightarrow> node option \<Rightarrow> bytes" where
  "file_bytes enc c = (case c of Some (File d) \<Rightarrow> content_bytes enc d | _ \<Rightarrow> [])"

lemma resolve_target_parts: "resolve_target target w = Inr p \<Longrightarrow> portable_parts target = Inr p"
  by (simp add: resolve_target_def resolve_context_path_Inr)

lemma spares_either:
  assumes "spares Q a" "spares Q b" "\<And>w. m w = a w \<or> m w = b w"
  shows "spares Q m"
proof (rule sparesI)
  fix w r w'
  assume "no_edits w" "m w = (r, w')"
  then show "no_edits w' \<and> (\<forall>p. Q p \<longrightarrow> nodes w' p = nodes w p)"
    using assms(3) [of w] sparesD [OF assms(1), of w r w'] sparesD [OF assms(2), of w r w'] by auto
qed

lemma spares_parent_directories:
  assumes "\<And>k. k < length p \<Longrightarrow> \<not> Q (take k p)"
  shows "spares Q (ensure_target_parent_directories l expected p)"
proof -
  have "spares Q (ensure_target_parent l expected d)" if "\<not> Q d" for d
  proof -
    have dec: "ensure_target_parent l expected d w =
        (if path_exists w d
         then and_then (ret ()) (\<lambda>_. and_then (lift (require_plain_directory d)) (\<lambda>_. lift (reject_nested_context_marker d))) w
         else and_then (and_then (lift (verify_lock l expected)) (\<lambda>_. make_dir_or_existing d)) (\<lambda>_.
           and_then (lift (require_plain_directory d)) (\<lambda>_. lift (reject_nested_context_marker d))) w)" for w
      by (simp add: ensure_target_parent_def)
    have "spares Q (and_then (ret ()) (\<lambda>_. and_then (lift (require_plain_directory d)) (\<lambda>_. lift (reject_nested_context_marker d))))"
      (is "spares Q ?a")
      by (intro spares_intros)
    moreover have "spares Q (and_then (and_then (lift (verify_lock l expected)) (\<lambda>_. make_dir_or_existing d)) (\<lambda>_.
           and_then (lift (require_plain_directory d)) (\<lambda>_. lift (reject_nested_context_marker d))))"
      (is "spares Q ?b")
      using that by (intro spares_intros)
    ultimately show ?thesis by (rule spares_either) (simp add: dec)
  qed
  then show ?thesis
    unfolding ensure_target_parent_directories_def using assms by (intro spares_for_each) auto
qed

lemma plain_stage: "plain_path (staging_root @ [x @ ''.stage''])"
proof -
  have "x @ ''.stage'' \<noteq> ''context.yaml''" by (auto dest: arg_cong [of _ _ last])
  then show ?thesis by (auto simp: plain_path_def marker_def staging_root_def)
qed

lemma publish_line_moves:
  assumes "outside_state p"
  shows "moves p c (Some (File (Bytes (old @ line)))) (publish_line H n l expected p old th line)"
  unfolding publish_line_def Let_def
proof (rule moves_after [OF spares_basic(4)], rule moves_after [OF spares_basic(6)],
    rule moves_finally, rule moves_after [OF spares_basic(3)], rule publish_moves)
  fix token :: string
  let ?t = "staging_root @ [''append-'' @ token @ ''.stage'']"
  show "?t \<noteq> p" using assms by auto
  show "plain_path ?t" using plain_stage [of "''append-'' @ token"] by simp
  show "spares (\<lambda>q. q = p) (unlink_if_present ?t)" using assms by (intro spares_unlink) auto
qed

lemma append_line_moves:
  assumes "outside_state p"
  shows "moves p c (Some (File (Bytes (file_bytes enc c @ line)))) (append_line H ck enc n l expected p line)"
proof -
  have dirs: "spares (\<lambda>q. q = p) ensure_runtime_directories"
    "spares (\<lambda>q. q = p) (ensure_target_parent_directories l expected p)"
    using assms by (auto intro!: spares_runtime_directories spares_parent_directories)
  have read: "(case pre of None \<Rightarrow> [] | Some d \<Rightarrow> content_bytes enc d) = file_bytes enc c"
    if "read_optional p v = Inr pre" "nodes v p = c" for pre v
    using that by (auto simp: read_optional_def file_bytes_def result_simps split: option.splits node.splits)
  show ?thesis
    unfolding append_line_def
    by (rule moves_after [OF spares_basic(3)], rule moves_after [OF spares_basic(3)],
        rule moves_after [OF dirs(1)], rule moves_after [OF dirs(2)], rule moves_after [OF spares_basic(3)],
        rule moves_lift) (simp only: read publish_line_moves [OF assms])
qed

lemma append_moves:
  assumes "portable_parts target = Inr p" "outside_state p"
  shows "moves p c (Some (File (Bytes (file_bytes enc c @ line))))
    (atomic_append_line_bytes H ck enc n l nonce target line)"
  unfolding atomic_append_line_bytes_def
  by (rule moves_after [OF spares_basic(4)], rule moves_after [OF spares_basic(4)], rule moves_lift)
    (use assms in \<open>auto dest!: resolve_target_parts intro!: append_line_moves\<close>)

lemma append_spares:
  assumes "portable_parts target = Inr p"
  shows "spares (\<lambda>q. outside_state q \<and> \<not> prefix q p)
    (atomic_append_line_bytes H ck enc n l nonce target line)"
proof -
  let ?Q = "\<lambda>q. outside_state q \<and> \<not> prefix q p"
  have dirs: "spares ?Q ensure_runtime_directories" "spares ?Q (ensure_target_parent_directories l e p)" for e
    by (auto intro!: spares_runtime_directories spares_parent_directories take_is_prefix)
  have "spares ?Q (publish_line H n l e p old th line)" for e old th
    unfolding publish_line_def Let_def by (intro spares_intros) auto
  then have "spares ?Q (append_line H ck enc n l (Some nonce) p line)"
    unfolding append_line_def by (intro spares_and_then spares_basic dirs)
  then show ?thesis
    unfolding atomic_append_line_bytes_def using assms
    by (intro spares_and_then [OF spares_basic(4)] spares_lift) (auto dest!: resolve_target_parts)
qed

text \<open>
  C12: Appending is atomic. When the target resolves to \<open>p\<close>, then at every outcome, a crash
  included, \<open>p\<close> holds what it held or that followed by the whole line; it holds the latter when the
  call returns; and no other canonical path is touched except the directories above \<open>p\<close>.
\<close>

theorem append_atomic:
  assumes "no_edits w" "resolve_target target w = Inr p"
    and "atomic_append_line_bytes H ck enc n l nonce target line w = (r, w')"
  shows "(nodes w' p = nodes w p \<or> nodes w' p = Some (File (Bytes (file_bytes enc (nodes w p) @ line))))
     \<and> (r = Inr () \<longrightarrow> nodes w' p = Some (File (Bytes (file_bytes enc (nodes w p) @ line))))
     \<and> (\<forall>q. outside_state q \<longrightarrow> \<not> prefix q p \<longrightarrow> nodes w' q = nodes w q)"
proof -
  have p: "portable_parts target = Inr p" "outside_state p"
    using assms(2) resolve_target_outside resolve_target_parts by blast+
  note m = movesD [OF append_moves [OF p] assms(1) refl assms(3)]
  show ?thesis
    using m sparesD(2) [OF append_spares [OF p(1)] assms(1,3)] by blast
qed

section \<open>Examples\<close>

theorem prepare_spares_canonical_witness:
  "nodes (snd (prepare example_hash id 2 example_lease ''t2'' (replicate 32 (CHR ''1''))
       [Staged_write ''03_work/t.md'' (Bytes ''new'')] (example_world example_started [Go, Crash 3])))
     [''03_work'', ''t.md''] = Some (File (Bytes ''old''))"
proof -
  let ?w = "example_world example_started [Go, Crash 3]"
  let ?r = "prepare example_hash id 2 example_lease ''t2'' (replicate 32 (CHR ''1''))
       [Staged_write ''03_work/t.md'' (Bytes ''new'')] ?w"
  have "no_edits ?w" by (simp add: no_edits_def example_world_def)
  then have "nodes (snd ?r) [''03_work'', ''t.md''] = nodes ?w [''03_work'', ''t.md'']"
    by (rule prepare_spares_canonical [where r = "fst ?r"]) (simp_all add: outside_state_def)
  then show ?thesis by (simp add: example_world_def example_started_def)
qed

theorem append_atomic_witness:
  "nodes (snd (atomic_append_line_bytes example_hash id (\<lambda>_. []) 2 example_lease (replicate 32 (CHR ''1''))
       ''99_meta/log'' ''x\<newline>'' (example_world [([''99_meta''], Dir)] [Go, Crash 2]))) [''99_meta'', ''log'']
     \<in> {None, Some (File (Bytes ''x\<newline>''))}"
proof -
  let ?w = "example_world [([''99_meta''], Dir)] [Go, Crash 2]"
  let ?r = "atomic_append_line_bytes example_hash id (\<lambda>_. []) 2 example_lease (replicate 32 (CHR ''1''))
       ''99_meta/log'' ''x\<newline>'' ?w"
  have "no_edits ?w" by (simp add: no_edits_def example_world_def)
  moreover have "resolve_target ''99_meta/log'' ?w = Inr [''99_meta'', ''log'']" by code_simp
  moreover have "?r = (fst ?r, snd ?r)" by simp
  ultimately have "nodes (snd ?r) [''99_meta'', ''log''] = nodes ?w [''99_meta'', ''log'']
      \<or> nodes (snd ?r) [''99_meta'', ''log'']
        = Some (File (Bytes (file_bytes (\<lambda>_. []) (nodes ?w [''99_meta'', ''log'']) @ ''x\<newline>'')))"
    using append_atomic by blast
  then show ?thesis by (auto simp: example_world_def file_bytes_def)
qed

end
