(* ===== verification/References.thy ===== *)
theory References
  imports Prelude
begin

text \<open>
  Durable references (\<open>domain/references.py\<close>) and stable identifiers (\<open>domain/ids.py\<close>): the Work
  Context URI, the artifact and repository references, their parsers and printers, and the parser
  that dispatches on the scheme. A parser that raises \<open>ValueError\<close> returns \<open>None\<close>. The parts of
  \<open>urllib.parse\<close> they use are written out; the parameter \<open>hostok\<close> stands for its checks on the
  authority part (bracketed addresses and characters that change under NFKC).
\<close>

section \<open>Percent encoding\<close>

definition code :: "char \<Rightarrow> nat" where
  "code c = of_char c"

definition is_alpha :: "char \<Rightarrow> bool" where
  "is_alpha c \<longleftrightarrow> is_lower c \<or> is_upper c"

definition lower_char :: "char \<Rightarrow> char" where
  "lower_char c =
     (let n = code c in
      if (65 \<le> n \<and> n \<le> 90) \<or> (192 \<le> n \<and> n \<le> 222 \<and> n \<noteq> 215) then char_of (n + 32) else c)"

definition hex_digit :: "nat \<Rightarrow> char" where
  "hex_digit n = char_of (if n < 10 then 48 + n else 55 + n)"

definition hex_value :: "char \<Rightarrow> nat" where
  "hex_value c =
     (let n = code c in if n \<le> 57 then n - 48 else if n \<le> 70 then n - 55 else n - 87)"

definition utf8_char :: "char \<Rightarrow> bytes" where
  "utf8_char c =
     (let n = code c in
      if n < 128 then [c] else [char_of (192 + n div 64), char_of (128 + n mod 64)])"

definition utf8_encode :: "string \<Rightarrow> bytes" where
  "utf8_encode s = concat (map utf8_char s)"

text \<open>Strict decoding; a byte sequence for a code point above 255 has no value in the text model.\<close>

fun utf8_decode :: "bytes \<Rightarrow> string option" where
  "utf8_decode [] = Some []"
| "utf8_decode (b # bs) =
     (if code b < 128 then map_option ((#) b) (utf8_decode bs)
      else if 194 \<le> code b \<and> code b \<le> 195 then
        (case bs of
           [] \<Rightarrow> None
         | c # cs \<Rightarrow>
             if 128 \<le> code c \<and> code c < 192
             then map_option ((#) (char_of ((code b - 192) * 64 + (code c - 128)))) (utf8_decode cs)
             else None)
      else None)"

definition unreserved :: "char \<Rightarrow> bool" where
  "unreserved c \<longleftrightarrow> is_alpha c \<or> is_digit c \<or> c \<in> set ''_.-~''"

definition quote_byte :: "string \<Rightarrow> char \<Rightarrow> string" where
  "quote_byte safe b =
     (if unreserved b \<or> b \<in> set safe then [b]
      else [CHR ''%'', hex_digit (code b div 16), hex_digit (code b mod 16)])"

definition quote :: "string \<Rightarrow> string \<Rightarrow> string" where
  "quote safe s = concat (map (quote_byte safe) (utf8_encode s))"

fun unquote_to_bytes :: "string \<Rightarrow> bytes" where
  "unquote_to_bytes (c # a # b # rest) =
     (if c = CHR ''%'' \<and> is_hex a \<and> is_hex b
      then char_of (16 * hex_value a + hex_value b) # unquote_to_bytes rest
      else c # unquote_to_bytes (a # b # rest))"
| "unquote_to_bytes s = s"

definition is_ascii :: "char \<Rightarrow> bool" where
  "is_ascii c \<longleftrightarrow> code c < 128"

text \<open>\<open>unquote(s, errors="strict")\<close>: every maximal ASCII run is decoded on its own.\<close>

function unquote_runs :: "string \<Rightarrow> string option" where
  "unquote_runs s =
     (if s = [] then Some []
      else if is_ascii (hd s) then
        (case utf8_decode (unquote_to_bytes (takeWhile is_ascii s)) of
           None \<Rightarrow> None
         | Some t \<Rightarrow> map_option ((@) t) (unquote_runs (dropWhile is_ascii s)))
      else map_option ((#) (hd s)) (unquote_runs (tl s)))"
  by auto
termination
proof (relation "measure length")
  show "(dropWhile is_ascii s, s) \<in> measure length" if "s \<noteq> []" "is_ascii (hd s)" for s
    using that by (cases s) (auto simp: le_imp_less_Suc length_dropWhile_le)
qed auto

declare unquote_runs.simps [simp del]

definition unquote :: "string \<Rightarrow> string option" where
  "unquote s = (if CHR ''%'' \<in> set s then unquote_runs s else Some s)"

fun percent_ok :: "string \<Rightarrow> bool" where
  "percent_ok [] \<longleftrightarrow> True"
| "percent_ok (c # cs) \<longleftrightarrow>
     (c = CHR ''%'' \<longrightarrow> 2 \<le> length cs \<and> is_hex (cs ! 0) \<and> is_hex (cs ! 1)) \<and> percent_ok cs"

section \<open>Splitting a URL\<close>

record split_url =
  url_scheme :: string
  url_netloc :: string
  url_path :: string
  url_query :: string
  url_fragment :: string

text \<open>\<open>s.split(d, 1)\<close>; the second part is empty when there is no \<open>d\<close>.\<close>

definition cut :: "char \<Rightarrow> string \<Rightarrow> string \<times> string" where
  "cut d s = (takeWhile (\<lambda>c. c \<noteq> d) s, drop 1 (dropWhile (\<lambda>c. c \<noteq> d) s))"

definition scheme_char :: "char \<Rightarrow> bool" where
  "scheme_char c \<longleftrightarrow> is_alpha c \<or> is_digit c \<or> c \<in> set ''+-.''"

definition split_scheme :: "string \<Rightarrow> string \<times> string" where
  "split_scheme url =
     (let pre = takeWhile (\<lambda>c. c \<noteq> CHR '':'') url in
      if pre \<noteq> url \<and> pre \<noteq> [] \<and> is_alpha (hd pre) \<and> list_all scheme_char pre
      then (map lower_char pre, drop (length pre + 1) url) else ([], url))"

definition netloc_char :: "char \<Rightarrow> bool" where
  "netloc_char c \<longleftrightarrow> c \<notin> set ''/?#''"

definition split_netloc :: "string \<Rightarrow> string \<times> string" where
  "split_netloc url =
     (if take 2 url = ''//''
      then (takeWhile netloc_char (drop 2 url), dropWhile netloc_char (drop 2 url))
      else ([], url))"

definition url_text :: "string \<Rightarrow> string" where
  "url_text raw = filter (\<lambda>c. code c \<notin> {9, 10, 13}) (dropWhile (\<lambda>c. code c \<le> 32) raw)"

definition urlparse :: "(string \<Rightarrow> bool) \<Rightarrow> string \<Rightarrow> split_url option" where
  "urlparse hostok raw =
     (case split_scheme (url_text raw) of (scheme, rest) \<Rightarrow>
      case split_netloc rest of (netloc, tail) \<Rightarrow>
      if \<not> hostok netloc then None
      else case cut CHR ''#'' tail of (body, fragment) \<Rightarrow>
      case cut CHR ''?'' body of (p, query) \<Rightarrow>
      Some \<lparr>url_scheme = scheme, url_netloc = netloc, url_path = p, url_query = query,
            url_fragment = fragment\<rparr>)"

section \<open>Work Context URIs\<close>

record workctx_uri =
  uri_context :: string
  uri_entity_type :: string
  uri_entity_id :: string

text \<open>\<open>WorkctxUri.__post_init__\<close>\<close>

definition valid_uri :: "workctx_uri \<Rightarrow> bool" where
  "valid_uri u \<longleftrightarrow>
     kebab (uri_context u) \<and> kebab (uri_entity_type u)
     \<and> uri_entity_id u \<noteq> [] \<and> uri_entity_id u \<noteq> ''.'' \<and> uri_entity_id u \<noteq> ''..''
     \<and> CHR ''/'' \<notin> set (uri_entity_id u) \<and> CHR 0x5C \<notin> set (uri_entity_id u)"

definition parse_uri :: "(string \<Rightarrow> bool) \<Rightarrow> string \<Rightarrow> workctx_uri option" where
  "parse_uri hostok value =
     (case urlparse hostok value of
        None \<Rightarrow> None
      | Some p \<Rightarrow>
          if url_scheme p \<noteq> ''workctx'' then None
          else if url_query p \<noteq> [] \<or> CHR ''?'' \<in> set value then None
          else if url_fragment p \<noteq> [] \<or> CHR ''#'' \<in> set value then None
          else (case split_on CHR ''/'' (url_path p) of
              [lead, etype, encoded] \<Rightarrow>
                if lead \<noteq> [] \<or> etype = [] \<or> encoded = [] then None
                else if \<not> percent_ok encoded then None
                else (case unquote encoded of
                    None \<Rightarrow> None
                  | Some ident \<Rightarrow>
                      (let u = \<lparr>uri_context = url_netloc p, uri_entity_type = etype,
                                uri_entity_id = ident\<rparr>
                       in if valid_uri u then Some u else None))
            | _ \<Rightarrow> None))"

definition print_uri :: "workctx_uri \<Rightarrow> string" where
  "print_uri u =
     ''workctx://'' @ uri_context u @ ''/'' @ uri_entity_type u @ ''/''
       @ quote ''-._~'' (uri_entity_id u)"

definition uri_in_context :: "string \<Rightarrow> workctx_uri \<Rightarrow> bool" where
  "uri_in_context active u \<longleftrightarrow> uri_context u = active"

section \<open>Stable identifiers\<close>

datatype id_family =
    Artifact_id | Evidence_id | Observation_id | Task_id | Subtask_id | Decision_id | Risk_id
  | Question_id | Claim_id | Person_id | System_id

definition digits_only :: "nat \<Rightarrow> string \<Rightarrow> bool" where
  "digits_only n s \<longleftrightarrow> length s = n \<and> list_all is_digit s"

text \<open>The text after a literal prefix.\<close>

definition after :: "string \<Rightarrow> string \<Rightarrow> string option" where
  "after p s = (if prefix p s then Some (drop (length p) s) else None)"

definition matches_after :: "string \<Rightarrow> (string \<Rightarrow> bool) \<Rightarrow> string \<Rightarrow> bool" where
  "matches_after p ok s = (case after p s of None \<Rightarrow> False | Some t \<Rightarrow> ok t)"

text \<open>\<^verbatim>\<open>[0-9]{8}-slug-[0-9]{2}\<close>\<close>

definition dated_slug :: "string \<Rightarrow> bool" where
  "dated_slug s \<longleftrightarrow>
     12 < length s \<and> digits_only 8 (take 8 s) \<and> s ! 8 = CHR ''-''
     \<and> kebab (take (length s - 12) (drop 9 s))
     \<and> s ! (length s - 3) = CHR ''-'' \<and> digits_only 2 (drop (length s - 2) s)"

definition numbered :: "nat \<Rightarrow> string \<Rightarrow> bool" where
  "numbered n s \<longleftrightarrow> digits_only 4 (take 4 s) \<and> matches_after ''-'' (digits_only n) (drop 4 s)"

fun family_ok :: "id_family \<Rightarrow> string \<Rightarrow> bool" where
  "family_ok Artifact_id s = matches_after ''ART-'' dated_slug s"
| "family_ok Evidence_id s = matches_after ''EVD-'' dated_slug s"
| "family_ok Observation_id s =
     (8 \<le> length s \<and> matches_after ''EVD-'' dated_slug (take (length s - 8) s)
      \<and> matches_after ''#OBS-'' (digits_only 3) (drop (length s - 8) s))"
| "family_ok Task_id s = matches_after ''TASK-'' (numbered 3) s"
| "family_ok Subtask_id s =
     (5 \<le> length s \<and> matches_after ''TASK-'' (numbered 3) (take (length s - 5) s)
      \<and> matches_after ''-ST'' (digits_only 2) (drop (length s - 5) s))"
| "family_ok Decision_id s = matches_after ''DEC-'' (numbered 3) s"
| "family_ok Risk_id s = matches_after ''RISK-'' (numbered 3) s"
| "family_ok Question_id s = matches_after ''Q-'' (numbered 3) s"
| "family_ok Claim_id s = matches_after ''CLM-'' (numbered 5) s"
| "family_ok Person_id s = matches_after ''PER-'' kebab s"
| "family_ok System_id s = matches_after ''SYS-'' kebab s"

definition stable_id_types :: "id_family list" where
  "stable_id_types = [Artifact_id, Evidence_id, Observation_id, Task_id, Subtask_id, Decision_id,
     Risk_id, Question_id, Claim_id, Person_id, System_id]"

definition parse_stable_id :: "string \<Rightarrow> (id_family \<times> string) option" where
  "parse_stable_id s =
     (case List.find (\<lambda>f. family_ok f s) stable_id_types of None \<Rightarrow> None | Some f \<Rightarrow> Some (f, s))"

section \<open>Normalising a Work Context URI\<close>

definition normalize_uri :: "(string \<Rightarrow> bool) \<Rightarrow> string \<Rightarrow> string option" where
  "normalize_uri hostok value =
     (case urlparse hostok value of
        None \<Rightarrow> None
      | Some p \<Rightarrow>
          if url_fragment p = [] then
            (case parse_uri hostok value of
               None \<Rightarrow> None
             | Some u \<Rightarrow>
                 if uri_entity_type u = ''observation'' \<and> \<not> family_ok Observation_id (uri_entity_id u)
                 then None else Some (print_uri u))
          else if url_query p \<noteq> [] then map_option print_uri (parse_uri hostok value)
          else if url_scheme p \<noteq> ''workctx''
                  \<or> \<not> matches_after ''OBS-'' (digits_only 3) (url_fragment p) then None
          else (case split_on CHR ''/'' (url_path p) of
              [lead, etype, ident] \<Rightarrow>
                if lead \<noteq> [] \<or> etype \<noteq> ''observation'' \<or> ident = [] then None
                else (case parse_uri hostok
                        (fst (cut CHR ''#'' value) @ ''%23'' @ url_fragment p) of
                    None \<Rightarrow> None
                  | Some u \<Rightarrow>
                      if family_ok Observation_id (uri_entity_id u) then Some (print_uri u) else None)
            | _ \<Rightarrow> None))"

section \<open>Artifact and repository references\<close>

definition parse_artifact :: "string \<Rightarrow> string option" where
  "parse_artifact value =
     (case after ''artifact://sha256/'' value of
        None \<Rightarrow> None
      | Some d \<Rightarrow> if length d = 64 \<and> list_all is_lower_hex d then Some d else None)"

definition print_artifact :: "string \<Rightarrow> string" where
  "print_artifact d = ''artifact://sha256/'' @ d"

record repo_ref =
  repo_id :: string
  repo_commit :: string
  repo_path :: string
  repo_start :: nat
  repo_end :: nat

text \<open>\<^verbatim>\<open>[a-z0-9]+(?:[._-][a-z0-9]+)*\<close>: the separators are interchangeable.\<close>

definition valid_repo_id :: "string \<Rightarrow> bool" where
  "valid_repo_id s \<longleftrightarrow> kebab (map (\<lambda>c. if c \<in> set ''._'' then CHR ''-'' else c) s)"

definition valid_commit :: "string \<Rightarrow> bool" where
  "valid_commit s \<longleftrightarrow> 7 \<le> length s \<and> length s \<le> 64 \<and> list_all is_hex s"

definition windows_absolute :: "string \<Rightarrow> bool" where
  "windows_absolute s \<longleftrightarrow>
     3 \<le> length s \<and> is_alpha (s ! 0) \<and> s ! 1 = CHR '':'' \<and> (s ! 2 = CHR 0x5C \<or> s ! 2 = CHR ''/'')"

definition valid_repo_path :: "string \<Rightarrow> bool" where
  "valid_repo_path s \<longleftrightarrow>
     s \<noteq> [] \<and> hd s \<noteq> CHR ''/'' \<and> \<not> windows_absolute s \<and> CHR 0x5C \<notin> set s
     \<and> (\<forall>p\<in>set (split_on CHR ''/'' s). p \<noteq> [] \<and> p \<noteq> ''.'' \<and> p \<noteq> ''..'') \<and> CHR 0x00 \<notin> set s"

definition valid_repo :: "repo_ref \<Rightarrow> bool" where
  "valid_repo r \<longleftrightarrow>
     valid_repo_id (repo_id r) \<and> valid_commit (repo_commit r) \<and> valid_repo_path (repo_path r)
     \<and> 1 \<le> repo_start r \<and> repo_start r \<le> repo_end r"

definition print_repo :: "repo_ref \<Rightarrow> string" where
  "print_repo r =
     ''repo://'' @ repo_id r @ ''@'' @ repo_commit r @ ''/'' @ quote ''/-._~'' (repo_path r)
       @ ''#L'' @ digits (repo_start r) @ ''-L'' @ digits (repo_end r)"

definition read_nat :: "string \<Rightarrow> nat" where
  "read_nat s = foldl (\<lambda>n c. 10 * n + (code c - 48)) 0 s"

definition counting :: "string \<Rightarrow> bool" where
  "counting s \<longleftrightarrow> s \<noteq> [] \<and> list_all is_digit s \<and> hd s \<noteq> CHR ''0''"

text \<open>\<^verbatim>\<open>L([1-9][0-9]*)-L([1-9][0-9]*)\<close>\<close>

definition parse_lines :: "string \<Rightarrow> (nat \<times> nat) option" where
  "parse_lines f =
     (case split_on CHR ''-'' f of
        [a, b] \<Rightarrow>
          (case (after ''L'' a, after ''L'' b) of
             (Some m, Some n) \<Rightarrow>
               if counting m \<and> counting n then Some (read_nat m, read_nat n) else None
           | _ \<Rightarrow> None)
      | _ \<Rightarrow> None)"

definition parse_repo :: "(string \<Rightarrow> bool) \<Rightarrow> string \<Rightarrow> repo_ref option" where
  "parse_repo hostok value =
     (if \<not> prefix ''repo://'' value then None
      else case urlparse hostok value of
        None \<Rightarrow> None
      | Some p \<Rightarrow>
          if url_scheme p \<noteq> ''repo'' \<or> url_query p \<noteq> [] then None
          else if CHR ''@'' \<notin> set (url_netloc p) then None
          else (let back = cut CHR ''@'' (rev (url_netloc p)) in
            case parse_lines (url_fragment p) of
              None \<Rightarrow> None
            | Some (m, n) \<Rightarrow>
                if url_path p = [] \<or> hd (url_path p) \<noteq> CHR ''/'' \<or> url_path p = ''/'' then None
                else if \<not> percent_ok (tl (url_path p)) then None
                else (case unquote (tl (url_path p)) of
                    None \<Rightarrow> None
                  | Some path \<Rightarrow>
                      (let r = \<lparr>repo_id = rev (snd back), repo_commit = rev (fst back),
                                repo_path = path, repo_start = m, repo_end = n\<rparr>
                       in if valid_repo r \<and> print_repo r = value then Some r else None))))"

section \<open>Durable references\<close>

datatype durable_reference =
    Workctx_ref workctx_uri
  | Artifact_ref string
  | Repo_ref repo_ref
  | External_ref string

definition entity_types :: "string list" where
  "entity_types = [''evidence'', ''person'', ''team'', ''project'', ''system'', ''service'', ''module'',
     ''flow'', ''integration'', ''decision'', ''risk'', ''question'', ''task'', ''claim'', ''draft'',
     ''investigation'', ''incident'', ''observation'', ''artifact'']"

definition validate_entity_uri :: "(string \<Rightarrow> bool) \<Rightarrow> string \<Rightarrow> workctx_uri option" where
  "validate_entity_uri hostok value =
     (case parse_uri hostok value of
        None \<Rightarrow> None
      | Some u \<Rightarrow>
          if uri_entity_type u \<in> set entity_types \<and> print_uri u = value then Some u else None)"

definition parse_source_reference :: "(string \<Rightarrow> bool) \<Rightarrow> string \<Rightarrow> durable_reference option" where
  "parse_source_reference hostok value =
     (if prefix ''artifact://'' value then map_option Artifact_ref (parse_artifact value)
      else if prefix ''repo://'' value then map_option Repo_ref (parse_repo hostok value)
      else None)"

definition absolute_machine_path :: "string \<Rightarrow> bool" where
  "absolute_machine_path s \<longleftrightarrow>
     (s \<noteq> [] \<and> (hd s = CHR ''/'' \<or> hd s = CHR 0x5C)) \<or> windows_absolute s"

fun before_separator :: "string \<Rightarrow> string option" where
  "before_separator [] = None"
| "before_separator (c # cs) =
     (if prefix ''://'' (c # cs) then Some [] else map_option ((#) c) (before_separator cs))"

text \<open>\<^verbatim>\<open>[a-z][a-z0-9+.-]*://.+\<close> on one line.\<close>

definition generic_uri :: "string \<Rightarrow> bool" where
  "generic_uri s \<longleftrightarrow>
     (case before_separator s of
        None \<Rightarrow> False
      | Some p \<Rightarrow>
          p \<noteq> [] \<and> is_lower (hd p) \<and> list_all (\<lambda>c. is_lower_alnum c \<or> c \<in> set ''+.-'') p
          \<and> length p + 3 < length s \<and> CHR 0x0A \<notin> set s)"

definition parse_durable_reference :: "(string \<Rightarrow> bool) \<Rightarrow> string \<Rightarrow> durable_reference option" where
  "parse_durable_reference hostok value =
     (if value = [] \<or> absolute_machine_path value then None
      else if (case before_separator value of
                 None \<Rightarrow> False | Some p \<Rightarrow> p \<noteq> [] \<and> map lower_char p \<noteq> p) then None
      else case urlparse hostok value of
        None \<Rightarrow> None
      | Some u \<Rightarrow>
          if url_scheme u = ''file'' then None
          else if url_scheme u = ''workctx'' then map_option Workctx_ref (validate_entity_uri hostok value)
          else if url_scheme u = ''artifact'' then map_option Artifact_ref (parse_artifact value)
          else if url_scheme u = ''repo'' then map_option Repo_ref (parse_repo hostok value)
          else if generic_uri value then Some (External_ref value) else None)"

fun print_reference :: "durable_reference \<Rightarrow> string" where
  "print_reference (Workctx_ref u) = print_uri u"
| "print_reference (Artifact_ref d) = print_artifact d"
| "print_reference (Repo_ref r) = print_repo r"
| "print_reference (External_ref s) = s"

definition validate_durable_reference :: "(string \<Rightarrow> bool) \<Rightarrow> string \<Rightarrow> string option" where
  "validate_durable_reference hostok value =
     map_option print_reference (parse_durable_reference hostok value)"

end
