(* ===== verification/Documents.thy ===== *)
theory Documents
  imports References Topics
begin

text \<open>
  The canonical document types of \<open>domain/\<close>: typed references (\<open>relations.py\<close>), entity
  frontmatter (\<open>entities.py\<close>), tasks and their hierarchy (\<open>tasks.py\<close>), claims (\<open>claims.py\<close>),
  source locators (\<open>locators.py\<close>), observations (\<open>observations.py\<close>), artifact manifests
  (\<open>artifacts.py\<close>), checkpoints (\<open>checkpoints.py\<close>) and the split of a Markdown document into
  frontmatter and body (\<open>frontmatter.py\<close>). A document is the typed record that the schema library
  hands to the validators; a validator returns the record it accepts, with the fields the code
  rewrites, or \<open>None\<close> where it raises \<open>ValueError\<close>. A timestamp is its instant in UTC and its
  offset.
\<close>

record stamp =
  stamp_utc :: int
  stamp_offset :: int

section \<open>Relations\<close>

datatype relation_type =
    Derived_from | Evidenced_by | Supports | Contradicts | Supersedes | Parent_of | Depends_on
  | Blocks | Requested_by | Owned_by | Waiting_on | Produces | Implements | Calls | Publishes_to
  | Consumes_from | Stores_in | Authenticates_via | Operated_by | Affects | Mentions | Related_to

datatype confidence = Low | Medium | High

record typed_reference =
  ref_relation :: relation_type
  ref_target :: string
  ref_confidence :: "confidence option"
  ref_observations :: "string list option"
  ref_valid_from :: "stamp option"
  ref_valid_to :: "stamp option"
  ref_note :: "string option"

definition opt_distinct :: "'a list option \<Rightarrow> bool" where
  "opt_distinct v = (case v of None \<Rightarrow> True | Some xs \<Rightarrow> distinct xs)"

text \<open>\<open>TypedReference\<close>, used by observations, and \<open>_ReferencePayload\<close>, used by entities.\<close>

definition validate_typed_reference ::
  "(string \<Rightarrow> bool) \<Rightarrow> typed_reference \<Rightarrow> typed_reference option" where
  "validate_typed_reference hostok r =
     (case validate_durable_reference hostok (ref_target r) of
        None \<Rightarrow> None
      | Some t \<Rightarrow>
          if opt_distinct (ref_observations r) then Some (r\<lparr>ref_target := t\<rparr>) else None)"

definition reference_payload_ok :: "typed_reference \<Rightarrow> bool" where
  "reference_payload_ok r \<longleftrightarrow> generic_uri (ref_target r) \<and> opt_distinct (ref_observations r)"

section \<open>Entities\<close>

record entity =
  ent_schema_version :: int
  ent_id :: string
  ent_type :: string
  ent_title :: string
  ent_uri :: string
  ent_aliases :: "string list"
  ent_status :: "string option"
  ent_confidence :: "confidence option"
  ent_tags :: "string list"
  ent_topics :: "string list"
  ent_references :: "typed_reference list"
  ent_created_at :: stamp
  ent_updated_at :: stamp

definition entity_fields_ok :: "('a entity_scheme) \<Rightarrow> bool" where
  "entity_fields_ok e \<longleftrightarrow>
     ent_schema_version e = 1 \<and> ent_id e \<noteq> [] \<and> ent_type e \<in> set entity_types
     \<and> ent_title e \<noteq> [] \<and> ent_uri e \<noteq> []
     \<and> distinct (ent_aliases e) \<and> distinct (ent_tags e)
     \<and> list_all topic_slug_ok (ent_topics e) \<and> distinct (ent_topics e)
     \<and> list_all reference_payload_ok (ent_references e)"

text \<open>The field validator stores the canonical URI, then the model validator compares.\<close>

definition validate_entity ::
  "(string \<Rightarrow> bool) \<Rightarrow> ('a entity_scheme) \<Rightarrow> ('a entity_scheme) option" where
  "validate_entity hostok e =
     (if \<not> entity_fields_ok e then None
      else case parse_uri hostok (ent_uri e) of
        None \<Rightarrow> None
      | Some u \<Rightarrow>
          (let e' = e\<lparr>ent_uri := print_uri u\<rparr> in
           case parse_uri hostok (ent_uri e') of
             None \<Rightarrow> None
           | Some v \<Rightarrow>
               if uri_entity_type v \<noteq> ent_type e' then None
               else if uri_entity_id v \<noteq> ent_id e' then None
               else Some e'))"

section \<open>Tasks\<close>

datatype task_type = Parent_task | Subtask
datatype task_priority = P0 | P1 | P2 | P3 | P4
datatype task_status = Backlog | Ready | Active_task | Blocked | Waiting | Done | Cancelled

record task = entity +
  task_type :: task_type
  parent_task :: "string option"
  root_task :: string
  task_priority :: task_priority
  task_status :: task_status
  task_owner :: "string option"
  task_requester :: "string option"
  task_waiting_on :: "string list"
  task_due_at :: "stamp option"
  task_next_action :: string
  task_dependencies :: "string list"
  task_blockers :: "string list"
  task_observations :: "string list"

text \<open>\<open>id.rsplit("-ST", maxsplit=1)[0]\<close> of an identifier of the subtask shape.\<close>

definition subtask_parent :: "string \<Rightarrow> string" where
  "subtask_parent s = take (length s - 5) s"

definition consistent_hierarchy :: "task \<Rightarrow> bool" where
  "consistent_hierarchy t \<longleftrightarrow>
     (case task_type t of
        Parent_task \<Rightarrow>
          family_ok Task_id (ent_id t) \<and> parent_task t = None \<and> root_task t = ent_id t
      | Subtask \<Rightarrow>
          family_ok Subtask_id (ent_id t) \<and> parent_task t = Some (subtask_parent (ent_id t))
          \<and> root_task t = subtask_parent (ent_id t))"

definition task_fields_ok :: "task \<Rightarrow> bool" where
  "task_fields_ok t \<longleftrightarrow>
     ent_type t = ''task'' \<and> (family_ok Task_id (ent_id t) \<or> family_ok Subtask_id (ent_id t))
     \<and> (case parent_task t of None \<Rightarrow> True | Some p \<Rightarrow> family_ok Task_id p)
     \<and> family_ok Task_id (root_task t) \<and> task_next_action t \<noteq> []
     \<and> distinct (task_waiting_on t) \<and> distinct (task_dependencies t)
     \<and> distinct (task_blockers t) \<and> distinct (task_observations t)"

definition validate_task :: "(string \<Rightarrow> bool) \<Rightarrow> task \<Rightarrow> task option" where
  "validate_task hostok t =
     (if \<not> task_fields_ok t then None
      else case validate_entity hostok t of
        None \<Rightarrow> None
      | Some t' \<Rightarrow> if consistent_hierarchy t' then Some t' else None)"

datatype hierarchy_error =
    Duplicate_task string
  | Several_contexts
  | No_parent string
  | Missing_parent string string
  | Not_a_parent string string
  | Different_roots string string

fun index_tasks :: "task list \<Rightarrow> (string \<rightharpoonup> task) \<Rightarrow> hierarchy_error + (string \<rightharpoonup> task)" where
  "index_tasks [] m = Inr m"
| "index_tasks (t # ts) m =
     (if m (ent_id t) \<noteq> None then Inl (Duplicate_task (ent_id t))
      else index_tasks ts (m(ent_id t \<mapsto> t)))"

definition check_parent :: "(string \<rightharpoonup> task) \<Rightarrow> task \<Rightarrow> hierarchy_error + unit" where
  "check_parent m t =
     (if task_type t \<noteq> Subtask then Inr ()
      else case parent_task t of
        None \<Rightarrow> Inl (No_parent (ent_id t))
      | Some p \<Rightarrow>
          (case m p of
             None \<Rightarrow> Inl (Missing_parent (ent_id t) p)
           | Some parent \<Rightarrow>
               if task_type parent \<noteq> Parent_task then Inl (Not_a_parent (ent_id t) (ent_id parent))
               else if root_task parent \<noteq> root_task t
               then Inl (Different_roots (ent_id t) (ent_id parent))
               else Inr ()))"

fun check_parents :: "(string \<rightharpoonup> task) \<Rightarrow> task list \<Rightarrow> hierarchy_error + unit" where
  "check_parents m [] = Inr ()"
| "check_parents m (t # ts) = bind_result (check_parent m t) (\<lambda>_. check_parents m ts)"

definition task_context :: "(string \<Rightarrow> bool) \<Rightarrow> task \<Rightarrow> string option" where
  "task_context hostok t = map_option uri_context (parse_uri hostok (ent_uri t))"

definition validate_task_hierarchy :: "(string \<Rightarrow> bool) \<Rightarrow> task list \<Rightarrow> hierarchy_error + unit" where
  "validate_task_hierarchy hostok ts =
     bind_result (index_tasks ts Map.empty) (\<lambda>m.
     if 1 < length (remdups (map (task_context hostok) ts)) then Inl Several_contexts
     else check_parents m ts)"

section \<open>Claims and observations\<close>

text \<open>The object of a claim is any JSON value; it is kept as its text.\<close>

datatype claim_status = Current | Superseded | Retracted | Uncertain

record claim =
  claim_id :: string
  claim_subject :: string
  claim_predicate :: string
  claim_object :: string
  claim_observed_at :: stamp
  claim_valid_from :: "stamp option"
  claim_valid_to :: "stamp option"
  claim_status :: claim_status
  claim_supersedes :: "string option"
  claim_superseded_by :: "string option"
  claim_confidence :: confidence
  claim_observations :: "string list"

definition canonical_observation :: "(string \<Rightarrow> bool) \<Rightarrow> string \<Rightarrow> string option" where
  "canonical_observation hostok s =
     (case parse_uri hostok s of
        None \<Rightarrow> None
      | Some u \<Rightarrow>
          if uri_entity_type u = ''observation'' \<and> family_ok Observation_id (uri_entity_id u)
          then Some (print_uri u) else None)"

text \<open>A list comprehension whose body may raise.\<close>

fun those_map :: "('a \<Rightarrow> 'b option) \<Rightarrow> 'a list \<Rightarrow> 'b list option" where
  "those_map f [] = Some []"
| "those_map f (x # xs) =
     (case f x of None \<Rightarrow> None | Some y \<Rightarrow> map_option ((#) y) (those_map f xs))"

definition opt_claim_id_ok :: "string option \<Rightarrow> bool" where
  "opt_claim_id_ok v = (case v of None \<Rightarrow> True | Some s \<Rightarrow> family_ok Claim_id s)"

definition validate_claim :: "(string \<Rightarrow> bool) \<Rightarrow> claim \<Rightarrow> claim option" where
  "validate_claim hostok c =
     (if \<not> family_ok Claim_id (claim_id c) \<or> claim_predicate c = []
         \<or> \<not> opt_claim_id_ok (claim_supersedes c) \<or> \<not> opt_claim_id_ok (claim_superseded_by c)
         \<or> claim_observations c = [] then None
      else case (validate_entity_uri hostok (claim_subject c),
                 those_map (canonical_observation hostok) (claim_observations c)) of
        (Some u, Some os) \<Rightarrow>
          if distinct os
          then Some (c\<lparr>claim_subject := print_uri u, claim_observations := os\<rparr>) else None
      | _ \<Rightarrow> None)"

datatype locator =
    Line_range int int
  | Page_range int int
  | Time_range int int "string option"
  | Message "string option" "string option" string "stamp option"
  | Image_region "int option" rat rat rat rat
  | Json_pointer string
  | Table_range string string
  | Repo_range string string string int int
  | Whole_artifact string

fun pointer_escapes_ok :: "string \<Rightarrow> bool" where
  "pointer_escapes_ok [] \<longleftrightarrow> True"
| "pointer_escapes_ok (c # cs) \<longleftrightarrow>
     (c = CHR ''~'' \<longrightarrow> cs \<noteq> [] \<and> hd cs \<in> {CHR ''0'', CHR ''1''}) \<and> pointer_escapes_ok cs"

fun locator_ok :: "locator \<Rightarrow> bool" where
  "locator_ok (Line_range a b) \<longleftrightarrow> 1 \<le> a \<and> a \<le> b"
| "locator_ok (Page_range a b) \<longleftrightarrow> 1 \<le> a \<and> a \<le> b"
| "locator_ok (Time_range a b _) \<longleftrightarrow> 0 \<le> a \<and> a \<le> b"
| "locator_ok (Message _ _ _ _) \<longleftrightarrow> True"
| "locator_ok (Image_region p x y w h) \<longleftrightarrow>
     (case p of None \<Rightarrow> True | Some n \<Rightarrow> 0 \<le> n)
     \<and> 0 \<le> x \<and> x \<le> 1 \<and> 0 \<le> y \<and> y \<le> 1 \<and> 0 < w \<and> w \<le> 1 \<and> 0 < h \<and> h \<le> 1"
| "locator_ok (Json_pointer s) \<longleftrightarrow> (s = [] \<or> hd s = CHR ''/'') \<and> pointer_escapes_ok s"
| "locator_ok (Table_range _ _) \<longleftrightarrow> True"
| "locator_ok (Repo_range r c p a b) \<longleftrightarrow>
     valid_repo_id r \<and> valid_commit c \<and> valid_repo_path p \<and> 1 \<le> a \<and> a \<le> b"
| "locator_ok (Whole_artifact j) \<longleftrightarrow> j \<noteq> []"

record observation =
  obs_id :: string
  obs_kind :: string
  obs_statement :: string
  obs_confidence :: confidence
  obs_source_ref :: string
  obs_locator :: locator
  obs_observed_at :: "stamp option"
  obs_derived_from :: "string list"
  obs_related :: "typed_reference list"

definition observation_kinds :: "string list" where
  "observation_kinds = [''fact'', ''inference'', ''assumption'', ''decision'', ''commitment'', ''task'',
     ''risk'', ''blocker'', ''dependency'', ''question'']"

definition validate_observation :: "(string \<Rightarrow> bool) \<Rightarrow> observation \<Rightarrow> observation option" where
  "validate_observation hostok o' =
     (if \<not> family_ok Observation_id (obs_id o') \<or> obs_kind o' \<notin> set observation_kinds
         \<or> obs_statement o' = [] \<or> parse_artifact (obs_source_ref o') = None
         \<or> \<not> locator_ok (obs_locator o') \<or> \<not> distinct (obs_derived_from o') then None
      else case those_map (validate_typed_reference hostok) (obs_related o') of
        None \<Rightarrow> None
      | Some rs \<Rightarrow> Some (o'\<lparr>obs_related := rs\<rparr>))"

section \<open>Artifact manifests and checkpoints\<close>

record artifact_manifest =
  art_schema_version :: int
  art_id :: string
  art_content_hash :: string
  art_original_name :: string
  art_media_type :: string
  art_source_type :: string
  art_source_origin :: "string option"
  art_event_at :: "stamp option"
  art_event_at_inferred :: bool
  art_ingested_at :: stamp
  art_language :: "string option"
  art_participants :: "string list"
  art_classification :: "string option"
  art_status :: string
  art_preserved_path :: string
  art_sidecars :: "string list"
  art_duplicate_of :: "string option"
  art_notes :: "string option"

definition content_hash_ok :: "string \<Rightarrow> bool" where
  "content_hash_ok s \<longleftrightarrow> matches_after ''sha256:'' (\<lambda>h. length h = 64 \<and> list_all is_lower_hex h) s"

text \<open>\<^verbatim>\<open>ART-[0-9]{8}-[a-z0-9-]+-[0-9]{2}\<close>\<close>

definition artifact_id_ok :: "string \<Rightarrow> bool" where
  "artifact_id_ok = matches_after ''ART-'' (\<lambda>s.
     12 < length s \<and> digits_only 8 (take 8 s) \<and> s ! 8 = CHR ''-''
     \<and> list_all (\<lambda>c. is_lower_alnum c \<or> c = CHR ''-'') (take (length s - 12) (drop 9 s))
     \<and> s ! (length s - 3) = CHR ''-'' \<and> digits_only 2 (drop (length s - 2) s))"

definition artifact_source_types :: "string list" where
  "artifact_source_types = [''chat'', ''meeting'', ''transcript'', ''screenshot'', ''image'', ''document'',
     ''spreadsheet'', ''audio'', ''video'', ''email'', ''note'', ''repository'', ''external_snapshot'', ''other'']"

definition artifact_statuses :: "string list" where
  "artifact_statuses =
     [''pending'', ''quarantined'', ''processing'', ''processed'', ''failed'', ''duplicate'']"

definition artifact_ok :: "artifact_manifest \<Rightarrow> bool" where
  "artifact_ok a \<longleftrightarrow>
     art_schema_version a = 1 \<and> artifact_id_ok (art_id a) \<and> content_hash_ok (art_content_hash a)
     \<and> art_original_name a \<noteq> [] \<and> art_media_type a \<noteq> []
     \<and> art_source_type a \<in> set artifact_source_types \<and> distinct (art_participants a)
     \<and> (case art_classification a of None \<Rightarrow> True
        | Some c \<Rightarrow> c \<in> {''public'', ''internal'', ''confidential'', ''restricted''})
     \<and> art_status a \<in> set artifact_statuses \<and> art_preserved_path a \<noteq> []
     \<and> (case art_duplicate_of a of None \<Rightarrow> True | Some d \<Rightarrow> artifact_id_ok d)"

record checkpoint_item =
  item_uri :: string
  item_source_path :: string
  item_content_hash :: string
  item_revision :: "stamp option"

record checkpoint =
  chk_id :: string
  chk_created_at :: stamp
  chk_label :: string
  chk_topic :: "string option"
  chk_items :: "checkpoint_item list"

definition device_names :: "string list" where
  "device_names = [''con'', ''prn'', ''aux'', ''nul'', ''clock$'', ''conin$'', ''conout$'']
     @ map (\<lambda>d. ''com'' @ [d]) ''123456789'' @ map (\<lambda>d. ''lpt'' @ [d]) ''123456789''"

text \<open>\<open>_WINDOWS_DEVICE_NAME\<close> on a part without line breaks: the text before the first dot.\<close>

definition device_name :: "string \<Rightarrow> bool" where
  "device_name p \<longleftrightarrow> map lower_char (takeWhile (\<lambda>c. c \<noteq> CHR ''.'') p) \<in> set device_names"

definition portable_segment :: "string \<Rightarrow> bool" where
  "portable_segment p \<longleftrightarrow>
     CHR '':'' \<notin> set p \<and> (p = [] \<or> last p \<noteq> CHR ''.'' \<and> last p \<noteq> CHR '' '') \<and> \<not> device_name p"

text \<open>\<open>PurePosixPath(value).parts\<close> of a relative path.\<close>

definition pure_parts :: "string \<Rightarrow> string list" where
  "pure_parts s = filter (\<lambda>p. p \<noteq> [] \<and> p \<noteq> ''.'') (split_on CHR ''/'' s)"

definition source_path_ok :: "string \<Rightarrow> bool" where
  "source_path_ok s \<longleftrightarrow>
     s \<noteq> [] \<and> CHR 0x5C \<notin> set s \<and> hd s \<noteq> CHR ''/'' \<and> pure_parts s \<noteq> []
     \<and> hd (pure_parts s) \<in> {''02_knowledge'', ''03_work'', ''05_outbox''}
     \<and> ''..'' \<notin> set (pure_parts s) \<and> list_all portable_segment (pure_parts s)"

text \<open>\<^verbatim>\<open>CHK-[0-9]{8}T[0-9]{6}Z-slug-[0-9a-f]{8}\<close>\<close>

definition compact_time :: "string \<Rightarrow> bool" where
  "compact_time s \<longleftrightarrow>
     length s = 16 \<and> digits_only 8 (take 8 s) \<and> s ! 8 = CHR ''T''
     \<and> digits_only 6 (take 6 (drop 9 s)) \<and> s ! 15 = CHR ''Z''"

definition timed_slug :: "string \<Rightarrow> string \<Rightarrow> bool" where
  "timed_slug pre s \<longleftrightarrow>
     matches_after pre (\<lambda>t. compact_time (take 16 t) \<and> matches_after ''-'' kebab (drop 16 t)) s"

definition checkpoint_id_ok :: "string \<Rightarrow> bool" where
  "checkpoint_id_ok s \<longleftrightarrow>
     9 < length s \<and> timed_slug ''CHK-'' (take (length s - 9) s)
     \<and> matches_after ''-'' (\<lambda>h. length h = 8 \<and> list_all is_lower_hex h) (drop (length s - 9) s)"

definition checkpoint_path :: "checkpoint \<Rightarrow> string" where
  "checkpoint_path c = ''99_meta/'' @ chk_id c @ ''.yaml''"

definition label_ok :: "string \<Rightarrow> bool" where
  "label_ok s \<longleftrightarrow>
     1 \<le> length s \<and> length s \<le> 200 \<and> s = py_strip s \<and> list_all (\<lambda>c. 32 \<le> code c \<and> code c \<noteq> 127) s"

definition validate_item :: "(string \<Rightarrow> bool) \<Rightarrow> checkpoint_item \<Rightarrow> checkpoint_item option" where
  "validate_item hostok i =
     (case parse_uri hostok (item_uri i) of
        None \<Rightarrow> None
      | Some u \<Rightarrow>
          if source_path_ok (item_source_path i) \<and> content_hash_ok (item_content_hash i)
          then Some (i\<lparr>item_uri := print_uri u\<rparr>) else None)"

definition validate_checkpoint :: "(string \<Rightarrow> bool) \<Rightarrow> checkpoint \<Rightarrow> checkpoint option" where
  "validate_checkpoint hostok c =
     (if \<not> checkpoint_id_ok (chk_id c) \<or> \<not> label_ok (chk_label c) \<or> chk_items c = []
         \<or> (case chk_topic c of None \<Rightarrow> False | Some t \<Rightarrow> \<not> topic_slug_ok t) then None
      else case those_map (validate_item hostok) (chk_items c) of
        None \<Rightarrow> None
      | Some xs \<Rightarrow> if distinct (map item_uri xs) then Some (c\<lparr>chk_items := xs\<rparr>) else None)"

section \<open>Frontmatter\<close>

definition rstrip_cr :: "string \<Rightarrow> string" where
  "rstrip_cr s = rev (dropWhile (\<lambda>c. c = CHR 0x0D) (rev s))"

definition delimiter_line :: "string \<Rightarrow> bool" where
  "delimiter_line s \<longleftrightarrow> rstrip_cr s = ''---''"

definition split_frontmatter :: "string \<Rightarrow> (string \<times> string) option" where
  "split_frontmatter text =
     (case split_on CHR 0x0A text of
        [] \<Rightarrow> None
      | first # rest \<Rightarrow>
          if \<not> delimiter_line first then None
          else if \<not> list_ex delimiter_line rest then None
          else Some (join_on CHR 0x0A (takeWhile (\<lambda>l. \<not> delimiter_line l) rest),
                     join_on CHR 0x0A (drop 1 (dropWhile (\<lambda>l. \<not> delimiter_line l) rest))))"

end
