(* ===== verification/ReferenceLaws.thy ===== *)
theory ReferenceLaws
  imports References
begin

text \<open>
  The laws of references: percent encoding and decoding, the round trips of the Work Context and
  repository references, the canonical form of every durable reference, and the disjointness of the
  identifier families.
\<close>

section \<open>Percent encoding\<close>

lemma code_lt [simp]: "code c < 256"
  unfolding code_def using of_char_mod_256 [of c, where 'a = nat] by (metis mod_less_divisor zero_less_numeral)

lemma code_char_of [simp]: "n < 256 \<Longrightarrow> code (char_of n) = n"
  by (simp add: code_def)

lemma char_of_code [simp]: "char_of (code c) = c"
  by (simp add: code_def)

lemma code_inj: "code c = code d \<longleftrightarrow> c = d"
  by (metis char_of_code)

lemma utf8_char_decode: "utf8_decode (utf8_char c @ bs) = map_option ((#) c) (utf8_decode bs)"
proof (cases "code c < 128")
  case False
  have "128 \<le> code c" "code c < 256" using False by simp_all
  moreover have "code c div 64 = 2 \<or> code c div 64 = 3" using calculation by linarith
  moreover have "128 + code c mod 64 < 192" using mod_less_divisor [of 64 "code c"] by linarith
  moreover have "code c = code c div 64 * 64 + code c mod 64" by simp
  then have "char_of (code c div 64 * 64 + code c mod 64) = c" by (metis char_of_code)
  then have "code c div 64 = 2 \<Longrightarrow> char_of (128 + code c mod 64) = c"
    "code c div 64 = 3 \<Longrightarrow> char_of (192 + code c mod 64) = c" by simp_all
  ultimately show ?thesis by (auto simp: utf8_char_def Let_def)
qed (simp add: utf8_char_def Let_def)

lemma utf8_decode_encode: "utf8_decode (utf8_encode s) = Some s"
  by (induction s) (simp_all add: utf8_encode_def utf8_char_decode)

lemma utf8_decode_ascii: "list_all is_ascii s \<Longrightarrow> utf8_decode s = Some s"
  by (induction s) (simp_all add: is_ascii_def)

lemma hex_digit_hex: "n < 16 \<Longrightarrow> is_hex (hex_digit n) \<and> hex_value (hex_digit n) = n \<and> is_alpha (hex_digit n) \<or> n < 10 \<and> is_hex (hex_digit n) \<and> hex_value (hex_digit n) = n \<and> is_digit (hex_digit n)"
  by (auto simp: hex_digit_def is_hex_def is_lower_hex_def is_digit_def hex_value_def is_alpha_def
      is_upper_def is_lower_def Let_def simp flip: code_def)

lemma hex_digit_facts:
  "n < 16 \<Longrightarrow> is_hex (hex_digit n)" "n < 16 \<Longrightarrow> hex_value (hex_digit n) = n"
  "n < 16 \<Longrightarrow> unreserved (hex_digit n)"
  using hex_digit_hex [of n] by (auto simp: unreserved_def)

lemma not_percent: "unreserved c \<Longrightarrow> c \<noteq> CHR ''%''"
  by (auto simp: unreserved_def is_alpha_def is_lower_def is_upper_def is_digit_def)

lemma unquote_kept: "c \<noteq> CHR ''%'' \<Longrightarrow> unquote_to_bytes (c # s) = c # unquote_to_bytes s"
  by (cases s; cases "tl s") auto

lemma unquote_quote_byte:
  assumes "CHR ''%'' \<notin> set safe"
  shows "unquote_to_bytes (quote_byte safe b @ s) = b # unquote_to_bytes s"
proof (cases "unreserved b \<or> b \<in> set safe")
  case True
  then have "b \<noteq> CHR ''%''" using assms not_percent by auto
  with True show ?thesis by (simp add: quote_byte_def unquote_kept)
next
  case False
  have "code b div 16 < 16" "code b mod 16 < 16" using code_lt [of b] by linarith+
  then show ?thesis using False by (simp add: quote_byte_def hex_digit_facts)
qed

lemma unquote_to_bytes_quote:
  "CHR ''%'' \<notin> set safe \<Longrightarrow> unquote_to_bytes (quote safe s) = utf8_encode s"
proof -
  assume "CHR ''%'' \<notin> set safe"
  then have "unquote_to_bytes (concat (map (quote_byte safe) bs)) = bs" for bs
    by (induction bs) (simp_all add: unquote_quote_byte)
  then show ?thesis by (simp add: quote_def)
qed

text \<open>The characters a quoted text consists of.\<close>

lemma quote_chars: "c \<in> set (quote safe s) \<Longrightarrow> unreserved c \<or> c = CHR ''%'' \<or> c \<in> set safe"
proof -
  have "c \<in> set (quote_byte safe b) \<Longrightarrow> unreserved c \<or> c = CHR ''%'' \<or> c \<in> set safe" for b
  proof -
    have "code b div 16 < 16" "code b mod 16 < 16" using code_lt [of b] by linarith+
    then show "c \<in> set (quote_byte safe b) \<Longrightarrow> ?thesis"
      using hex_digit_facts(3) by (auto simp: quote_byte_def split: if_splits)
  qed
  then show "c \<in> set (quote safe s) \<Longrightarrow> ?thesis" by (auto simp: quote_def)
qed

lemma quote_percent_ok: "CHR ''%'' \<notin> set safe \<Longrightarrow> percent_ok (quote safe s)"
proof -
  assume safe: "CHR ''%'' \<notin> set safe"
  have "percent_ok (quote_byte safe b @ t) \<longleftrightarrow> percent_ok t" for b t
  proof (cases "unreserved b \<or> b \<in> set safe")
    case True
    then have "b \<noteq> CHR ''%''" using safe not_percent by auto
    with True show ?thesis by (simp add: quote_byte_def)
  next
    case False
    have n: "code b div 16 < 16" "code b mod 16 < 16" using code_lt [of b] by linarith+
    show ?thesis
      using False hex_digit_facts(1,3) [OF n(1)] hex_digit_facts(1,3) [OF n(2)] not_percent
      by (simp add: quote_byte_def)
  qed
  then have "percent_ok (concat (map (quote_byte safe) bs))" for bs
    by (induction bs) simp_all
  then show ?thesis by (simp add: quote_def)
qed

lemma quote_nonempty: "s \<noteq> [] \<Longrightarrow> quote safe s \<noteq> []"
proof -
  assume "s \<noteq> []"
  then obtain b bs where "utf8_encode s = b # bs"
    by (cases s; cases "utf8_encode s") (auto simp: utf8_encode_def utf8_char_def Let_def split: if_splits)
  then show ?thesis by (simp add: quote_def quote_byte_def)
qed

definition plain_char :: "char \<Rightarrow> bool" where
  "plain_char c \<longleftrightarrow> unreserved c \<or> c = CHR ''%'' \<or> c = CHR ''/'' \<or> c = CHR ''@''"

lemma plain_char_facts:
  assumes "plain_char c"
  shows "is_ascii c" "32 < code c" "c \<noteq> CHR ''#''" "c \<noteq> CHR ''?''" "c \<noteq> CHR '':''"
  using assms
  by (auto simp: plain_char_def unreserved_def is_alpha_def is_lower_def is_upper_def is_digit_def
      is_ascii_def code_def)

lemma unquote_runs_ascii:
  assumes all: "list_all is_ascii s"
  shows "unquote_runs s = utf8_decode (unquote_to_bytes s)"
proof (cases "s = []")
  case True
  then show ?thesis by (simp add: unquote_runs.simps)
next
  case False
  have hd: "is_ascii (hd s)" using all False by (cases s) auto
  have parts: "takeWhile is_ascii s = s" "dropWhile is_ascii s = []"
    using all by (simp_all add: list_all_iff takeWhile_eq_all_conv dropWhile_eq_Nil_conv)
  have "unquote_runs [] = Some []" by (simp add: unquote_runs.simps)
  then show ?thesis
    using False hd unfolding unquote_runs.simps [of s] parts by (simp split: option.splits)
qed

lemma unquote_to_bytes_plain: "CHR ''%'' \<notin> set s \<Longrightarrow> unquote_to_bytes s = s"
  by (induction s) (auto simp: unquote_kept)

lemma unquote_quote:
  assumes "list_all plain_char safe" "CHR ''%'' \<notin> set safe"
  shows "unquote (quote safe s) = Some s"
proof -
  have ascii: "list_all is_ascii (quote safe s)"
    using quote_chars [of _ safe s] assms(1) plain_char_facts(1)
    by (auto simp: list_all_iff plain_char_def)
  note b = unquote_to_bytes_quote [OF assms(2), of s]
  show ?thesis
  proof (cases "CHR ''%'' \<in> set (quote safe s)")
    case True
    then show ?thesis using unquote_runs_ascii [OF ascii] b by (simp add: unquote_def utf8_decode_encode)
  next
    case False
    then have "quote safe s = utf8_encode s" using b unquote_to_bytes_plain by simp
    then have "utf8_decode (quote safe s) = Some s" by (simp add: utf8_decode_encode)
    then show ?thesis using False utf8_decode_ascii [OF ascii] by (simp add: unquote_def)
  qed
qed


section \<open>Work Context URIs\<close>

lemma alnum_plain: "is_lower_alnum c \<Longrightarrow> plain_char c \<and> c \<noteq> CHR ''/'' \<and> c \<noteq> CHR ''@''"
  by (auto simp: plain_char_def unreserved_def is_alpha_def is_lower_alnum_def is_lower_def is_digit_def)

lemma split_on_chars: "c \<in> set s \<Longrightarrow> c = d \<or> (\<exists>p\<in>set (split_on d s). c \<in> set p)"
proof (induction s)
  case (Cons a s)
  then show ?case by (cases "split_on d s") auto
qed simp

lemma kebab_chars: "kebab s \<Longrightarrow> c \<in> set s \<Longrightarrow> is_lower_alnum c \<or> c = CHR ''-''"
  using split_on_chars [of c s "CHR ''-''"] by (auto simp: kebab_def list_all_iff)

lemma kebab_plain: "kebab s \<Longrightarrow> c \<in> set s \<Longrightarrow> plain_char c \<and> c \<noteq> CHR ''/'' \<and> c \<noteq> CHR ''@''"
  using kebab_chars alnum_plain by (auto simp: plain_char_def unreserved_def)

lemma url_text_plain: "\<forall>c\<in>set s. 32 < code c \<Longrightarrow> url_text s = s"
proof -
  assume a: "\<forall>c\<in>set s. 32 < code c"
  then have "dropWhile (\<lambda>c. code c \<le> 32) s = s" by (cases s) auto
  moreover have "filter (\<lambda>c. code c \<notin> {9, 10, 13}) s = s" using a by (intro filter_True) auto
  ultimately show ?thesis by (simp add: url_text_def)
qed

lemma cut_none: "d \<notin> set s \<Longrightarrow> cut d s = (s, [])"
proof -
  assume "d \<notin> set s"
  then have parts: "takeWhile (\<lambda>c. c \<noteq> d) s = s" "dropWhile (\<lambda>c. c \<noteq> d) s = []"
    by (auto simp: takeWhile_eq_all_conv dropWhile_eq_Nil_conv)
  show ?thesis unfolding cut_def parts by simp
qed

lemma cut_at: "d \<notin> set s \<Longrightarrow> cut d (s @ d # t) = (s, t)"
  by (simp add: cut_def takeWhile_tail) (subst dropWhile_append2; auto)

text \<open>Splitting a URL that is written with plain characters only.\<close>

lemma urlparse_plain:
  assumes "scheme = ''workctx'' \<or> scheme = ''repo''"
    and "\<forall>c\<in>set (host @ path @ frag). 32 < code c" "\<forall>c\<in>set host. netloc_char c"
    and "path \<noteq> []" "hd path = CHR ''/''" "CHR ''#'' \<notin> set path" "CHR ''?'' \<notin> set path" "hostok host"
  shows "urlparse hostok (scheme @ ''://'' @ host @ path @ (if frag = [] then [] else CHR ''#'' # frag))
    = Some \<lparr>url_scheme = scheme, url_netloc = host, url_path = path, url_query = [], url_fragment = frag\<rparr>"
proof -
  let ?tail = "path @ (if frag = [] then [] else CHR ''#'' # frag)"
  let ?v = "scheme @ ''://'' @ host @ ?tail"
  have "\<forall>c\<in>set ?v. 32 < code c" using assms(1,2) by (auto simp: code_def)
  then have "url_text ?v = ?v" by (rule url_text_plain)
  moreover have "split_scheme ?v = (scheme, ''//'' @ host @ ?tail)"
    using assms(1) by (auto simp: split_scheme_def Let_def is_alpha_def is_lower_def is_upper_def
        scheme_char_def lower_char_def code_def)
  moreover have "takeWhile netloc_char (host @ ?tail) = host" "dropWhile netloc_char (host @ ?tail) = ?tail"
    using assms(3-5) by (cases path; simp add: netloc_char_def takeWhile_append2 dropWhile_append2)+
  then have "split_netloc (''//'' @ host @ ?tail) = (host, ?tail)" by (simp add: split_netloc_def)
  moreover have "cut CHR ''#'' ?tail = (path, frag)" using cut_none [OF assms(6)] cut_at [OF assms(6)] by auto
  ultimately show ?thesis using assms(7,8) cut_none [OF assms(7)] by (simp add: urlparse_def)
qed

lemma parse_uri_valid: "parse_uri hostok v = Some u \<Longrightarrow> valid_uri u"
  by (auto simp: parse_uri_def Let_def split: option.splits list.splits if_splits)

lemma parse_print_uri:
  assumes "valid_uri u" "hostok (uri_context u)"
  shows "parse_uri hostok (print_uri u) = Some u"
proof -
  let ?q = "quote ''-._~'' (uri_entity_id u)"
  have q: "\<forall>c\<in>set ?q. plain_char c \<and> c \<noteq> CHR ''/''"
  proof
    fix c
    assume "c \<in> set ?q"
    then have "unreserved c \<or> c = CHR ''%'' \<or> c \<in> set ''-._~''" by (rule quote_chars)
    then show "plain_char c \<and> c \<noteq> CHR ''/''"
      by (auto simp: plain_char_def unreserved_def is_alpha_def is_lower_def is_upper_def is_digit_def)
  qed
  have k: "\<forall>c\<in>set (uri_context u). plain_char c \<and> c \<noteq> CHR ''/''"
    "\<forall>c\<in>set (uri_entity_type u). plain_char c \<and> c \<noteq> CHR ''/''"
    using assms(1) kebab_plain by (auto simp: valid_uri_def)
  let ?path = "CHR ''/'' # uri_entity_type u @ ''/'' @ ?q"
  have p: "\<forall>c\<in>set ?path. c \<noteq> CHR ''#'' \<and> c \<noteq> CHR ''?'' \<and> 32 < code c"
  proof
    fix c
    assume "c \<in> set ?path"
    then have "plain_char c" using q k(2) by (auto simp: plain_char_def)
    then show "c \<noteq> CHR ''#'' \<and> c \<noteq> CHR ''?'' \<and> 32 < code c" by (simp add: plain_char_facts)
  qed
  have h: "\<forall>c\<in>set (uri_context u). netloc_char c \<and> 32 < code c \<and> c \<noteq> CHR ''#'' \<and> c \<noteq> CHR ''?''"
    using k(1) by (simp add: netloc_char_def plain_char_facts)
  have "urlparse hostok (''workctx'' @ ''://'' @ uri_context u @ ?path @ (if ([] :: string) = [] then [] else CHR ''#'' # []))
    = Some \<lparr>url_scheme = ''workctx'', url_netloc = uri_context u, url_path = ?path, url_query = [],
        url_fragment = []\<rparr>"
    using p h assms(2) by (intro urlparse_plain) auto
  then have url: "urlparse hostok (print_uri u)
    = Some \<lparr>url_scheme = ''workctx'', url_netloc = uri_context u, url_path = ?path, url_query = [],
        url_fragment = []\<rparr>"
    by (simp add: print_uri_def)
  have chars: "CHR ''?'' \<notin> set (print_uri u)" "CHR ''#'' \<notin> set (print_uri u)"
    using p h by (auto simp: print_uri_def)
  have split: "split_on CHR ''/'' ?path = [[], uri_entity_type u, ?q]"
  proof -
    have "CHR ''/'' \<notin> set (uri_entity_type u)" "CHR ''/'' \<notin> set ?q" using k(2) q by blast+
    then show ?thesis by (simp add: split_on_append split_on_whole)
  qed
  have safe: "list_all plain_char ''-._~''" "CHR ''%'' \<notin> set ''-._~''"
    by (auto simp: plain_char_def unreserved_def)
  have "uri_entity_type u \<noteq> []" "?q \<noteq> []"
    using assms(1) kebab_not_Nil quote_nonempty by (auto simp: valid_uri_def)
  moreover have "valid_uri \<lparr>uri_context = uri_context u, uri_entity_type = uri_entity_type u,
      uri_entity_id = uri_entity_id u\<rparr>" using assms(1) by (simp add: valid_uri_def)
  ultimately show ?thesis
    unfolding parse_uri_def url using chars split quote_percent_ok [OF safe(2)] unquote_quote [OF safe] assms(1)
    by (simp add: Let_def)
qed


section \<open>Repository references\<close>

lemma digits_chars: "digits n \<noteq> [] \<and> list_all is_digit (digits n) \<and> (0 < n \<longrightarrow> hd (digits n) \<noteq> CHR ''0'')"
proof (induction n rule: digits.induct)
  case (1 n)
  have d: "is_digit (char_of (48 + k))" if "k < 10" for k :: nat
    using that by (simp add: is_digit_def)
  have z: "char_of (48 + k) \<noteq> CHR ''0''" if "0 < k" "k < 10" for k :: nat
  proof
    assume "char_of (48 + k) = CHR ''0''"
    then have "code (char_of (48 + k)) = code (CHR ''0'')" by simp
    then show False using that by (simp add: code_def)
  qed
  show ?case
  proof (cases "n < 10")
    case True
    then show ?thesis using d z by (subst (1 2 3) digits.simps) simp
  next
    case False
    then have "digits n = digits (n div 10) @ [char_of (48 + n mod 10)]" by (subst digits.simps) simp
    then show ?thesis using 1 False d [of "n mod 10"] by (simp add: hd_append)
  qed
qed

lemma read_nat_snoc: "read_nat (s @ [c]) = 10 * read_nat s + (code c - 48)"
  by (simp add: read_nat_def)

lemma read_digits: "read_nat (digits n) = n"
proof (induction n rule: digits.induct)
  case (1 n)
  show ?case
  proof (cases "n < 10")
    case True
    then show ?thesis by (subst digits.simps) (simp add: read_nat_def code_def)
  next
    case False
    then have "digits n = digits (n div 10) @ [char_of (48 + n mod 10)]" by (subst digits.simps) simp
    then show ?thesis using 1 False by (simp add: read_nat_snoc)
  qed
qed

lemma digit_facts: "is_digit c \<Longrightarrow> plain_char c \<and> c \<noteq> CHR ''-'' \<and> c \<noteq> CHR ''/'' \<and> 32 < code c"
  by (auto simp: plain_char_def unreserved_def is_digit_def code_def)

lemma digits_plain: "c \<in> set (digits n) \<Longrightarrow> plain_char c \<and> c \<noteq> CHR ''-'' \<and> c \<noteq> CHR ''/'' \<and> 32 < code c"
  using digits_chars [of n] digit_facts by (auto simp: list_all_iff)

lemma parse_lines_print:
  assumes "0 < m" "0 < n"
  shows "parse_lines (''L'' @ digits m @ ''-L'' @ digits n) = Some (m, n)"
proof -
  have a: "CHR ''-'' \<notin> set (CHR ''L'' # digits m)" and b: "CHR ''-'' \<notin> set (CHR ''L'' # digits n)"
    using digits_plain by fastforce+
  have "split_on CHR ''-'' ((CHR ''L'' # digits m) @ CHR ''-'' # (CHR ''L'' # digits n))
    = [CHR ''L'' # digits m, CHR ''L'' # digits n]"
    by (simp only: split_on_append [OF a] split_on_whole [OF b])
  then show ?thesis
    using digits_chars [of m] digits_chars [of n] assms
    by (simp add: parse_lines_def after_def counting_def read_digits)
qed

lemma repo_id_plain: "valid_repo_id s \<Longrightarrow> c \<in> set s \<Longrightarrow> plain_char c \<and> c \<noteq> CHR ''/'' \<and> c \<noteq> CHR ''@''"
proof -
  assume v: "valid_repo_id s" and c: "c \<in> set s"
  let ?f = "\<lambda>c. if c \<in> set ''._'' then CHR ''-'' else c"
  have "?f c \<in> set (map ?f s)" using c by (simp only: set_map) (rule imageI)
  then have "is_lower_alnum (?f c) \<or> ?f c = CHR ''-''"
    using kebab_chars v unfolding valid_repo_id_def by blast
  then show ?thesis
    using alnum_plain by (auto simp: plain_char_def unreserved_def split: if_splits)
qed

lemma commit_plain: "valid_commit s \<Longrightarrow> c \<in> set s \<Longrightarrow> plain_char c \<and> c \<noteq> CHR ''/'' \<and> c \<noteq> CHR ''@''"
  by (auto simp: valid_commit_def list_all_iff is_hex_def is_lower_hex_def is_digit_def plain_char_def
      unreserved_def is_alpha_def is_lower_def is_upper_def dest!: bspec)

lemma parse_repo_some: "parse_repo hostok v = Some r \<Longrightarrow> valid_repo r \<and> print_repo r = v"
  by (auto simp: parse_repo_def Let_def split: option.splits if_splits prod.splits)

lemma parse_print_repo:
  assumes "valid_repo r" "hostok (repo_id r @ ''@'' @ repo_commit r)"
  shows "parse_repo hostok (print_repo r) = Some r"
proof -
  let ?q = "quote ''/-._~'' (repo_path r)"
  let ?host = "repo_id r @ ''@'' @ repo_commit r"
  let ?frag = "''L'' @ digits (repo_start r) @ ''-L'' @ digits (repo_end r)"
  have v: "valid_repo_id (repo_id r)" "valid_commit (repo_commit r)" "repo_path r \<noteq> []"
    "0 < repo_start r" "0 < repo_end r"
    using assms(1) by (auto simp: valid_repo_def valid_repo_path_def)
  have q: "plain_char c" if "c \<in> set ?q" for c
    using quote_chars [OF that] by (auto simp: plain_char_def unreserved_def)
  have host: "plain_char c \<and> c \<noteq> CHR ''/''" if "c \<in> set ?host" for c
    using that repo_id_plain [OF v(1)] commit_plain [OF v(2)] by (auto simp: plain_char_def)
  have host2: "netloc_char c" if "c \<in> set ?host" for c
    using host [OF that] plain_char_facts [of c] by (simp add: netloc_char_def)
  have path: "plain_char c" if "c \<in> set (CHR ''/'' # ?q)" for c
    using that q by (auto simp: plain_char_def)
  have frag: "32 < code c" if "c \<in> set ?frag" for c
    using that digits_plain by (auto simp: code_def [of "CHR ''L''"] code_def [of "CHR ''-''"])
  have all: "\<forall>c\<in>set (?host @ (CHR ''/'' # ?q) @ ?frag). 32 < code c"
  proof
    fix c
    assume "c \<in> set (?host @ (CHR ''/'' # ?q) @ ?frag)"
    then consider "c \<in> set ?host" | "c \<in> set (CHR ''/'' # ?q)" | "c \<in> set ?frag"
      unfolding set_append by blast
    then show "32 < code c" using host path frag plain_char_facts(2) by cases blast+
  qed
  have p1: "\<forall>c\<in>set ?host. netloc_char c" using host2 by blast
  have p2: "CHR ''#'' \<notin> set (CHR ''/'' # ?q)" using path plain_char_facts(3) by blast
  have p3: "CHR ''?'' \<notin> set (CHR ''/'' # ?q)" using path plain_char_facts(4) by blast
  have "urlparse hostok (''repo'' @ ''://'' @ ?host @ (CHR ''/'' # ?q) @ (if ?frag = [] then [] else CHR ''#'' # ?frag))
    = Some \<lparr>url_scheme = ''repo'', url_netloc = ?host, url_path = CHR ''/'' # ?q, url_query = [],
        url_fragment = ?frag\<rparr>"
    by (rule urlparse_plain [of "''repo''" ?host "CHR ''/'' # ?q" ?frag hostok, 
        OF _ all p1 _ _ p2 p3 assms(2)]) simp_all
  then have url: "urlparse hostok (print_repo r) = Some \<lparr>url_scheme = ''repo'', url_netloc = ?host,
      url_path = CHR ''/'' # ?q, url_query = [], url_fragment = ?frag\<rparr>"
    by (simp add: print_repo_def)
  have host_parts: "cut CHR ''@'' (rev ?host) = (rev (repo_commit r), rev (repo_id r))"
    using commit_plain [OF v(2)] cut_at [of "CHR ''@''" "rev (repo_commit r)" "rev (repo_id r)"] by auto
  have safe: "list_all plain_char ''/-._~''" "CHR ''%'' \<notin> set ''/-._~''"
    by (auto simp: plain_char_def unreserved_def)
  have "valid_repo \<lparr>repo_id = repo_id r, repo_commit = repo_commit r, repo_path = repo_path r,
        repo_start = repo_start r, repo_end = repo_end r\<rparr>"
    "print_repo \<lparr>repo_id = repo_id r, repo_commit = repo_commit r, repo_path = repo_path r,
        repo_start = repo_start r, repo_end = repo_end r\<rparr> = print_repo r"
    using assms(1) by (simp_all add: valid_repo_def print_repo_def)
  moreover have "prefix ''repo://'' (print_repo r)" by (simp add: print_repo_def)
  ultimately show ?thesis
    unfolding parse_repo_def url
    using host_parts parse_lines_print [OF v(4,5)] quote_nonempty [OF v(3), of "''/-._~''"]
      quote_percent_ok [OF safe(2)] unquote_quote [OF safe] assms(1)
    by (simp add: Let_def)
qed

section \<open>Properties\<close>

text \<open>
  C34: Work Context URIs round-trip: the canonical text of a URI parses back to it exactly when the
  URI satisfies the constructor's checks, whatever characters the entity identifier has.
\<close>

theorem uri_roundtrip:
  assumes "hostok (uri_context u)"
  shows "parse_uri hostok (print_uri u) = Some u \<longleftrightarrow> valid_uri u"
  using parse_print_uri [of u hostok] parse_uri_valid [of hostok "print_uri u" u] assms by blast

text \<open>
  C35: A repository reference has one spelling: the parser accepts exactly the canonical text of the
  valid references, and returns the reference written.
\<close>

theorem repo_canonical:
  assumes "hostok (repo_id r @ ''@'' @ repo_commit r)"
  shows "parse_repo hostok v = Some r \<longleftrightarrow> valid_repo r \<and> v = print_repo r"
  using parse_print_repo [of r hostok] assms parse_repo_some [of hostok v r] by blast

text \<open>
  C36: Validating a durable reference never rewrites it: what is accepted is returned as it was
  written, so a stored reference can be compared as text.
\<close>

theorem durable_reference_canonical:
  assumes "validate_durable_reference hostok v = Some v'"
  shows "v' = v"
proof -
  obtain r where r: "parse_durable_reference hostok v = Some r" "v' = print_reference r"
    using assms by (auto simp: validate_durable_reference_def)
  have "print_artifact d = v" if "parse_artifact v = Some d" for d
    using that by (auto simp: parse_artifact_def print_artifact_def after_def prefix_def
        split: option.splits if_splits)
  moreover have "print_uri u = v" if "validate_entity_uri hostok v = Some u" for u
    using that by (auto simp: validate_entity_uri_def split: option.splits if_splits)
  ultimately show ?thesis
    using r parse_repo_some [of hostok v]
    by (auto simp: parse_durable_reference_def split: option.splits if_splits)
qed

fun family_prefix :: "id_family \<Rightarrow> string" where
  "family_prefix Artifact_id = ''ART-''"
| "family_prefix Evidence_id = ''EVD-''"
| "family_prefix Observation_id = ''EVD-''"
| "family_prefix Task_id = ''TASK-''"
| "family_prefix Subtask_id = ''TASK-''"
| "family_prefix Decision_id = ''DEC-''"
| "family_prefix Risk_id = ''RISK-''"
| "family_prefix Question_id = ''Q-''"
| "family_prefix Claim_id = ''CLM-''"
| "family_prefix Person_id = ''PER-''"
| "family_prefix System_id = ''SYS-''"

lemma matches_after_prefix: "matches_after p ok s \<Longrightarrow> prefix p s"
  by (auto simp: matches_after_def after_def split: option.splits if_splits)

lemma family_prefix_ok: "family_ok f s \<Longrightarrow> prefix (family_prefix f) s"
proof -
  have "prefix p s" if "matches_after p ok (take n s)" for p ok n
    using matches_after_prefix [OF that] take_is_prefix prefix_order.trans by blast
  then show "family_ok f s \<Longrightarrow> ?thesis" by (cases f) (auto dest: matches_after_prefix)
qed

lemma dated_slug_nth:
  assumes "dated_slug s" "i < length s"
  shows "is_lower_alnum (s ! i) \<or> s ! i = CHR ''-''"
proof -
  have d: "12 < length s" "\<forall>c\<in>set (take 8 s). is_digit c" "s ! 8 = CHR ''-''"
    "kebab (take (length s - 12) (drop 9 s))" "s ! (length s - 3) = CHR ''-''"
    "\<forall>c\<in>set (drop (length s - 2) s). is_digit c"
    using assms(1) by (auto simp: dated_slug_def digits_only_def list_all_iff)
  consider "i < 8" | "i = 8" | "9 \<le> i" "i < length s - 3" | "i = length s - 3" | "length s - 2 \<le> i"
    using assms(2) by linarith
  then show ?thesis
  proof cases
    case 1
    then have "take 8 s ! i \<in> set (take 8 s)" using assms(2) by (intro nth_mem) simp
    then show ?thesis using 1 d(2) by (simp add: is_lower_alnum_def)
  next
    case 3
    let ?k = "take (length s - 12) (drop 9 s)"
    have "?k ! (i - 9) \<in> set ?k" using 3 by (intro nth_mem) simp
    moreover have "?k ! (i - 9) = s ! i" using 3 by simp
    ultimately show ?thesis using kebab_chars [OF d(4)] by simp
  next
    case 5
    then have "drop (length s - 2) s ! (i - (length s - 2)) \<in> set (drop (length s - 2) s)"
      using assms(2) by (intro nth_mem) simp
    moreover have "drop (length s - 2) s ! (i - (length s - 2)) = s ! i"
      using 5 by (subst nth_drop) simp_all
    ultimately show ?thesis using d(6) by (simp add: is_lower_alnum_def)
  qed (use d in simp_all)
qed

lemma numbered_length: "matches_after p (numbered n) s \<Longrightarrow> length s = length p + 5 + n"
  by (auto simp: matches_after_def after_def numbered_def digits_only_def
      dest!: prefix_length_le split: option.splits if_splits)

lemma family_disjoint:
  assumes "family_ok f s" "family_ok g s"
  shows "f = g"
proof -
  have "prefix (family_prefix f) s" "prefix (family_prefix g) s" using assms family_prefix_ok by auto
  then have "prefix (family_prefix f) (family_prefix g) \<or> prefix (family_prefix g) (family_prefix f)"
    using prefix_same_cases by blast
  then have "f = g \<or> {f, g} = {Evidence_id, Observation_id} \<or> {f, g} = {Task_id, Subtask_id}"
    by (cases f; cases g; simp add: doubleton_eq_iff)
  moreover have False if "family_ok Evidence_id s" "family_ok Observation_id s"
  proof -
    have e: "dated_slug (drop 4 s)" "4 \<le> length s" and o: "8 \<le> length s"
      "dated_slug (drop 4 (take (length s - 8) s))" "prefix ''#OBS-'' (drop (length s - 8) s)"
      using that by (auto simp: matches_after_def after_def numeral_eq_Suc dest: prefix_length_le
          split: option.splits if_splits)
    have "16 < length s - 8" using o(2) by (auto simp: dated_slug_def)
    moreover have "hd (drop (length s - 8) s) = CHR ''#''" using o(3) by (auto simp: prefix_def)
    then have "s ! (length s - 8) = CHR ''#''" using o(1,2) hd_drop_conv_nth [of "length s - 8" s] by auto
    moreover have "drop 4 s ! (length s - 12) = s ! (length s - 8)" "length s - 12 < length (drop 4 s)"
      using calculation(1) by simp_all
    ultimately show False
      using dated_slug_nth [OF e(1), of "length s - 12"]
      by (auto simp: is_lower_alnum_def is_lower_def is_digit_def)
  qed
  moreover have False if "family_ok Task_id s" "family_ok Subtask_id s"
    using that numbered_length [of "''TASK-''" 3 s] numbered_length [of "''TASK-''" 3 "take (length s - 5) s"]
    by simp
  ultimately show ?thesis using assms by (auto simp: doubleton_eq_iff)
qed

text \<open>
  C37: The identifier families are disjoint, so the family a stable identifier is parsed into does
  not depend on the order in which the families are tried.
\<close>

theorem stable_id_family:
  "parse_stable_id s = Some (f, v) \<longleftrightarrow> family_ok f s \<and> v = s"
proof -
  have all: "f \<in> set stable_id_types" for f by (cases f) (simp_all add: stable_id_types_def)
  show ?thesis
  proof
    assume "parse_stable_id s = Some (f, v)"
    then show "family_ok f s \<and> v = s"
      by (auto simp: parse_stable_id_def dest: find_Some_in split: option.splits)
  next
    assume f: "family_ok f s \<and> v = s"
    then have "List.find (\<lambda>f. family_ok f s) stable_id_types = Some f"
      using family_disjoint by (intro find_unique all) auto
    then show "parse_stable_id s = Some (f, v)" using f by (simp add: parse_stable_id_def)
  qed
qed
section \<open>Examples\<close>

definition example_uri :: workctx_uri where
  "example_uri = \<lparr>uri_context = ''my-ctx'', uri_entity_type = ''risk'', uri_entity_id = ''A b#%?''\<rparr>"

definition example_repo :: repo_ref where
  "example_repo = \<lparr>repo_id = ''lib.a'', repo_commit = ''0123abc'', repo_path = ''src/a b.py'',
     repo_start = 7, repo_end = 12\<rparr>"

theorem uri_roundtrip_witness: "parse_uri (\<lambda>_. True) (print_uri example_uri) = Some example_uri"
proof -
  have "valid_uri example_uri" by code_simp
  then show ?thesis using uri_roundtrip [of "\<lambda>_. True" example_uri] by simp
qed

theorem repo_canonical_witness: "parse_repo (\<lambda>_. True) (print_repo example_repo) = Some example_repo"
proof -
  have "valid_repo example_repo" by code_simp
  then show ?thesis using repo_canonical [of "\<lambda>_. True" example_repo "print_repo example_repo"] by simp
qed

theorem durable_reference_canonical_witness:
  "\<exists>v. validate_durable_reference (\<lambda>_. True) ''https://x.y/z'' = Some v \<and> v = ''https://x.y/z''"
proof -
  have "validate_durable_reference (\<lambda>_. True) ''https://x.y/z'' \<noteq> None" by code_simp
  then obtain v where "validate_durable_reference (\<lambda>_. True) ''https://x.y/z'' = Some v" by blast
  then show ?thesis using durable_reference_canonical by blast
qed

end
