(* ===== verification/DocumentLaws.thy ===== *)
theory DocumentLaws
  imports Documents ReferenceLaws
begin

text \<open>
  The laws of the canonical documents: the identity of an accepted entity, the task hierarchy, and
  the round trip of frontmatter and body.
\<close>

section \<open>Entities\<close>

lemma validate_entity_stored:
  assumes "validate_entity hostok e = Some e'" "\<And>c. kebab c \<Longrightarrow> hostok c"
  shows "validate_entity hostok e' = Some e'"
    and "\<exists>c. kebab c \<and> ent_uri e' = print_uri
       \<lparr>uri_context = c, uri_entity_type = ent_type e', uri_entity_id = ent_id e'\<rparr>"
proof -
  obtain u where u: "entity_fields_ok e" "parse_uri hostok (ent_uri e) = Some u"
    using assms(1) by (auto simp: validate_entity_def split: if_splits option.splits)
  have v: "valid_uri u" using parse_uri_valid [OF u(2)] .
  then have "hostok (uri_context u)" using assms(2) by (simp add: valid_uri_def)
  then have p: "parse_uri hostok (print_uri u) = Some u" using parse_print_uri v by blast
  have e': "uri_entity_type u = ent_type e" "uri_entity_id u = ent_id e" "e' = e\<lparr>ent_uri := print_uri u\<rparr>"
    using assms(1) u p by (auto simp: validate_entity_def Let_def split: if_splits)
  have "print_uri u \<noteq> []" by (simp add: print_uri_def)
  then have "entity_fields_ok e'" using u(1) e'(3) by (simp add: entity_fields_ok_def)
  then show "validate_entity hostok e' = Some e'"
    using p e' by (simp add: validate_entity_def Let_def)
  have "ent_uri e' = print_uri
       \<lparr>uri_context = uri_context u, uri_entity_type = ent_type e', uri_entity_id = ent_id e'\<rparr>"
    using e' by (simp add: print_uri_def)
  then show "\<exists>c. kebab c \<and> ent_uri e' = print_uri
       \<lparr>uri_context = c, uri_entity_type = ent_type e', uri_entity_id = ent_id e'\<rparr>"
    using v by (auto simp: valid_uri_def)
qed

text \<open>
  C38: An accepted entity is stored under its own identity: its URI is the canonical text of its type
  and identifier in some context, and validating the stored form again changes nothing.
\<close>

theorem entity_identity:
  assumes "validate_entity hostok e = Some e'" "\<And>c. kebab c \<Longrightarrow> hostok c"
  shows "(\<exists>c. kebab c \<and> ent_uri e' = print_uri
       \<lparr>uri_context = c, uri_entity_type = ent_type e', uri_entity_id = ent_id e'\<rparr>)
     \<and> validate_entity hostok e' = Some e'"
  using validate_entity_stored [OF assms] by blast

section \<open>Task hierarchy\<close>

lemma index_tasks_Inr:
  "index_tasks ts m = Inr m' \<longleftrightarrow>
     distinct (map ent_id ts) \<and> (\<forall>t\<in>set ts. m (ent_id t) = None)
     \<and> m' = m ++ map_of (rev (map (\<lambda>t. (ent_id t, t)) ts))"
proof (induction ts arbitrary: m)
  case (Cons t ts)
  let ?M = "map_of (rev (map (\<lambda>t. (ent_id t, t)) ts))"
  have upd: "m ++ map_of (rev (map (\<lambda>t. (ent_id t, t)) (t # ts))) = m(ent_id t \<mapsto> t) ++ ?M"
  proof -
    have "m ++ [ent_id t \<mapsto> t] = m(ent_id t \<mapsto> t)" by simp
    then show ?thesis by (simp add: map_of_append map_add_assoc del: map_add_upd)
  qed
  have free: "(\<forall>u\<in>set ts. (m(ent_id t \<mapsto> t)) (ent_id u) = None)
      \<longleftrightarrow> ent_id t \<notin> ent_id ` set ts \<and> (\<forall>u\<in>set ts. m (ent_id u) = None)"
    by (auto split: if_splits simp: image_iff)
  show ?case
  proof (cases "m (ent_id t) = None")
    case True
    then have go: "index_tasks (t # ts) m = index_tasks ts (m(ent_id t \<mapsto> t))" by simp
    show ?thesis unfolding go upd Cons.IH [of "m(ent_id t \<mapsto> t)"] free using True by auto
  qed simp
qed auto

lemma check_parents_Inr: "check_parents m ts = Inr () \<longleftrightarrow> (\<forall>t\<in>set ts. check_parent m t = Inr ())"
  by (induction ts) (auto simp: result_simps)

lemma subtask_parent_differs: "family_ok Subtask_id s \<Longrightarrow> family_ok Task_id (subtask_parent s) \<and> \<not> family_ok Task_id s"
  using family_disjoint [of Subtask_id s Task_id] by (auto simp: subtask_parent_def)

text \<open>
  C39: For tasks that are valid one by one, the hierarchy check accepts exactly the collections with
  unique identifiers, one context, and the parent named by every subtask's identifier present; the
  remaining error branches are never taken.
\<close>

theorem task_hierarchy_iff:
  assumes "\<forall>t\<in>set ts. validate_task hostok t = Some t"
  shows "validate_task_hierarchy hostok ts = Inr () \<longleftrightarrow>
     distinct (map ent_id ts)
     \<and> (\<forall>t\<in>set ts. \<forall>u\<in>set ts. task_context hostok t = task_context hostok u)
     \<and> (\<forall>t\<in>set ts. task_type t = Subtask \<longrightarrow> subtask_parent (ent_id t) \<in> ent_id ` set ts)"
proof -
  have ok: "consistent_hierarchy t" if "t \<in> set ts" for t
    using assms that by (auto simp: validate_task_def split: if_splits option.splits)
  let ?m = "map_of (rev (map (\<lambda>t. (ent_id t, t)) ts))"
  have look: "?m k = Some p \<longleftrightarrow> p \<in> set ts \<and> ent_id p = k" if "distinct (map ent_id ts)" for k p
  proof -
    have "?m = map_of (map (\<lambda>t. (ent_id t, t)) ts)"
      using that by (intro map_of_inject_set [THEN iffD2]) (auto simp: comp_def simp flip: rev_map)
    then show ?thesis using map_of_key_Some [OF that] by simp
  qed
  have parent: "check_parent ?m t = Inr () \<longleftrightarrow> (task_type t = Subtask \<longrightarrow> subtask_parent (ent_id t) \<in> ent_id ` set ts)"
    if t: "t \<in> set ts" and d: "distinct (map ent_id ts)" for t
  proof (cases "task_type t = Subtask")
    case True
    then have s: "family_ok Subtask_id (ent_id t)" "parent_task t = Some (subtask_parent (ent_id t))"
      "root_task t = subtask_parent (ent_id t)"
      using ok [OF t] by (auto simp: consistent_hierarchy_def)
    show ?thesis
    proof (cases "?m (subtask_parent (ent_id t))")
      case None
      then have "subtask_parent (ent_id t) \<notin> ent_id ` set ts"
        by (force simp: map_of_eq_None_iff)
      then show ?thesis using None True s(2) by (simp add: check_parent_def)
    next
      case (Some p)
      then have p: "p \<in> set ts" "ent_id p = subtask_parent (ent_id t)" using look [OF d] by auto
      have "task_type p \<noteq> Subtask"
      proof
        assume "task_type p = Subtask"
        then have "family_ok Subtask_id (ent_id p)" using ok [OF p(1)] by (auto simp: consistent_hierarchy_def)
        then show False using p(2) subtask_parent_differs s(1) by metis
      qed
      then have "task_type p = Parent_task" by (cases "task_type p") auto
      then have "root_task p = root_task t" using ok [OF p(1)] p(2) s(3) by (auto simp: consistent_hierarchy_def)
      moreover have "subtask_parent (ent_id t) \<in> ent_id ` set ts" using p by (metis image_eqI)
      ultimately show ?thesis using Some True s(2) \<open>task_type p = Parent_task\<close> by (simp add: check_parent_def)
    qed
  qed (simp add: check_parent_def)
  have one: "\<not> 1 < length (remdups (map (task_context hostok) ts)) \<longleftrightarrow>
      (\<forall>t\<in>set ts. \<forall>u\<in>set ts. task_context hostok t = task_context hostok u)"
  proof -
    have "length (remdups (map (task_context hostok) ts)) = card (task_context hostok ` set ts)"
      by (simp add: length_remdups_card_conv)
    then show ?thesis by (auto simp: card_le_Suc0_iff_eq not_less)
  qed
  have "validate_task_hierarchy hostok ts = Inr () \<longleftrightarrow> distinct (map ent_id ts)
      \<and> \<not> 1 < length (remdups (map (task_context hostok) ts))
      \<and> (\<forall>t\<in>set ts. task_type t = Subtask \<longrightarrow> subtask_parent (ent_id t) \<in> ent_id ` set ts)"
  proof (cases "distinct (map ent_id ts)")
    case True
    then have idx: "index_tasks ts Map.empty = Inr ?m" by (simp add: index_tasks_Inr)
    have chk: "check_parents ?m ts = Inr () \<longleftrightarrow>
        (\<forall>t\<in>set ts. task_type t = Subtask \<longrightarrow> subtask_parent (ent_id t) \<in> ent_id ` set ts)"
      unfolding check_parents_Inr by (rule ball_cong [OF refl]) (rule parent [OF _ True])
    show ?thesis using True by (simp add: validate_task_hierarchy_def idx chk)
  next
    case False
    then have "index_tasks ts Map.empty \<noteq> Inr m'" for m' by (simp add: index_tasks_Inr)
    then show ?thesis using False by (cases "index_tasks ts Map.empty") (auto simp: validate_task_hierarchy_def)
  qed
  then show ?thesis unfolding one .
qed

section \<open>Frontmatter\<close>

lemma split_on_lines:
  "split_on d (s @ d # t) = split_on d s @ split_on d t"
proof (induction s)
  case (Cons c s)
  then show ?case by (cases "split_on d s") (auto split: list.splits)
qed simp

text \<open>
  C40: Splitting a document that was put together from frontmatter and body returns both unchanged,
  whatever the body contains, as long as no line of the frontmatter is a delimiter.
\<close>

theorem frontmatter_roundtrip:
  assumes "\<forall>l\<in>set (split_on CHR 0x0A raw). \<not> delimiter_line l"
  shows "split_frontmatter (''---'' @ [CHR 0x0A] @ raw @ [CHR 0x0A] @ ''---'' @ [CHR 0x0A] @ body)
     = Some (raw, body)"
proof -
  have d: "delimiter_line ''---''" by (simp add: delimiter_line_def rstrip_cr_def)
  have s: "split_on CHR 0x0A (''---'' @ CHR 0x0A # raw @ CHR 0x0A # ''---'' @ CHR 0x0A # body)
    = ''---'' # split_on CHR 0x0A raw @ ''---'' # split_on CHR 0x0A body"
    by (simp add: split_on_append split_on_lines del: append_Cons append_Nil)
  let ?P = "\<lambda>l. \<not> delimiter_line l"
  have "takeWhile ?P (split_on CHR 0x0A raw @ ''---'' # split_on CHR 0x0A body) = split_on CHR 0x0A raw"
    "dropWhile ?P (split_on CHR 0x0A raw @ ''---'' # split_on CHR 0x0A body)
      = ''---'' # split_on CHR 0x0A body"
    using assms d by (simp_all add: takeWhile_append2 dropWhile_append2)
  then show ?thesis using s d by (simp add: split_frontmatter_def)
qed

section \<open>Examples\<close>

definition example_stamp :: stamp where
  "example_stamp = \<lparr>stamp_utc = 0, stamp_offset = 0\<rparr>"

definition example_task :: "string \<Rightarrow> task_type \<Rightarrow> string option \<Rightarrow> task" where
  "example_task i tt p = \<lparr>ent_schema_version = 1, ent_id = i, ent_type = ''task'', ent_title = ''t'',
     ent_uri = ''workctx://c/task/'' @ i, ent_aliases = [], ent_status = None, ent_confidence = None,
     ent_tags = [], ent_topics = [], ent_references = [], ent_created_at = example_stamp,
     ent_updated_at = example_stamp, task_type = tt, parent_task = p, root_task = ''TASK-2024-001'',
     task_priority = P1, task_status = Ready, task_owner = None, task_requester = None,
     task_waiting_on = [], task_due_at = None, task_next_action = ''x'', task_dependencies = [],
     task_blockers = [], task_observations = []\<rparr>"

definition example_tasks :: "task list" where
  "example_tasks = [example_task ''TASK-2024-001'' Parent_task None,
     example_task ''TASK-2024-001-ST01'' Subtask (Some ''TASK-2024-001'')]"

lemma example_tasks_valid:
  "validate_task (\<lambda>_. True) (example_task ''TASK-2024-001'' Parent_task None)
     = Some (example_task ''TASK-2024-001'' Parent_task None)"
  "validate_task (\<lambda>_. True) (example_task ''TASK-2024-001-ST01'' Subtask (Some ''TASK-2024-001''))
     = Some (example_task ''TASK-2024-001-ST01'' Subtask (Some ''TASK-2024-001''))"
  by code_simp+

theorem entity_identity_witness:
  "\<exists>c. ent_uri (example_task ''TASK-2024-001'' Parent_task None) = print_uri
     \<lparr>uri_context = c, uri_entity_type = ''task'', uri_entity_id = ''TASK-2024-001''\<rparr>"
proof -
  let ?t = "example_task ''TASK-2024-001'' Parent_task None"
  have "validate_entity (\<lambda>_. True) ?t = Some ?t"
    using example_tasks_valid(1) by (auto simp: validate_task_def split: if_splits option.splits)
  then have "\<exists>c. ent_uri ?t = print_uri
     \<lparr>uri_context = c, uri_entity_type = ent_type ?t, uri_entity_id = ent_id ?t\<rparr>"
    using entity_identity [of "\<lambda>_. True" ?t ?t] by auto
  then show ?thesis by (simp add: example_task_def)
qed

theorem task_hierarchy_iff_witness: "validate_task_hierarchy (\<lambda>_. True) example_tasks = Inr ()"
proof -
  have "distinct (map ent_id example_tasks)"
    "task_context (\<lambda>_. True) (example_tasks ! 0) = task_context (\<lambda>_. True) (example_tasks ! 1)"
    "subtask_parent ''TASK-2024-001-ST01'' = ''TASK-2024-001''" by code_simp+
  then show ?thesis
    using example_tasks_valid task_hierarchy_iff [of example_tasks "\<lambda>_. True"]
    by (auto simp: example_tasks_def example_task_def)
qed

theorem frontmatter_roundtrip_witness:
  "split_frontmatter (''---'' @ [CHR 0x0A] @ ''id: x'' @ [CHR 0x0A] @ ''---'' @ [CHR 0x0A] @ ''---'')
     = Some (''id: x'', ''---'')"
proof (rule frontmatter_roundtrip)
  show "\<forall>l\<in>set (split_on CHR 0x0A ''id: x''). \<not> delimiter_line l"
    by (simp add: delimiter_line_def rstrip_cr_def)
qed

end
