(* ===== verification/Proposals.thy ===== *)
theory Proposals
  imports Documents
begin

text \<open>
  Transaction proposals and audit events (\<open>domain/transactions.py\<close>): context paths, actors, payloads,
  operations, conditions, the proposal with its validator, and the audit event content with its
  validator. Parameters: \<open>nfc\<close> the Unicode normal form of a text, \<open>ck\<close> its collision key (NFC and
  case folding), \<open>hostok\<close> as for references.
\<close>

section \<open>Context paths\<close>

definition ledger_path :: string where
  "ledger_path = ''99_meta/audit/ledger.jsonl''"

definition workspace_zones :: "string list" where
  "workspace_zones = [''00_inbox'', ''01_processed'', ''02_knowledge'', ''03_work'', ''04_views'',
     ''05_outbox'', ''90_integrations'', ''99_meta'']"

definition context_path_ok :: "(string \<Rightarrow> string) \<Rightarrow> (string \<Rightarrow> string) \<Rightarrow> string \<Rightarrow> bool" where
  "context_path_ok nfc ck s \<longleftrightarrow>
     s \<noteq> [] \<and> ck s \<noteq> ck ledger_path
     \<and> CHR 0x5C \<notin> set s \<and> list_all (\<lambda>c. 32 \<le> code c) s
     \<and> s = nfc s
     \<and> (let parts = split_on CHR ''/'' s in
        hd parts \<in> set workspace_zones
        \<and> list_all (\<lambda>p. p \<noteq> [] \<and> p \<noteq> ''.'' \<and> p \<noteq> ''..'') parts
        \<and> list_all portable_segment parts)"

definition generated_path_ok :: "(string \<Rightarrow> string) \<Rightarrow> (string \<Rightarrow> string) \<Rightarrow> string \<Rightarrow> bool" where
  "generated_path_ok nfc ck s \<longleftrightarrow> context_path_ok nfc ck s \<and> prefix ''04_views/'' s"

section \<open>Data\<close>

datatype actor =
    Human string
  | Agent string string string
  | System string

fun actor_ok :: "actor \<Rightarrow> bool" where
  "actor_ok (Human i) \<longleftrightarrow> 1 \<le> length i \<and> length i \<le> 200"
| "actor_ok (Agent i a m) \<longleftrightarrow>
     1 \<le> length i \<and> length i \<le> 200 \<and> 1 \<le> length a \<and> length a \<le> 200 \<and> 1 \<le> length m \<and> length m \<le> 200"
| "actor_ok (System i) \<longleftrightarrow> 1 \<le> length i \<and> length i \<le> 200"

datatype payload =
    Entity_doc entity string
  | Task_doc task string
  | Claim_doc claim string
  | Observation_doc observation string
  | Artifact_doc artifact_manifest
  | Topics_doc topic_registry
  | Checkpoint_doc checkpoint

datatype operation =
    Create string payload
  | Update string payload string
  | Move string string string
  | Delete_generated string string

datatype condition =
    Path_exists string
  | Path_absent string
  | Path_hash string string
  | Reference_exists string

record proposal =
  prop_schema_version :: int
  prop_id :: string
  prop_context :: string
  prop_base_revision :: string
  prop_actor :: actor
  prop_created_at :: stamp
  prop_source_refs :: "string list"
  prop_operations :: "operation list"
  prop_preconditions :: "condition list"
  prop_postconditions :: "condition list"
  prop_expected_views :: "string list"
  prop_approval_required :: bool

section \<open>Payloads\<close>

definition special_entity_types :: "string list" where
  "special_entity_types = [''artifact'', ''claim'', ''observation'', ''task'']"

text \<open>Topic registries are validated where they are built (theory \<open>Topics\<close>).\<close>

fun validate_payload :: "(string \<Rightarrow> bool) \<Rightarrow> payload \<Rightarrow> payload option" where
  "validate_payload hostok (Entity_doc e b) =
     (case validate_entity hostok e of
        None \<Rightarrow> None
      | Some e' \<Rightarrow> if ent_type e' \<in> set special_entity_types then None else Some (Entity_doc e' b))"
| "validate_payload hostok (Task_doc t b) = map_option (\<lambda>t'. Task_doc t' b) (validate_task hostok t)"
| "validate_payload hostok (Claim_doc c b) = map_option (\<lambda>c'. Claim_doc c' b) (validate_claim hostok c)"
| "validate_payload hostok (Observation_doc x b) =
     map_option (\<lambda>x'. Observation_doc x' b) (validate_observation hostok x)"
| "validate_payload hostok (Artifact_doc a) = (if artifact_ok a then Some (Artifact_doc a) else None)"
| "validate_payload hostok (Topics_doc r) = Some (Topics_doc r)"
| "validate_payload hostok (Checkpoint_doc c) = map_option Checkpoint_doc (validate_checkpoint hostok c)"

text \<open>\<open>PurePosixPath.suffix\<close> and \<open>stem\<close> of the last part.\<close>

definition last_part :: "string \<Rightarrow> string" where
  "last_part s = (if pure_parts s = [] then [] else last (pure_parts s))"

definition name_split :: "string \<Rightarrow> string \<times> string" where
  "name_split name =
     (let ext = takeWhile (\<lambda>c. c \<noteq> CHR ''.'') (rev name);
          k = length name - length ext - 1
      in if CHR ''.'' \<in> set name \<and> 0 < k \<and> ext \<noteq> [] then (take k name, drop k name) else (name, []))"

definition path_suffix :: "string \<Rightarrow> string" where
  "path_suffix s = snd (name_split (last_part s))"

definition path_stem :: "string \<Rightarrow> string" where
  "path_stem s = fst (name_split (last_part s))"

definition topics_registry_path :: string where
  "topics_registry_path = ''99_meta/topics.yaml''"

definition markdown_zones :: "string list" where
  "markdown_zones = [''02_knowledge'', ''03_work'', ''05_outbox'']"

fun document_target_ok :: "string \<Rightarrow> payload \<Rightarrow> bool" where
  "document_target_ok t (Topics_doc _) \<longleftrightarrow> t = topics_registry_path"
| "document_target_ok t (Checkpoint_doc c) \<longleftrightarrow> t = checkpoint_path c \<and> prefix ''99_meta/'' t"
| "document_target_ok t (Artifact_doc _) \<longleftrightarrow>
     prefix ''00_inbox/manifests/'' t \<and> path_suffix t \<in> {''.json'', ''.yaml'', ''.yml''}"
| "document_target_ok t (Task_doc _ _) \<longleftrightarrow> path_suffix t = ''.md'' \<and> hd (pure_parts t) = ''03_work''"
| "document_target_ok t _ \<longleftrightarrow> path_suffix t = ''.md'' \<and> hd (pure_parts t) \<in> set markdown_zones"

fun payload_identifier :: "payload \<Rightarrow> string" where
  "payload_identifier (Entity_doc e _) = ent_id e"
| "payload_identifier (Task_doc t _) = ent_id t"
| "payload_identifier (Claim_doc c _) = claim_id c"
| "payload_identifier (Observation_doc x _) = obs_id x"
| "payload_identifier (Artifact_doc a) = art_id a"
| "payload_identifier (Topics_doc _) = ''topics''"
| "payload_identifier (Checkpoint_doc c) = chk_id c"

definition target_names_document :: "string \<Rightarrow> payload \<Rightarrow> bool" where
  "target_names_document t p \<longleftrightarrow>
     (let i = payload_identifier p; e = quote ''-._~'' i; stem = path_stem t in
      stem = i \<or> stem = e
      \<or> (case p of Artifact_doc _ \<Rightarrow> stem = i @ ''.manifest'' \<or> stem = e @ ''.manifest'' | _ \<Rightarrow> False))"

section \<open>References stay in the context\<close>

definition local_reference_ok :: "(string \<Rightarrow> bool) \<Rightarrow> string \<Rightarrow> string \<Rightarrow> bool" where
  "local_reference_ok hostok ctx v \<longleftrightarrow>
     (prefix ''workctx://'' v \<longrightarrow>
        (case parse_uri hostok v of None \<Rightarrow> False | Some u \<Rightarrow> uri_in_context ctx u))"

definition uri_of_context :: "(string \<Rightarrow> bool) \<Rightarrow> string \<Rightarrow> string \<Rightarrow> bool" where
  "uri_of_context hostok ctx v \<longleftrightarrow>
     (case parse_uri hostok v of None \<Rightarrow> False | Some u \<Rightarrow> uri_in_context ctx u)"

definition reference_in_context :: "(string \<Rightarrow> bool) \<Rightarrow> string \<Rightarrow> typed_reference \<Rightarrow> bool" where
  "reference_in_context hostok ctx r \<longleftrightarrow>
     local_reference_ok hostok ctx (ref_target r)
     \<and> list_all (local_reference_ok hostok ctx)
         (case ref_observations r of None \<Rightarrow> [] | Some os \<Rightarrow> os)"

fun payload_in_context :: "(string \<Rightarrow> bool) \<Rightarrow> string \<Rightarrow> payload \<Rightarrow> bool" where
  "payload_in_context hostok ctx (Entity_doc e _) \<longleftrightarrow>
     uri_of_context hostok ctx (ent_uri e)
     \<and> list_all (reference_in_context hostok ctx) (ent_references e)"
| "payload_in_context hostok ctx (Task_doc t _) \<longleftrightarrow>
     uri_of_context hostok ctx (ent_uri t)
     \<and> list_all (reference_in_context hostok ctx) (ent_references t)
     \<and> list_all (local_reference_ok hostok ctx) (task_observations t)"
| "payload_in_context hostok ctx (Claim_doc c _) \<longleftrightarrow>
     local_reference_ok hostok ctx (claim_subject c)
     \<and> list_all (local_reference_ok hostok ctx) (claim_observations c)"
| "payload_in_context hostok ctx (Observation_doc x _) \<longleftrightarrow>
     list_all (local_reference_ok hostok ctx) (obs_derived_from x)
     \<and> list_all (reference_in_context hostok ctx) (obs_related x)"
| "payload_in_context hostok ctx (Checkpoint_doc c) \<longleftrightarrow>
     list_all (\<lambda>i. uri_of_context hostok ctx (item_uri i)) (chk_items c)"
| "payload_in_context hostok ctx _ \<longleftrightarrow> True"

section \<open>Times\<close>

definition leap_year :: "int \<Rightarrow> bool" where
  "leap_year y \<longleftrightarrow> y mod 4 = 0 \<and> (y mod 100 \<noteq> 0 \<or> y mod 400 = 0)"

definition month_lengths :: "int \<Rightarrow> int list" where
  "month_lengths y = [31, if leap_year y then 29 else 28, 31, 30, 31, 30, 31, 31, 30, 31, 30, 31]"

definition days_before_year :: "int \<Rightarrow> int" where
  "days_before_year y = (let p = y - 1 in 365 * p + p div 4 - p div 100 + p div 400)"

definition read_field :: "string \<Rightarrow> nat \<Rightarrow> nat \<Rightarrow> int" where
  "read_field s k n = foldl (\<lambda>v c. 10 * v + (of_char c - 48)) 0 (take n (drop k s))"

text \<open>\<open>datetime.strptime(text, "%Y%m%dT%H%M%SZ")\<close> in UTC, in microseconds since the year 1.\<close>

definition compact_instant :: "string \<Rightarrow> int option" where
  "compact_instant s =
     (let y = read_field s 0 4; mo = read_field s 4 2; d = read_field s 6 2;
          h = read_field s 9 2; mi = read_field s 11 2; sec = read_field s 13 2;
          before_month = nat (mo - 1)
      in if \<not> compact_time s \<or> y < 1 \<or> mo < 1 \<or> 12 < mo \<or> d < 1 \<or> month_lengths y ! before_month < d
            \<or> 23 < h \<or> 59 < mi \<or> 59 < sec then None
         else Some ((((((days_before_year y + sum_list (take before_month (month_lengths y)) + (d - 1))
                * 24 + h) * 60 + mi) * 60 + sec) * 1000000)))"

section \<open>Proposals\<close>

definition proposal_id_ok :: "string \<Rightarrow> bool" where
  "proposal_id_ok = timed_slug ''TXP-''"

definition context_id_ok :: "string \<Rightarrow> bool" where
  "context_id_ok s \<longleftrightarrow> kebab s \<and> 2 \<le> length s \<and> length s \<le> 64"

definition revision_ok :: "string \<Rightarrow> bool" where
  "revision_ok s \<longleftrightarrow> length s = 64 \<and> list_all is_lower_hex s"

definition zero_revision :: string where
  "zero_revision = replicate 64 (CHR ''0'')"

fun operation_paths :: "operation \<Rightarrow> string list" where
  "operation_paths (Create t _) = [t]"
| "operation_paths (Update t _ _) = [t]"
| "operation_paths (Move s d _) = [s, d]"
| "operation_paths (Delete_generated t _) = [t]"

fun validate_operation ::
  "(string \<Rightarrow> string) \<Rightarrow> (string \<Rightarrow> string) \<Rightarrow> (string \<Rightarrow> bool) \<Rightarrow> operation \<Rightarrow> operation option" where
  "validate_operation nfc ck hostok (Create t p) =
     (case validate_payload hostok p of
        None \<Rightarrow> None
      | Some p' \<Rightarrow>
          if context_path_ok nfc ck t \<and> document_target_ok t p' then Some (Create t p') else None)"
| "validate_operation nfc ck hostok (Update t p h) =
     (case validate_payload hostok p of
        None \<Rightarrow> None
      | Some p' \<Rightarrow>
          if context_path_ok nfc ck t \<and> content_hash_ok h \<and> document_target_ok t p'
          then Some (Update t p' h) else None)"
| "validate_operation nfc ck hostok (Move s d h) =
     (if context_path_ok nfc ck s \<and> context_path_ok nfc ck d \<and> content_hash_ok h \<and> ck s \<noteq> ck d
      then Some (Move s d h) else None)"
| "validate_operation nfc ck hostok (Delete_generated t h) =
     (if generated_path_ok nfc ck t \<and> content_hash_ok h then Some (Delete_generated t h) else None)"

fun validate_condition ::
  "(string \<Rightarrow> string) \<Rightarrow> (string \<Rightarrow> string) \<Rightarrow> (string \<Rightarrow> bool) \<Rightarrow> condition \<Rightarrow> condition option" where
  "validate_condition nfc ck hostok (Path_exists p) =
     (if context_path_ok nfc ck p then Some (Path_exists p) else None)"
| "validate_condition nfc ck hostok (Path_absent p) =
     (if context_path_ok nfc ck p then Some (Path_absent p) else None)"
| "validate_condition nfc ck hostok (Path_hash p h) =
     (if context_path_ok nfc ck p \<and> content_hash_ok h then Some (Path_hash p h) else None)"
| "validate_condition nfc ck hostok (Reference_exists r) =
     map_option Reference_exists (validate_durable_reference hostok r)"

definition validate_source_refs :: "(string \<Rightarrow> bool) \<Rightarrow> string list \<Rightarrow> string list option" where
  "validate_source_refs hostok vs =
     (case those_map (validate_durable_reference hostok) vs of
        None \<Rightarrow> None | Some c \<Rightarrow> if distinct c then Some c else None)"

fun claim_paths :: "(string \<Rightarrow> string) \<Rightarrow> string set \<Rightarrow> string list \<Rightarrow> string set option" where
  "claim_paths ck seen [] = Some seen"
| "claim_paths ck seen (p # ps) =
     (if ck p \<in> seen then None else claim_paths ck (insert (ck p) seen) ps)"

definition paths_do_not_collide :: "(string \<Rightarrow> string) \<Rightarrow> operation list \<Rightarrow> bool" where
  "paths_do_not_collide ck ops \<longleftrightarrow> claim_paths ck {} (concat (map operation_paths ops)) \<noteq> None"

fun operation_in_context :: "(string \<Rightarrow> bool) \<Rightarrow> string \<Rightarrow> operation \<Rightarrow> bool" where
  "operation_in_context hostok ctx (Create t p) \<longleftrightarrow>
     payload_in_context hostok ctx p \<and> target_names_document t p"
| "operation_in_context hostok ctx (Update t p _) \<longleftrightarrow>
     payload_in_context hostok ctx p \<and> target_names_document t p"
| "operation_in_context hostok ctx _ \<longleftrightarrow> True"

fun condition_in_context :: "(string \<Rightarrow> bool) \<Rightarrow> string \<Rightarrow> condition \<Rightarrow> bool" where
  "condition_in_context hostok ctx (Reference_exists r) \<longleftrightarrow> local_reference_ok hostok ctx r"
| "condition_in_context hostok ctx _ \<longleftrightarrow> True"

text \<open>\<open>TransactionProposal.validate_producer_invariants\<close>\<close>

definition producer_invariants :: "(string \<Rightarrow> string) \<Rightarrow> (string \<Rightarrow> bool) \<Rightarrow> proposal \<Rightarrow> bool" where
  "producer_invariants ck hostok p \<longleftrightarrow>
     compact_instant (take 16 (drop 4 (prop_id p))) = Some (stamp_utc (prop_created_at p))
     \<and> paths_do_not_collide ck (prop_operations p)
     \<and> list_all (local_reference_ok hostok (prop_context p)) (prop_source_refs p)
     \<and> list_all (operation_in_context hostok (prop_context p)) (prop_operations p)
     \<and> list_all (condition_in_context hostok (prop_context p))
         (prop_preconditions p @ prop_postconditions p)"

definition validate_proposal ::
  "(string \<Rightarrow> string) \<Rightarrow> (string \<Rightarrow> string) \<Rightarrow> (string \<Rightarrow> bool) \<Rightarrow> proposal \<Rightarrow> proposal option" where
  "validate_proposal nfc ck hostok p =
     (if prop_schema_version p \<noteq> 1 \<or> \<not> proposal_id_ok (prop_id p) \<or> \<not> context_id_ok (prop_context p)
         \<or> \<not> revision_ok (prop_base_revision p) \<or> \<not> actor_ok (prop_actor p)
         \<or> prop_operations p = [] \<or> prop_expected_views p \<noteq> [''sqlite''] then None
      else case (validate_source_refs hostok (prop_source_refs p),
                 those_map (validate_operation nfc ck hostok) (prop_operations p),
                 those_map (validate_condition nfc ck hostok) (prop_preconditions p),
                 those_map (validate_condition nfc ck hostok) (prop_postconditions p)) of
        (Some refs, Some ops, Some pre, Some post) \<Rightarrow>
          if \<not> distinct pre \<or> \<not> distinct post then None
          else (let p' = p\<lparr>prop_source_refs := refs, prop_operations := ops,
                           prop_preconditions := pre, prop_postconditions := post\<rparr>
                in if producer_invariants ck hostok p' then Some p' else None)
      | _ \<Rightarrow> None)"

section \<open>Audit events\<close>

datatype audit_operation =
    Audit_create string string
  | Audit_update string string string
  | Audit_move string string string
  | Audit_delete_generated string string

datatype audit_action = Action_apply | Action_recovery
datatype audit_result = Committed | Rolled_back

record audit_event =
  ev_schema_version :: int
  ev_id :: string
  ev_proposal_id :: string
  ev_context :: string
  ev_timestamp :: stamp
  ev_actor :: actor
  ev_action :: audit_action
  ev_result :: audit_result
  ev_base_revision :: string
  ev_source_refs :: "string list"
  ev_acknowledged :: "string list"
  ev_operations :: "audit_operation list"
  ev_prev_hash :: string
  ev_hash :: string

fun audit_operation_ok ::
  "(string \<Rightarrow> string) \<Rightarrow> (string \<Rightarrow> string) \<Rightarrow> audit_operation \<Rightarrow> bool" where
  "audit_operation_ok nfc ck (Audit_create t h) \<longleftrightarrow> context_path_ok nfc ck t \<and> content_hash_ok h"
| "audit_operation_ok nfc ck (Audit_update t a b) \<longleftrightarrow>
     context_path_ok nfc ck t \<and> content_hash_ok a \<and> content_hash_ok b"
| "audit_operation_ok nfc ck (Audit_move s d h) \<longleftrightarrow>
     context_path_ok nfc ck s \<and> context_path_ok nfc ck d \<and> content_hash_ok h"
| "audit_operation_ok nfc ck (Audit_delete_generated t h) \<longleftrightarrow>
     generated_path_ok nfc ck t \<and> content_hash_ok h"

fun written_path :: "audit_operation \<Rightarrow> string option" where
  "written_path (Audit_create t _) = Some t"
| "written_path (Audit_update t _ _) = Some t"
| "written_path (Audit_move _ d _) = Some d"
| "written_path (Audit_delete_generated _ _) = None"

definition recovery_actor :: string where
  "recovery_actor = ''workctx-transaction-recovery''"

text \<open>\<open>AuditEventContent\<close>: the field checks and \<open>validate_producer_invariants\<close>.\<close>

definition audit_content_ok ::
  "(string \<Rightarrow> string) \<Rightarrow> (string \<Rightarrow> string) \<Rightarrow> (string \<Rightarrow> bool) \<Rightarrow> audit_event \<Rightarrow> bool" where
  "audit_content_ok nfc ck hostok e \<longleftrightarrow>
     ev_schema_version e = 1 \<and> timed_slug ''AUD-'' (ev_id e) \<and> proposal_id_ok (ev_proposal_id e)
     \<and> context_id_ok (ev_context e) \<and> actor_ok (ev_actor e) \<and> revision_ok (ev_base_revision e)
     \<and> validate_source_refs hostok (ev_source_refs e) = Some (ev_source_refs e)
     \<and> list_all (context_path_ok nfc ck) (ev_acknowledged e)
     \<and> distinct (map ck (ev_acknowledged e))
     \<and> ev_operations e \<noteq> [] \<and> list_all (audit_operation_ok nfc ck) (ev_operations e)
     \<and> revision_ok (ev_prev_hash e)
     \<and> ev_id e = ''AUD-'' @ drop 4 (ev_proposal_id e)
     \<and> ev_base_revision e = ev_prev_hash e
     \<and> stamp_offset (ev_timestamp e) = 0
     \<and> (ev_action e = Action_recovery \<longrightarrow>
          ev_result e = Rolled_back \<and> ev_actor e = System recovery_actor
          \<and> ev_source_refs e = [] \<and> ev_acknowledged e = [])
     \<and> list_all (local_reference_ok hostok (ev_context e)) (ev_source_refs e)
     \<and> list_all (\<lambda>p. Some p \<in> written_path ` set (ev_operations e)) (ev_acknowledged e)"

end
