(* ===== verification/Ledger.thy ===== *)
theory Ledger
  imports StagingPrepare Proposals
begin

text \<open>
  The audit ledger (\<open>transactions/ledger.py\<close>): an append-only file of JSON lines, each an audit
  event that carries the hash of its predecessor and its own. Parameters, in one record: \<open>encode\<close>
  the canonical compact JSON of an event, \<open>loads\<close> the parser back (JSON and field typing), \<open>sha\<close>
  SHA-256 in hexadecimal, \<open>utf8\<close> whether bytes decode as UTF-8, \<open>json_bytes\<close> the bytes of a JSON
  document, and the parameters of the proposals. The identity of the context, which the code reads
  from its manifest, is the argument \<open>ctx\<close>.
\<close>

record ledger_env =
  le_encode :: "audit_event \<Rightarrow> bytes"
  le_loads :: "bytes \<Rightarrow> audit_event option"
  le_sha :: "bytes \<Rightarrow> string"
  le_utf8 :: "bytes \<Rightarrow> bool"
  le_json_bytes :: "json \<Rightarrow> bytes"
  le_nfc :: "string \<Rightarrow> string"
  le_ck :: "string \<Rightarrow> string"
  le_hostok :: "string \<Rightarrow> bool"

definition event_ok :: "ledger_env \<Rightarrow> audit_event \<Rightarrow> bool" where
  "event_ok E = audit_content_ok (le_nfc E) (le_ck E) (le_hostok E)"

definition compute_event_hash :: "ledger_env \<Rightarrow> audit_event \<Rightarrow> string" where
  "compute_event_hash E e = le_sha E (le_encode E (e\<lparr>ev_hash := []\<rparr>))"

text \<open>\<open>AuditEvent.seal\<close>\<close>

definition seal_event :: "ledger_env \<Rightarrow> audit_event \<Rightarrow> audit_event" where
  "seal_event E e = e\<lparr>ev_hash := compute_event_hash E e\<rparr>"

definition encode_event_line :: "ledger_env \<Rightarrow> audit_event \<Rightarrow> bytes" where
  "encode_event_line E e = le_encode E e @ [CHR 0x0A]"

definition decode_event :: "ledger_env \<Rightarrow> bytes \<Rightarrow> exn + audit_event" where
  "decode_event E line =
     (case le_loads E line of
        None \<Rightarrow> Inl Ledger_integrity
      | Some e \<Rightarrow>
          if event_ok E e \<and> ev_hash e = compute_event_hash E e then Inr e else Inl Ledger_integrity)"

text \<open>The loop of \<open>_read_verified_events\<close>.\<close>

fun verify_lines ::
  "ledger_env \<Rightarrow> string \<Rightarrow> string set \<Rightarrow> string set \<Rightarrow> string \<Rightarrow> bytes list \<Rightarrow> exn + audit_event list"
where
  "verify_lines E ctx ids pids prev [] = Inr []"
| "verify_lines E ctx ids pids prev (line # rest) =
     bind_result (decode_event E line) (\<lambda>e.
     if ev_context e \<noteq> ctx \<or> butlast (encode_event_line E e) \<noteq> line
        \<or> ev_id e \<in> ids \<or> ev_proposal_id e \<in> pids \<or> ev_prev_hash e \<noteq> prev
        \<or> ev_hash e \<noteq> compute_event_hash E e
     then Inl Ledger_integrity
     else bind_result
       (verify_lines E ctx (insert (ev_id e) ids) (insert (ev_proposal_id e) pids) (ev_hash e) rest)
       (\<lambda>es. Inr (e # es)))"

definition ledger_file :: fpath where
  "ledger_file = [''99_meta'', ''audit'', ''ledger.jsonl'']"

definition resolve_ledger :: "fpath reader" where
  "resolve_ledger w =
     (case resolve_context_path [''99_meta''] [] ledger_path w of
        Inl _ \<Rightarrow> Inl Ledger_integrity | Inr p \<Rightarrow> Inr p)"

definition read_ledger_bytes :: "ledger_env \<Rightarrow> fpath \<Rightarrow> bytes option reader" where
  "read_ledger_bytes E p w =
     (case nodes w p of
        None \<Rightarrow> Inr None
      | Some Dir \<Rightarrow> Inl Ledger_integrity
      | Some (File c) \<Rightarrow> Inr (Some (content_bytes (le_json_bytes E) c)))"

definition bom :: bytes where
  "bom = [CHR 0xEF, CHR 0xBB, CHR 0xBF]"

definition verify_bytes :: "ledger_env \<Rightarrow> string \<Rightarrow> bytes \<Rightarrow> exn + audit_event list" where
  "verify_bytes E ctx raw =
     (if raw = [] \<or> prefix bom raw \<or> CHR 0x0D \<in> set raw \<or> last raw \<noteq> CHR 0x0A \<or> \<not> le_utf8 E raw
      then Inl Ledger_integrity
      else let lines = split_on CHR 0x0A (butlast raw) in
           if [] \<in> set lines then Inl Ledger_integrity
           else verify_lines E ctx {} {} zero_revision lines)"

definition read_verified_events :: "ledger_env \<Rightarrow> string \<Rightarrow> audit_event list reader" where
  "read_verified_events E ctx w =
     bind_result (resolve_ledger w) (\<lambda>p.
     bind_result (read_ledger_bytes E p w) (\<lambda>raw.
     case raw of None \<Rightarrow> Inr [] | Some b \<Rightarrow> verify_bytes E ctx b))"

text \<open>\<open>verify_ledger\<close>\<close>

record ledger_verification =
  ver_context :: string
  ver_count :: nat
  ver_head :: string
  ver_first :: "string option"
  ver_last :: "string option"

section \<open>Queries\<close>

definition head_hash :: "audit_event list \<Rightarrow> string" where
  "head_hash es = (if es = [] then zero_revision else ev_hash (last es))"

definition verification :: "string \<Rightarrow> audit_event list \<Rightarrow> ledger_verification" where
  "verification ctx es =
     \<lparr>ver_context = ctx, ver_count = length es, ver_head = head_hash es,
      ver_first = (if es = [] then None else Some (ev_id (hd es))),
      ver_last = (if es = [] then None else Some (ev_id (last es)))\<rparr>"

definition verify_ledger :: "ledger_env \<Rightarrow> string \<Rightarrow> ledger_verification reader" where
  "verify_ledger E ctx w = bind_result (read_verified_events E ctx w) (\<lambda>es. Inr (verification ctx es))"

record audit_summary =
  sum_context :: string
  sum_count :: nat
  sum_head :: string
  sum_first :: "string option"
  sum_last :: "string option"
  sum_last_proposal :: "string option"
  sum_last_timestamp :: "stamp option"

definition audit_summary :: "ledger_env \<Rightarrow> string \<Rightarrow> audit_summary reader" where
  "audit_summary E ctx w =
     bind_result (read_verified_events E ctx w) (\<lambda>es.
       let final = (if es = [] then None else Some (last es)) in
       Inr \<lparr>sum_context = ctx, sum_count = length es, sum_head = head_hash es,
            sum_first = (if es = [] then None else Some (ev_id (hd es))),
            sum_last = map_option ev_id final, sum_last_proposal = map_option ev_proposal_id final,
            sum_last_timestamp = map_option ev_timestamp final\<rparr>)"

definition read_audit_events ::
  "ledger_env \<Rightarrow> string \<Rightarrow> stamp option \<Rightarrow> stamp option \<Rightarrow> audit_event list reader" where
  "read_audit_events E ctx since through w =
     (if (case (since, through) of (Some a, Some b) \<Rightarrow> stamp_utc b < stamp_utc a | _ \<Rightarrow> False)
      then Inl Value_error
      else bind_result (read_verified_events E ctx w) (\<lambda>es.
        Inr (filter (\<lambda>e.
          (case since of None \<Rightarrow> True | Some a \<Rightarrow> stamp_utc a \<le> stamp_utc (ev_timestamp e))
          \<and> (case through of None \<Rightarrow> True | Some b \<Rightarrow> stamp_utc (ev_timestamp e) \<le> stamp_utc b)) es)))"

definition find_unique :: "(audit_event \<Rightarrow> bool) \<Rightarrow> audit_event list \<Rightarrow> exn + audit_event option" where
  "find_unique P es =
     (case filter P es of [] \<Rightarrow> Inr None | [e] \<Rightarrow> Inr (Some e) | _ \<Rightarrow> Inl Ledger_integrity)"

definition find_event_by_proposal_id :: "ledger_env \<Rightarrow> string \<Rightarrow> string \<Rightarrow> audit_event option reader" where
  "find_event_by_proposal_id E ctx pid w =
     (if pid = [] then Inl Value_error
      else bind_result (read_verified_events E ctx w) (find_unique (\<lambda>e. ev_proposal_id e = pid)))"

definition find_event_by_id :: "ledger_env \<Rightarrow> string \<Rightarrow> string \<Rightarrow> audit_event option reader" where
  "find_event_by_id E ctx i w =
     (if i = [] then Inl Value_error
      else bind_result (read_verified_events E ctx w) (find_unique (\<lambda>e. ev_id e = i)))"

definition matching_replay :: "audit_event list \<Rightarrow> audit_event \<Rightarrow> exn + audit_event option" where
  "matching_replay es e =
     bind_result (find_unique (\<lambda>x. ev_id x = ev_id e) es) (\<lambda>a.
     bind_result (find_unique (\<lambda>x. ev_proposal_id x = ev_proposal_id e) es) (\<lambda>b.
     if a = None \<and> b = None then Inr None
     else if a \<noteq> b \<or> a \<noteq> Some e then Inl Ledger_integrity
     else Inr a))"

section \<open>Appending an event\<close>

text \<open>\<open>try: m; except Exception as exc\<close>: every outcome but the death of the process is caught.\<close>

definition attempt :: "'a action \<Rightarrow> (exn + 'a) action" where
  "attempt m w =
     (case m w of (Inl Crashed, w') \<Rightarrow> (Inl Crashed, w') | (r, w') \<Rightarrow> (Inr r, w'))"

text \<open>The append itself and the read after it, which resolves an ambiguous outcome.\<close>

definition commit_event ::
  "(content \<Rightarrow> hash) \<Rightarrow> ledger_env \<Rightarrow> string \<Rightarrow> nat \<Rightarrow> lease \<Rightarrow> audit_event \<Rightarrow> audit_event action" where
  "commit_event H E ctx n l e =
     and_then (attempt (atomic_append_line_bytes H (le_ck E) (le_json_bytes E) n l (lease_nonce l)
         ledger_path (encode_event_line E e))) (\<lambda>outcome.
     and_then (lift (read_verified_events E ctx)) (\<lambda>after_events.
     and_then (lift (\<lambda>_. matching_replay after_events e)) (\<lambda>committed.
     case committed of
       Some r \<Rightarrow> ret r
     | None \<Rightarrow> fail (case outcome of Inl x \<Rightarrow> x | Inr _ \<Rightarrow> Ledger_integrity))))"

definition append_event ::
  "(content \<Rightarrow> hash) \<Rightarrow> ledger_env \<Rightarrow> string \<Rightarrow> nat \<Rightarrow> lease \<Rightarrow> audit_event \<Rightarrow> audit_event action" where
  "append_event H E ctx n l e =
     and_then (lift (\<lambda>w. require (lease_context l = world_context w) Ledger_integrity)) (\<lambda>_.
     and_then (lift (verify_fence l)) (\<lambda>_.
     and_then (lift (read_verified_events E ctx)) (\<lambda>before_events.
     and_then (lift (\<lambda>_. matching_replay before_events e)) (\<lambda>replay.
     case replay of
       Some r \<Rightarrow> ret r
     | None \<Rightarrow>
         and_then (check (ev_context e = ctx \<and> ev_prev_hash e = head_hash before_events
             \<and> ev_hash e = compute_event_hash E e) Ledger_integrity) (\<lambda>_.
         commit_event H E ctx n l e)))))"

section \<open>Receipts\<close>

record apply_receipt =
  rc_proposal_id :: string
  rc_context :: string
  rc_event_id :: string
  rc_event_hash :: string
  rc_source_refs :: "string list"

definition authenticate_apply_result ::
  "ledger_env \<Rightarrow> string \<Rightarrow> apply_receipt \<Rightarrow> audit_event reader" where
  "authenticate_apply_result E ctx r w =
     bind_result (verify_ledger E ctx w) (\<lambda>_.
     bind_result (find_event_by_id E ctx (rc_event_id r) w) (\<lambda>found.
     case found of
       None \<Rightarrow> Inl Receipt_invalid
     | Some e \<Rightarrow>
         if ev_hash e \<noteq> rc_event_hash r \<or> compute_event_hash E e \<noteq> rc_event_hash r then Inl Receipt_invalid
         else if ev_proposal_id e \<noteq> rc_proposal_id r \<or> ev_context e \<noteq> rc_context r
         then Inl Receipt_invalid
         else if ev_action e \<noteq> Action_apply \<or> ev_result e \<noteq> Committed then Inl Receipt_invalid
         else if ev_source_refs e \<noteq> rc_source_refs r then Inl Receipt_invalid
         else Inr e))"

end
