(* ===== verification/Engine.thy ===== *)
theory Engine
  imports Ledger StagingPrepare
begin

text \<open>
  The transaction protocol (\<open>transactions/engine.py\<close>): \<open>apply\<close> takes a proposal through analysis,
  preparation, replacement, validation, audit and finalisation, \<open>recover\<close> resolves an interrupted
  intent by the commit point in the ledger. What the constructor of the engine is given is the record
  \<open>engine_env\<close>: the workspace validator, the projection, the clock and the retry policy; further the
  analysis of a proposal and the check of conditions on the live workspace. Exceptions carry no
  payload here; the two that report an audited rollback are outcomes. \<open>lost\<close> says at which of its
  numbered checks the heartbeat thread has failed.
\<close>

section \<open>Data\<close>

datatype severity = Sev_error | Sev_warning | Sev_advisory

text \<open>A validation issue and a transaction diagnostic; the repair text is left out.\<close>

record diagnostic =
  dg_severity :: severity
  dg_code :: string
  dg_message :: string
  dg_path :: "string option"

datatype effect_kind = Effect_create | Effect_update | Effect_move | Effect_delete

record operation_effect =
  eff_order :: nat
  eff_op :: effect_kind
  eff_target :: string
  eff_destination :: "string option"
  eff_preimage :: "hash option"
  eff_postimage :: "hash option"
  eff_hand_edits :: bool

record compiled =
  cp_writes :: "staged_op list"
  cp_effects :: "operation_effect list"
  cp_audit :: "audit_operation list"
  cp_final :: "(string \<times> content option) list"
  cp_identities :: "string list"
  cp_artifact_ids :: "string list"
  cp_artifact_digests :: "string list"
  cp_acknowledged :: "string list"

record analysis =
  an_diagnostics :: "diagnostic list"
  an_compiled :: "compiled option"

definition analysis_valid :: "analysis \<Rightarrow> bool" where
  "analysis_valid a \<longleftrightarrow> list_all (\<lambda>d. dg_severity d \<noteq> Sev_error) (an_diagnostics a)"

definition with_diagnostic :: "analysis \<Rightarrow> diagnostic \<Rightarrow> analysis" where
  "with_diagnostic a d = a\<lparr>an_diagnostics := an_diagnostics a @ [d]\<rparr>"

record projection_status =
  ps_fresh :: bool
  ps_invalidation_confirmed :: "bool option"
  ps_skipped :: nat

record apply_result =
  ar_proposal_id :: string
  ar_context :: string
  ar_base_revision :: string
  ar_committed_revision :: string
  ar_applied_targets :: "string list"
  ar_event_id :: string
  ar_event_hash :: string
  ar_source_refs :: "string list"
  ar_projection :: projection_status
  ar_diagnostics :: "diagnostic list"

datatype recovery_outcome = Outcome_committed | Outcome_rolled_back | Outcome_already_finalized

datatype recovery_strategy = Strategy_complete | Strategy_rollback

record recovery_result =
  rr_strategy :: recovery_strategy
  rr_outcome :: recovery_outcome
  rr_transaction_id :: string
  rr_committed_revision :: string
  rr_applied_targets :: "string list"
  rr_event_id :: string
  rr_event_hash :: string
  rr_projection :: projection_status
  rr_diagnostics :: "diagnostic list"

text \<open>What \<open>apply\<close> ends with: a receipt, or one of the two exceptions that report a rollback.\<close>

datatype apply_outcome =
    Applied apply_result
  | Preimage_changed recovery_result
  | Postcondition_rollback recovery_result

record engine_env =
  en_hash :: "content \<Rightarrow> hash"
  en_ledger :: ledger_env
  en_attempts :: nat
  en_context :: string
  en_clock :: stamp
  en_casefold :: "string \<Rightarrow> string"
  en_validator :: "bool \<Rightarrow> string list option \<Rightarrow> diagnostic list reader"
  en_rebuild :: "nat reader"
  en_invalidate :: "world \<Rightarrow> bool"
  en_analyze :: "proposal \<Rightarrow> string list \<Rightarrow> string \<Rightarrow> nat \<Rightarrow> analysis reader"
  en_live_conditions :: "condition list \<Rightarrow> diagnostic list reader"

abbreviation en_ck :: "engine_env \<Rightarrow> string \<Rightarrow> string" where
  "en_ck E \<equiv> le_ck (en_ledger E)"

section \<open>Audit operations and targets\<close>

definition checked_operation :: "ledger_env \<Rightarrow> audit_operation \<Rightarrow> exn + audit_operation" where
  "checked_operation L a =
     (if audit_operation_ok (le_nfc L) (le_ck L) a then Inr a else Inl Value_error)"

definition intent_audit_operation :: "ledger_env \<Rightarrow> intent_target \<Rightarrow> exn + audit_operation" where
  "intent_audit_operation L t =
     (case it_kind t of
        REPLACE \<Rightarrow>
          (case it_content_hash t of
             None \<Rightarrow> Inl Value_error
           | Some h \<Rightarrow> checked_operation L
               (case it_preimage_hash t of
                  None \<Rightarrow> Audit_create (it_target t) h
                | Some b \<Rightarrow> Audit_update (it_target t) b h))
      | MOVE \<Rightarrow>
          (case (it_destination t, it_content_hash t) of
             (Some d, Some h) \<Rightarrow> checked_operation L (Audit_move (it_target t) d h)
           | _ \<Rightarrow> Inl Value_error)
      | DELETE \<Rightarrow>
          (case it_preimage_hash t of
             None \<Rightarrow> Inl Value_error
           | Some b \<Rightarrow> checked_operation L (Audit_delete_generated (it_target t) b)))"

definition intent_audit_operations :: "ledger_env \<Rightarrow> intent_record \<Rightarrow> exn + audit_operation list" where
  "intent_audit_operations L i = map_results (intent_audit_operation L) (intent_targets i)"

definition intent_matches_operations :: "ledger_env \<Rightarrow> intent_record \<Rightarrow> audit_operation list \<Rightarrow> bool" where
  "intent_matches_operations L i ops \<longleftrightarrow>
     (case intent_audit_operations L i of Inl _ \<Rightarrow> False | Inr xs \<Rightarrow> xs = ops)"

definition applied_targets :: "operation_effect list \<Rightarrow> string list" where
  "applied_targets es =
     concat (map (\<lambda>e. eff_target e # (case eff_destination e of None \<Rightarrow> [] | Some d \<Rightarrow> [d])) es)"

fun audit_targets :: "audit_operation \<Rightarrow> string list" where
  "audit_targets (Audit_move s d _) = [s, d]"
| "audit_targets (Audit_create t _) = [t]"
| "audit_targets (Audit_update t _ _) = [t]"
| "audit_targets (Audit_delete_generated t _) = [t]"

definition audit_applied_targets :: "audit_operation list \<Rightarrow> string list" where
  "audit_applied_targets ops = concat (map audit_targets ops)"

definition strict_validation_paths :: "compiled \<Rightarrow> string list" where
  "strict_validation_paths c = map fst (filter (\<lambda>x. snd x \<noteq> None) (cp_final c))"

section \<open>Validation relative to a baseline\<close>

definition issue_key :: "diagnostic \<Rightarrow> string \<times> string option" where
  "issue_key d = (dg_code d, dg_path d)"

definition on_written :: "(string \<Rightarrow> string) \<Rightarrow> string list \<Rightarrow> diagnostic \<Rightarrow> bool" where
  "on_written cf written d \<longleftrightarrow>
     (case dg_path d of None \<Rightarrow> False | Some p \<Rightarrow> cf p \<in> set (map cf written))"

definition preexisting_notice :: diagnostic where
  "preexisting_notice = \<lparr>dg_severity = Sev_advisory, dg_code = ''TXN-PREEXISTING-WORKSPACE-ERRORS'',
     dg_message = ''pre-existing validation errors remain on untouched workspace paths'', dg_path = None\<rparr>"

definition baseline_relative_diagnostics ::
  "(string \<Rightarrow> string) \<Rightarrow> diagnostic list \<Rightarrow> diagnostic list \<Rightarrow> string list \<Rightarrow> diagnostic list" where
  "baseline_relative_diagnostics cf baseline post written =
     (let is_error = (\<lambda>d. dg_severity d = Sev_error);
          known = map issue_key (filter is_error baseline);
          post_errors = filter is_error post
            @ map (\<lambda>d. d\<lparr>dg_severity := Sev_error\<rparr>)
                (filter (\<lambda>d. dg_severity d = Sev_warning \<and> on_written cf written d) post);
          blocking = filter (\<lambda>d. on_written cf written d \<or> issue_key d \<notin> set known) post_errors;
          untouched = filter (\<lambda>d. d \<notin> set blocking \<and> issue_key d \<in> set known) post_errors
      in blocking @ (if untouched = [] then [] else [preexisting_notice]))"

section \<open>Heartbeat and lock\<close>

text \<open>\<open>_run_with_heartbeat\<close>: the check before and after a step.\<close>

definition with_heartbeat :: "(nat \<Rightarrow> bool) \<Rightarrow> nat \<Rightarrow> 'a action \<Rightarrow> 'a action" where
  "with_heartbeat lost k m =
     and_then (check (\<not> lost (2 * k)) Lock_fence) (\<lambda>_.
     and_then m (\<lambda>x.
     and_then (check (\<not> lost (2 * k + 1)) Lock_fence) (\<lambda>_. ret x)))"

text \<open>\<open>with suppress(LockFenceError): lock.release()\<close>\<close>

definition release_lock :: "lease \<Rightarrow> unit action" where
  "release_lock l w =
     (case verify_fence l w of Inl _ \<Rightarrow> (Inr (), w) | Inr _ \<Rightarrow> (Inr (), w\<lparr>disk_nonce := None\<rparr>))"

section \<open>The projection\<close>

definition mark_projection_stale :: "engine_env \<Rightarrow> nat \<Rightarrow> world \<Rightarrow> projection_status" where
  "mark_projection_stale E skipped w =
     \<lparr>ps_fresh = False, ps_invalidation_confirmed = Some (en_invalidate E w), ps_skipped = skipped\<rparr>"

definition fresh_projection :: projection_status where
  "fresh_projection = \<lparr>ps_fresh = True, ps_invalidation_confirmed = None, ps_skipped = 0\<rparr>"

definition refresh_projection :: "engine_env \<Rightarrow> world \<Rightarrow> projection_status" where
  "refresh_projection E w =
     (case en_rebuild E w of
        Inl _ \<Rightarrow> mark_projection_stale E 0 w
      | Inr 0 \<Rightarrow> fresh_projection
      | Inr (Suc k) \<Rightarrow> mark_projection_stale E (Suc k) w)"

text \<open>A lost heartbeat is not an error here: the projection is then marked stale.\<close>

definition refresh_under_lock :: "engine_env \<Rightarrow> (nat \<Rightarrow> bool) \<Rightarrow> nat \<Rightarrow> projection_status action" where
  "refresh_under_lock E lost k w =
     (Inr (if lost (2 * k) \<or> lost (2 * k + 1) then mark_projection_stale E 0 w
           else refresh_projection E w), w)"

section \<open>Events\<close>

definition remove_prefix :: "string \<Rightarrow> string \<Rightarrow> string" where
  "remove_prefix p s = (if prefix p s then drop (length p) s else s)"

definition utc_now :: "engine_env \<Rightarrow> stamp" where
  "utc_now E = (en_clock E)\<lparr>stamp_offset := 0\<rparr>"

definition sealed_event :: "engine_env \<Rightarrow> audit_event \<Rightarrow> exn + audit_event" where
  "sealed_event E e =
     (if event_ok (en_ledger E) e then Inr (seal_event (en_ledger E) e) else Inl Value_error)"

definition proposal_event ::
  "engine_env \<Rightarrow> proposal \<Rightarrow> audit_operation list \<Rightarrow> string list \<Rightarrow> audit_result \<Rightarrow> string
     \<Rightarrow> exn + audit_event" where
  "proposal_event E p ops acks res prev =
     sealed_event E
       \<lparr>ev_schema_version = 1, ev_id = ''AUD-'' @ remove_prefix ''TXP-'' (prop_id p),
        ev_proposal_id = prop_id p, ev_context = prop_context p, ev_timestamp = utc_now E,
        ev_actor = prop_actor p, ev_action = Action_apply, ev_result = res,
        ev_base_revision = prev, ev_source_refs = prop_source_refs p, ev_acknowledged = acks,
        ev_operations = ops, ev_prev_hash = prev, ev_hash = []\<rparr>"

definition intent_event :: "engine_env \<Rightarrow> intent_record \<Rightarrow> string \<Rightarrow> exn + audit_event" where
  "intent_event E i prev =
     bind_result (intent_audit_operations (en_ledger E) i) (\<lambda>ops.
     sealed_event E
       \<lparr>ev_schema_version = 1,
        ev_id = ''AUD-'' @ remove_prefix ''TXP-'' (intent_transaction_id i),
        ev_proposal_id = intent_transaction_id i, ev_context = en_context E,
        ev_timestamp = utc_now E, ev_actor = System recovery_actor, ev_action = Action_recovery,
        ev_result = Rolled_back, ev_base_revision = prev, ev_source_refs = [],
        ev_acknowledged = [], ev_operations = ops, ev_prev_hash = prev, ev_hash = []\<rparr>)"

text \<open>Build an event, append it and check what comes back.\<close>

definition audit_step ::
  "engine_env \<Rightarrow> (nat \<Rightarrow> bool) \<Rightarrow> nat \<Rightarrow> lease \<Rightarrow> exn + audit_event \<Rightarrow> audit_event action" where
  "audit_step E lost k l made =
     and_then (with_heartbeat lost k (lift (\<lambda>_. made))) (\<lambda>e.
     and_then (with_heartbeat lost (k + 1)
       (append_event (en_hash E) (en_ledger E) (en_context E) (en_attempts E) l e)) (\<lambda>appended.
     and_then (check (appended = e) Transaction_conflict) (\<lambda>_. ret e)))"

section \<open>Applying a proposal\<close>

text \<open>\<open>_verify_apply_ledger\<close> and \<open>_raise_apply_conflicts\<close>\<close>

definition verify_apply_ledger ::
  "engine_env \<Rightarrow> string \<Rightarrow> (ledger_verification \<times> audit_event option) reader" where
  "verify_apply_ledger E pid w =
     bind_result (read_verified_events (en_ledger E) (en_context E) w) (\<lambda>es.
     Inr (verification (en_context E) es, find (\<lambda>e. ev_proposal_id e = pid) es))"

definition raise_apply_conflicts :: "proposal \<Rightarrow> ledger_verification \<Rightarrow> audit_event option \<Rightarrow> exn + unit" where
  "raise_apply_conflicts p v dup =
     (if dup \<noteq> None then Inl Duplicate_proposal
      else if prop_base_revision p \<noteq> ver_head v then Inl Stale_revision else Inr ())"

definition approval_required :: diagnostic where
  "approval_required = \<lparr>dg_severity = Sev_error, dg_code = ''TXN-APPROVAL-REQUIRED'',
     dg_message = ''The proposal requires explicit runtime approval.'', dg_path = None\<rparr>"

definition preimage_changed_notice :: diagnostic where
  "preimage_changed_notice = \<lparr>dg_severity = Sev_error, dg_code = ''TXN-PREIMAGE-CHANGED'',
     dg_message = ''A target changed after validation; the proposal was rolled back.'',
     dg_path = None\<rparr>"

definition rolled_back_result ::
  "proposal \<Rightarrow> audit_event \<Rightarrow> projection_status \<Rightarrow> diagnostic list \<Rightarrow> recovery_result" where
  "rolled_back_result p e ps ds =
     \<lparr>rr_strategy = Strategy_rollback, rr_outcome = Outcome_rolled_back,
      rr_transaction_id = prop_id p, rr_committed_revision = ev_hash e, rr_applied_targets = [],
      rr_event_id = ev_id e, rr_event_hash = ev_hash e, rr_projection = ps, rr_diagnostics = ds\<rparr>"

text \<open>The three ways to settle a prepared intent.\<close>

definition settle_changed ::
  "engine_env \<Rightarrow> (nat \<Rightarrow> bool) \<Rightarrow> lease \<Rightarrow> proposal \<Rightarrow> compiled \<Rightarrow> string \<Rightarrow> intent_record
     \<Rightarrow> audit_event action" where
  "settle_changed E lost l p c prev i =
     and_then (audit_step E lost 7 l
       (bind_result (intent_audit_operations (en_ledger E) i) (\<lambda>ops.
        proposal_event E p ops (cp_acknowledged c) Rolled_back prev))) (\<lambda>e.
     and_then (with_heartbeat lost 9
       (finalize_rollback_after_audit (en_hash E) (en_ck E) l (prop_id p))) (\<lambda>_. ret e))"

definition settle_rolled_back ::
  "engine_env \<Rightarrow> (nat \<Rightarrow> bool) \<Rightarrow> lease \<Rightarrow> proposal \<Rightarrow> compiled \<Rightarrow> string \<Rightarrow> intent_record
     \<Rightarrow> audit_event action" where
  "settle_rolled_back E lost l p c prev i =
     and_then (with_heartbeat lost 13
       (rollback_intent (en_hash E) (en_ck E) (en_attempts E) l i)) (\<lambda>_.
     and_then (audit_step E lost 14 l
       (proposal_event E p (cp_audit c) (cp_acknowledged c) Rolled_back prev)) (\<lambda>e.
     and_then (with_heartbeat lost 16
       (finalize_rollback_after_audit (en_hash E) (en_ck E) l (prop_id p))) (\<lambda>_. ret e)))"

definition settle_committed ::
  "engine_env \<Rightarrow> (nat \<Rightarrow> bool) \<Rightarrow> lease \<Rightarrow> proposal \<Rightarrow> compiled \<Rightarrow> string \<Rightarrow> intent_record
     \<Rightarrow> audit_event action" where
  "settle_committed E lost l p c prev i =
     and_then (audit_step E lost 17 l
       (proposal_event E p (cp_audit c) (cp_acknowledged c) Committed prev)) (\<lambda>e.
     and_then (with_heartbeat lost 19
       (finalize_after_audit (en_hash E) (en_ck E) l (prop_id p))) (\<lambda>_. ret e))"

text \<open>What the workspace says after the replacement: failed conditions and new findings.\<close>

definition veto :: "diagnostic list \<Rightarrow> diagnostic list \<Rightarrow> bool" where
  "veto conditions findings \<longleftrightarrow>
     list_ex (\<lambda>d. dg_severity d = Sev_error) findings
     \<or> list_ex (\<lambda>d. dg_severity d = Sev_error) conditions"

text \<open>From the prepared intent to its end, except for the projection.\<close>

datatype settled =
    Was_changed audit_event
  | Was_rolled_back audit_event "diagnostic list" "diagnostic list"
  | Was_committed audit_event "diagnostic list"

definition settle ::
  "engine_env \<Rightarrow> (nat \<Rightarrow> bool) \<Rightarrow> lease \<Rightarrow> proposal \<Rightarrow> compiled \<Rightarrow> diagnostic list \<Rightarrow> string
     \<Rightarrow> intent_record \<Rightarrow> settled action" where
  "settle E lost l p c baseline prev i =
     (if \<not> intent_matches_operations (en_ledger E) i (cp_audit c)
      then and_then (settle_changed E lost l p c prev i) (\<lambda>e. ret (Was_changed e))
      else
        and_then (with_heartbeat lost 10
          (apply_intent (en_hash E) (en_ck E) (en_attempts E) l i)) (\<lambda>_.
        and_then (with_heartbeat lost 11
          (lift (en_live_conditions E (prop_postconditions p)))) (\<lambda>conditions.
        and_then (with_heartbeat lost 12
          (lift (en_validator E True (Some (strict_validation_paths c))))) (\<lambda>post.
        let findings = baseline_relative_diagnostics (en_casefold E) baseline post
                         (strict_validation_paths c) in
        if veto conditions findings
        then and_then (settle_rolled_back E lost l p c prev i) (\<lambda>e.
             ret (Was_rolled_back e conditions findings))
        else and_then (settle_committed E lost l p c prev i) (\<lambda>e.
             ret (Was_committed e findings))))))"

text \<open>The handler of \<open>apply\<close> while an intent may be on disk.\<close>

definition pending_if_left :: "engine_env \<Rightarrow> 'a action \<Rightarrow> 'a action" where
  "pending_if_left E m w =
     (case m w of
        (Inl e, w') \<Rightarrow>
          if e \<noteq> Crashed \<and> ri_state (inspect_recovery (en_hash E) (en_ck E) w') \<noteq> CLEAN
          then (Inl Recovery_pending, w') else (Inl e, w')
      | (Inr x, w') \<Rightarrow> (Inr x, w'))"

definition receipt_of ::
  "engine_env \<Rightarrow> proposal \<Rightarrow> compiled \<Rightarrow> audit_event \<Rightarrow> projection_status \<Rightarrow> diagnostic list
     \<Rightarrow> apply_result" where
  "receipt_of E p c e ps findings =
     \<lparr>ar_proposal_id = prop_id p, ar_context = prop_context p,
      ar_base_revision = prop_base_revision p, ar_committed_revision = ev_hash e,
      ar_applied_targets = applied_targets (cp_effects c), ar_event_id = ev_id e,
      ar_event_hash = ev_hash e, ar_source_refs = ev_source_refs e, ar_projection = ps,
      ar_diagnostics = filter (\<lambda>d. dg_severity d \<noteq> Sev_error) findings\<rparr>"

definition conclude ::
  "engine_env \<Rightarrow> (nat \<Rightarrow> bool) \<Rightarrow> proposal \<Rightarrow> compiled \<Rightarrow> settled \<Rightarrow> apply_outcome action" where
  "conclude E lost p c s =
     (case s of
        Was_changed e \<Rightarrow>
          and_then (refresh_under_lock E lost 20) (\<lambda>ps.
          ret (Preimage_changed (rolled_back_result p e ps [preimage_changed_notice])))
      | Was_rolled_back e conditions findings \<Rightarrow>
          ret (Postcondition_rollback (rolled_back_result p e fresh_projection (conditions @ findings)))
      | Was_committed e findings \<Rightarrow>
          and_then (refresh_under_lock E lost 20) (\<lambda>ps.
          ret (Applied (receipt_of E p c e ps findings))))"

text \<open>The checks before anything is written: \<open>analyzed\<close> is the analysis with the approval rule.\<close>

definition analyzed ::
  "engine_env \<Rightarrow> proposal \<Rightarrow> bool \<Rightarrow> string list \<Rightarrow> string \<Rightarrow> nat \<Rightarrow> analysis reader" where
  "analyzed E p approved acks head skipped w =
     bind_result (en_analyze E p acks head skipped w) (\<lambda>a.
     Inr (if (prop_approval_required p \<or> acks \<noteq> []) \<and> \<not> approved
          then with_diagnostic a approval_required else a))"

definition preflight ::
  "engine_env \<Rightarrow> (nat \<Rightarrow> bool) \<Rightarrow> lease \<Rightarrow> proposal \<Rightarrow> bool \<Rightarrow> string list
     \<Rightarrow> (string \<times> compiled \<times> diagnostic list) action" where
  "preflight E lost l p approved acks =
     and_then (with_heartbeat lost 0 (lift (\<lambda>w. Inr (inspect_recovery (en_hash E) (en_ck E) w)))) (\<lambda>r.
     and_then (check (ri_state r = CLEAN) Recovery_pending) (\<lambda>_.
     and_then (with_heartbeat lost 1 (lift (verify_apply_ledger E (prop_id p)))) (\<lambda>(v, dup).
     and_then (lift (\<lambda>_. raise_apply_conflicts p v dup)) (\<lambda>_.
     and_then (with_heartbeat lost 2 (lift (en_rebuild E))) (\<lambda>skipped.
     and_then (with_heartbeat lost 3 (lift (analyzed E p approved acks (ver_head v) skipped))) (\<lambda>a.
     case an_compiled a of
       None \<Rightarrow> fail Proposal_invalid
     | Some c \<Rightarrow>
         and_then (check (analysis_valid a) Proposal_invalid) (\<lambda>_.
         and_then (with_heartbeat lost 4 (lift (en_validator E False None))) (\<lambda>baseline.
         and_then (lift (verify_fence l)) (\<lambda>_.
         ret (ver_head v, c, baseline))))))))))"

definition apply_locked ::
  "engine_env \<Rightarrow> (nat \<Rightarrow> bool) \<Rightarrow> lease \<Rightarrow> proposal \<Rightarrow> bool \<Rightarrow> string list \<Rightarrow> apply_outcome action" where
  "apply_locked E lost l p approved acks =
     and_then (preflight E lost l p approved acks) (\<lambda>(prev, c, baseline).
     and_then (with_heartbeat lost 5
       (prepare (en_hash E) (en_ck E) (en_attempts E) l (prop_id p) (lease_nonce l) (cp_writes c))) (\<lambda>i.
     and_then (pending_if_left E (settle E lost l p c baseline prev i)) (\<lambda>s.
     conclude E lost p c s)))"

text \<open>The \<open>finally\<close> block: stop the heartbeat, release the lock; a lost heartbeat spoils a success.\<close>

definition spoiled :: "(nat \<Rightarrow> bool) \<Rightarrow> nat \<Rightarrow> apply_outcome \<Rightarrow> apply_outcome action" where
  "spoiled lost k out =
     (case out of Applied _ \<Rightarrow> and_then (check (\<not> lost (2 * k)) Lock_fence) (\<lambda>_. ret out) | _ \<Rightarrow> ret out)"

definition apply_proposal ::
  "engine_env \<Rightarrow> (nat \<Rightarrow> bool) \<Rightarrow> lease \<Rightarrow> proposal \<Rightarrow> bool \<Rightarrow> string list \<Rightarrow> apply_outcome action" where
  "apply_proposal E lost l p approved acks =
     and_then (finally_do (apply_locked E lost l p approved acks) (release_lock l)) (\<lambda>out.
     spoiled lost 21 out)"

section \<open>Recovering\<close>

definition recovery_selector :: "string option \<Rightarrow> string option \<Rightarrow> exn + string option" where
  "recovery_selector pid tid =
     (case (pid, tid) of
        (Some p, Some t) \<Rightarrow> if p \<noteq> t then Inl Transaction_conflict else Inr (Some t)
      | (Some p, None) \<Rightarrow> Inr (Some p)
      | (None, t) \<Rightarrow> Inr t)"

definition recovery_result_of ::
  "recovery_strategy \<Rightarrow> recovery_outcome \<Rightarrow> string \<Rightarrow> audit_event \<Rightarrow> string list \<Rightarrow> projection_status
     \<Rightarrow> recovery_result" where
  "recovery_result_of st out tid e targets ps =
     \<lparr>rr_strategy = st, rr_outcome = out, rr_transaction_id = tid,
      rr_committed_revision = ev_hash e, rr_applied_targets = targets, rr_event_id = ev_id e,
      rr_event_hash = ev_hash e, rr_projection = ps, rr_diagnostics = []\<rparr>"

definition already_result ::
  "recovery_strategy \<Rightarrow> string \<Rightarrow> audit_event \<Rightarrow> projection_status \<Rightarrow> recovery_result" where
  "already_result st tid e =
     recovery_result_of st Outcome_already_finalized tid e
       (if ev_result e = Committed then audit_applied_targets (ev_operations e) else [])"

definition already_finalized ::
  "engine_env \<Rightarrow> (nat \<Rightarrow> bool) \<Rightarrow> recovery_strategy \<Rightarrow> string option \<Rightarrow> recovery_result action" where
  "already_finalized E lost st tid =
     (case tid of
        None \<Rightarrow> fail Transaction_conflict
      | Some t \<Rightarrow>
          and_then (with_heartbeat lost 3
            (lift (find_event_by_proposal_id (en_ledger E) (en_context E) t))) (\<lambda>found.
          case found of
            None \<Rightarrow> fail Transaction_conflict
          | Some e \<Rightarrow>
              and_then (refresh_under_lock E lost 4) (\<lambda>ps. ret (already_result st t e ps))))"

text \<open>\<open>_finalize_existing_recovery\<close>\<close>

definition finalize_existing ::
  "engine_env \<Rightarrow> lease \<Rightarrow> recovery_inspection \<Rightarrow> intent_record \<Rightarrow> audit_event \<Rightarrow> unit action" where
  "finalize_existing E l r i e =
     and_then (lift (\<lambda>_. intent_audit_operations (en_ledger E) i)) (\<lambda>ops.
     and_then (check (ev_operations e = ops) Recovery_pending) (\<lambda>_.
     if ev_result e = Committed
     then and_then (check (ri_state r = FULLY_REPLACED_AWAITING_AUDIT) Recovery_pending) (\<lambda>_.
          finalize_recovery_after_audit (en_hash E) (en_ck E) l (ev_proposal_id e))
     else and_then (check (ri_state r = PREPARED) Recovery_pending) (\<lambda>_.
          finalize_rollback_after_audit (en_hash E) (en_ck E) l (ev_proposal_id e))))"

text \<open>The handlers of \<open>recover\<close>; \<open>started\<close> is \<open>mutation_started\<close>.\<close>

definition recover_handler :: "engine_env \<Rightarrow> bool \<Rightarrow> 'a action \<Rightarrow> 'a action" where
  "recover_handler E started m w =
     (case m w of
        (Inl e, w') \<Rightarrow>
          if e = Crashed \<or> e = Recovery_pending \<or> e = Ledger_integrity
             \<or> (e = Transaction_conflict \<and> \<not> started) then (Inl e, w')
          else if ri_state (inspect_recovery (en_hash E) (en_ck E) w') \<noteq> CLEAN
          then (Inl Recovery_pending, w') else (Inl e, w')
      | (Inr x, w') \<Rightarrow> (Inr x, w'))"

text \<open>Without an event in the ledger the transaction never committed: roll back, audit, finalise.\<close>

definition roll_back_pending ::
  "engine_env \<Rightarrow> (nat \<Rightarrow> bool) \<Rightarrow> lease \<Rightarrow> recovery_strategy \<Rightarrow> string \<Rightarrow> intent_record \<Rightarrow> audit_event
     \<Rightarrow> recovery_result action" where
  "roll_back_pending E lost l st head i e =
     and_then (with_heartbeat lost 6
       (rollback_recovery (en_hash E) (en_ck E) (en_attempts E) l i)) (\<lambda>_.
     and_then (with_heartbeat lost 7
       (lift (verify_ledger (en_ledger E) (en_context E)))) (\<lambda>current.
     and_then (check (ver_head current = head) Recovery_pending) (\<lambda>_.
     and_then (with_heartbeat lost 8
       (append_event (en_hash E) (en_ledger E) (en_context E) (en_attempts E) l e)) (\<lambda>appended.
     and_then (check (appended = e) Transaction_conflict) (\<lambda>_.
     and_then (with_heartbeat lost 9
       (finalize_rollback_after_audit (en_hash E) (en_ck E) l (intent_transaction_id i))) (\<lambda>_.
     and_then (refresh_under_lock E lost 10) (\<lambda>ps.
     ret (recovery_result_of st Outcome_rolled_back (intent_transaction_id i) e [] ps))))))))"

definition settle_existing ::
  "engine_env \<Rightarrow> (nat \<Rightarrow> bool) \<Rightarrow> lease \<Rightarrow> recovery_strategy \<Rightarrow> recovery_inspection \<Rightarrow> intent_record
     \<Rightarrow> audit_event \<Rightarrow> recovery_result action" where
  "settle_existing E lost l st r i e =
     and_then (with_heartbeat lost 6 (finalize_existing E l r i e)) (\<lambda>_.
     and_then (refresh_under_lock E lost 7) (\<lambda>ps.
     ret (already_result st (intent_transaction_id i) e ps)))"

text \<open>What is left to do once the intent is known: \<open>Inl\<close> the event in the ledger, \<open>Inr\<close> the rollback
  event to be appended.\<close>

definition plan_recovery ::
  "engine_env \<Rightarrow> (nat \<Rightarrow> bool) \<Rightarrow> string option \<Rightarrow> string option \<Rightarrow> string \<Rightarrow> intent_record
     \<Rightarrow> (audit_event + audit_event) action" where
  "plan_recovery E lost pid tid head i =
     and_then (lift (\<lambda>_. recovery_selector pid tid)) (\<lambda>selected.
     and_then (check (selected = None \<or> selected = Some (intent_transaction_id i))
       Transaction_conflict) (\<lambda>_.
     and_then (with_heartbeat lost 5
       (lift (find_event_by_proposal_id (en_ledger E) (en_context E) (intent_transaction_id i)))) (\<lambda>found.
     case found of
       Some e \<Rightarrow> ret (Inl e)
     | None \<Rightarrow> and_then (lift (\<lambda>_. intent_event E i head)) (\<lambda>e. ret (Inr e)))))"

definition recover_locked ::
  "engine_env \<Rightarrow> (nat \<Rightarrow> bool) \<Rightarrow> lease \<Rightarrow> recovery_strategy \<Rightarrow> string option \<Rightarrow> string option
     \<Rightarrow> recovery_result action" where
  "recover_locked E lost l st pid tid =
     and_then (recover_handler E False
       (with_heartbeat lost 1 (lift (verify_ledger (en_ledger E) (en_context E))))) (\<lambda>v.
     and_then (recover_handler E False
       (with_heartbeat lost 2 (lift (\<lambda>w. Inr (inspect_recovery (en_hash E) (en_ck E) w))))) (\<lambda>r.
     if ri_state r = CLEAN
     then recover_handler E False
            (and_then (lift (\<lambda>_. recovery_selector pid tid)) (already_finalized E lost st))
     else if ri_state r = INVALID_INTENT \<or> ri_state r = RECOVERY_CONFLICT then fail Recovery_pending
     else case ri_intent r of
       None \<Rightarrow> fail Recovery_pending
     | Some i \<Rightarrow>
         and_then (recover_handler E False (plan_recovery E lost pid tid (ver_head v) i)) (\<lambda>plan.
         recover_handler E True
           (case plan of
              Inl e \<Rightarrow> settle_existing E lost l st r i e
            | Inr e \<Rightarrow> roll_back_pending E lost l st (ver_head v) i e))))"

definition recover ::
  "engine_env \<Rightarrow> (nat \<Rightarrow> bool) \<Rightarrow> lease \<Rightarrow> recovery_strategy \<Rightarrow> string option \<Rightarrow> string option
     \<Rightarrow> recovery_result action" where
  "recover E lost l st pid tid =
     and_then (finally_do (recover_locked E lost l st pid tid) (release_lock l)) (\<lambda>out.
     and_then (check (\<not> lost 22) Lock_fence) (\<lambda>_. ret out))"

end
