(* ===== verification/LedgerExample.thy ===== *)
theory LedgerExample
  imports Ledger ReferenceLaws
begin

text \<open>
  An executable codec for audit events, on which the properties of the ledger are tried out: an event
  is written as its fields, every character as two letters, fields ended by a dot and lists packed
  into one field. It stands in for the JSON library in examples only.
\<close>

section \<open>Packing fields\<close>

definition letter :: "nat \<Rightarrow> char" where
  "letter n = char_of (97 + n)"

definition two_letters :: "char \<Rightarrow> string" where
  "two_letters c = [letter (code c div 16), letter (code c mod 16)]"

fun from_letters :: "string \<Rightarrow> string" where
  "from_letters (a # b # s) = char_of ((code a - 97) * 16 + (code b - 97)) # from_letters s"
| "from_letters _ = []"

definition pack :: "string list \<Rightarrow> string" where
  "pack ts = concat (map (\<lambda>t. concat (map two_letters t) @ [CHR ''.'']) ts)"

definition unpack :: "string \<Rightarrow> string list" where
  "unpack s = map from_letters (butlast (split_on CHR ''.'' s))"

lemma letter_code: "n < 16 \<Longrightarrow> code (letter n) = 97 + n"
  by (simp add: letter_def)

lemma two_letters_inverse: "from_letters (two_letters c @ s) = c # from_letters s"
proof -
  have "code c div 16 < 16" using code_lt [of c] by linarith
  then show ?thesis by (simp add: two_letters_def letter_code)
qed

lemma from_letters_inverse [simp]: "from_letters (concat (map two_letters t)) = t"
  by (induction t) (simp_all add: two_letters_inverse)

lemma letters_range: "x \<in> set (concat (map two_letters t)) \<Longrightarrow> 97 \<le> code x \<and> code x < 113"
proof -
  have "code c div 16 < 16" for c using code_lt [of c] by linarith
  then show "x \<in> set (concat (map two_letters t)) \<Longrightarrow> 97 \<le> code x \<and> code x < 113"
    by (auto simp: two_letters_def letter_code)
qed

lemma pack_chars:
  assumes "x \<in> set (pack ts)"
  shows "46 \<le> code x"
proof -
  obtain u where "u \<in> set ts" "x \<in> set (concat (map two_letters u) @ [CHR ''.''])"
    using assms unfolding pack_def set_concat set_map by blast
  then have "x \<in> set (concat (map two_letters u)) \<or> x = CHR ''.''" by auto
  then show ?thesis using letters_range [of x u] by (auto simp: code_def simp del: set_concat)
qed

lemma unpack_pack [simp]: "unpack (pack ts) = ts"
proof -
  have "split_on CHR ''.'' (pack ts) = map (\<lambda>t. concat (map two_letters t)) ts @ [[]]"
  proof (induction ts)
    case (Cons t ts)
    have "CHR ''.'' \<notin> set (concat (map two_letters t))"
      using letters_range [of "CHR ''.''" t] by (auto simp: code_def simp del: set_concat)
    then show ?case using Cons by (simp add: pack_def split_on_append)
  qed (simp add: pack_def)
  then show ?thesis by (simp add: unpack_def o_def)
qed

section \<open>Events as fields\<close>

definition int_field :: "int \<Rightarrow> string" where
  "int_field i = (if i < 0 then CHR ''-'' else CHR ''+'') # digits (nat \<bar>i\<bar>)"

definition field_int :: "string \<Rightarrow> int" where
  "field_int s = (if hd s = CHR ''-'' then - int (read_nat (tl s)) else int (read_nat (tl s)))"

lemma field_int_inverse [simp]: "field_int (int_field i) = i"
  by (simp add: field_int_def int_field_def read_digits)

fun actor_fields :: "actor \<Rightarrow> string list" where
  "actor_fields (Human i) = [''h'', i]"
| "actor_fields (Agent i a m) = [''a'', i, a, m]"
| "actor_fields (System i) = [''s'', i]"

definition fields_actor :: "string list \<Rightarrow> actor" where
  "fields_actor ts = (if hd ts = ''h'' then Human (ts ! 1)
     else if hd ts = ''a'' then Agent (ts ! 1) (ts ! 2) (ts ! 3) else System (ts ! 1))"

lemma fields_actor_inverse [simp]: "fields_actor (actor_fields a) = a"
  by (cases a) (simp_all add: fields_actor_def)

fun op_fields :: "audit_operation \<Rightarrow> string list" where
  "op_fields (Audit_create t h) = [''c'', t, h]"
| "op_fields (Audit_update t a b) = [''u'', t, a, b]"
| "op_fields (Audit_move s d h) = [''m'', s, d, h]"
| "op_fields (Audit_delete_generated t h) = [''d'', t, h]"

definition fields_op :: "string list \<Rightarrow> audit_operation" where
  "fields_op ts = (if hd ts = ''c'' then Audit_create (ts ! 1) (ts ! 2)
     else if hd ts = ''u'' then Audit_update (ts ! 1) (ts ! 2) (ts ! 3)
     else if hd ts = ''m'' then Audit_move (ts ! 1) (ts ! 2) (ts ! 3)
     else Audit_delete_generated (ts ! 1) (ts ! 2))"

lemma fields_op_inverse [simp]: "fields_op (op_fields a) = a"
  by (cases a) (simp_all add: fields_op_def)

definition event_fields :: "audit_event \<Rightarrow> string list" where
  "event_fields e =
     [int_field (ev_schema_version e), ev_id e, ev_proposal_id e, ev_context e,
      int_field (stamp_utc (ev_timestamp e)), int_field (stamp_offset (ev_timestamp e)),
      pack (actor_fields (ev_actor e)), (if ev_action e = Action_apply then ''a'' else ''r''),
      (if ev_result e = Committed then ''c'' else ''r''), ev_base_revision e,
      pack (ev_source_refs e), pack (ev_acknowledged e),
      pack (map (pack \<circ> op_fields) (ev_operations e)), ev_prev_hash e, ev_hash e]"

definition fields_event :: "string list \<Rightarrow> audit_event option" where
  "fields_event ts =
     (if length ts \<noteq> 15 then None
      else Some \<lparr>ev_schema_version = field_int (ts ! 0), ev_id = ts ! 1, ev_proposal_id = ts ! 2,
        ev_context = ts ! 3,
        ev_timestamp = \<lparr>stamp_utc = field_int (ts ! 4), stamp_offset = field_int (ts ! 5)\<rparr>,
        ev_actor = fields_actor (unpack (ts ! 6)),
        ev_action = (if ts ! 7 = ''a'' then Action_apply else Action_recovery),
        ev_result = (if ts ! 8 = ''c'' then Committed else Rolled_back), ev_base_revision = ts ! 9,
        ev_source_refs = unpack (ts ! 10), ev_acknowledged = unpack (ts ! 11),
        ev_operations = map (fields_op \<circ> unpack) (unpack (ts ! 12)), ev_prev_hash = ts ! 13,
        ev_hash = ts ! 14\<rparr>)"

lemma fields_event_inverse [simp]: "fields_event (event_fields e) = Some e"
  by (cases "ev_action e"; cases "ev_result e")
    (simp_all add: fields_event_def event_fields_def o_def)

section \<open>A ledger environment\<close>

definition example_digest :: "char \<Rightarrow> string" where
  "example_digest c = replicate 64 c"

definition example_content :: "string \<Rightarrow> string \<Rightarrow> audit_event" where
  "example_content name prev =
     \<lparr>ev_schema_version = 1, ev_id = ''AUD-20260101T000000Z-'' @ name,
      ev_proposal_id = ''TXP-20260101T000000Z-'' @ name, ev_context = ''ctx'',
      ev_timestamp = \<lparr>stamp_utc = 63902822400000000, stamp_offset = 0\<rparr>,
      ev_actor = Human ''ana'', ev_action = Action_apply, ev_result = Committed,
      ev_base_revision = prev, ev_source_refs = [], ev_acknowledged = [],
      ev_operations = [Audit_create ''03_work/t.md'' (''sha256:'' @ replicate 64 (CHR ''b''))],
      ev_prev_hash = prev, ev_hash = []\<rparr>"

definition example_encode :: "audit_event \<Rightarrow> bytes" where
  "example_encode e = CHR 0x7B # pack (event_fields e)"

definition example_env :: ledger_env where
  "example_env =
     \<lparr>le_encode = example_encode,
      le_loads = \<lambda>b. if b \<noteq> [] \<and> hd b = CHR 0x7B then fields_event (unpack (tl b)) else None,
      le_sha = \<lambda>b. example_digest
        (if b = example_encode (example_content ''one'' zero_revision) then CHR ''e'' else CHR ''f''),
      le_utf8 = \<lambda>_. True, le_json_bytes = \<lambda>_. [], le_nfc = id, le_ck = id, le_hostok = \<lambda>_. True\<rparr>"

lemma example_encode_inverse: "le_loads example_env (le_encode example_env e) = Some e"
  by (simp add: example_env_def example_encode_def)

lemma example_encode_inj: "example_encode e = example_encode f \<longleftrightarrow> e = f"
proof -
  have "e = f" if "example_encode e = example_encode f"
  proof -
    have "Some e = Some f"
      using that example_encode_inverse [of e] example_encode_inverse [of f]
      by (simp add: example_env_def)
    then show ?thesis by simp
  qed
  then show ?thesis by blast
qed

definition first_event :: audit_event where
  "first_event = example_content ''one'' zero_revision\<lparr>ev_hash := example_digest (CHR ''e'')\<rparr>"

definition second_event :: audit_event where
  "second_event = example_content ''two'' (example_digest (CHR ''e''))\<lparr>ev_hash := example_digest (CHR ''f'')\<rparr>"

lemma example_contents_ok:
  "audit_content_ok id id (\<lambda>_. True) first_event" "audit_content_ok id id (\<lambda>_. True) second_event"
  by code_simp+

lemma example_events_ok: "event_ok example_env first_event" "event_ok example_env second_event"
  using example_contents_ok by (simp_all add: event_ok_def example_env_def)

lemma example_events_sealed:
  "ev_hash first_event = compute_event_hash example_env first_event"
  "ev_hash second_event = compute_event_hash example_env second_event"
  by (simp_all add: compute_event_hash_def example_env_def first_event_def second_event_def
      example_encode_inj) (simp_all add: example_content_def)

end
