(* ===== verification/LedgerLaws.thy ===== *)
theory LedgerLaws
  imports LedgerExample Prepare
begin

text \<open>
  The ledger only grows. The verifier accepts exactly the encodings of well-chained events; an
  append, whatever happens to it, leaves the ledger as it was or one event longer; the locale of a
  growing log carries this to whole histories of sessions; and the hash of the last event fixes the
  whole ledger.
\<close>

section \<open>The codec\<close>

text \<open>What the ledger relies on from the JSON library: an encoded event is one line starting with a
  brace, it parses back, and ledgers made of such lines are UTF-8.\<close>

definition codec_ok :: "ledger_env \<Rightarrow> bool" where
  "codec_ok E \<longleftrightarrow>
     (\<forall>e. event_ok E e \<longrightarrow>
        le_loads E (le_encode E e) = Some e
        \<and> (\<exists>b. le_encode E e = CHR 0x7B # b)
        \<and> CHR 0x0A \<notin> set (le_encode E e) \<and> CHR 0x0D \<notin> set (le_encode E e))
     \<and> (\<forall>es. list_all (event_ok E) es \<longrightarrow> le_utf8 E (concat (map (encode_event_line E) es)))"

lemma codecD:
  assumes "codec_ok E" "event_ok E e"
  shows "le_loads E (le_encode E e) = Some e" "\<exists>b. le_encode E e = CHR 0x7B # b"
    "CHR 0x0A \<notin> set (le_encode E e)" "CHR 0x0D \<notin> set (le_encode E e)"
  using assms by (simp_all add: codec_ok_def)

lemma event_ok_hash [simp]: "event_ok E (e\<lparr>ev_hash := h\<rparr>) = event_ok E e"
  by (simp add: event_ok_def audit_content_ok_def)

section \<open>Well-chained events\<close>

fun chained ::
  "ledger_env \<Rightarrow> string \<Rightarrow> string set \<Rightarrow> string set \<Rightarrow> string \<Rightarrow> audit_event list \<Rightarrow> bool" where
  "chained E ctx ids pids prev [] \<longleftrightarrow> True"
| "chained E ctx ids pids prev (e # es) \<longleftrightarrow>
     event_ok E e \<and> ev_hash e = compute_event_hash E e \<and> ev_context e = ctx
     \<and> ev_id e \<notin> ids \<and> ev_proposal_id e \<notin> pids \<and> ev_prev_hash e = prev
     \<and> chained E ctx (insert (ev_id e) ids) (insert (ev_proposal_id e) pids) (ev_hash e) es"

abbreviation well_chained :: "ledger_env \<Rightarrow> string \<Rightarrow> audit_event list \<Rightarrow> bool" where
  "well_chained E ctx \<equiv> chained E ctx {} {} zero_revision"

lemma chained_events_ok: "chained E ctx ids pids prev es \<Longrightarrow> list_all (event_ok E) es"
  by (induction es arbitrary: ids pids prev) auto

lemma decode_event_Inr:
  "decode_event E line = Inr e \<longleftrightarrow>
     le_loads E line = Some e \<and> event_ok E e \<and> ev_hash e = compute_event_hash E e"
  by (auto simp: decode_event_def split: option.splits)

lemma verify_lines_iff:
  assumes "codec_ok E"
  shows "verify_lines E ctx ids pids prev lines = Inr es \<longleftrightarrow>
     lines = map (le_encode E) es \<and> chained E ctx ids pids prev es"
proof (induction lines arbitrary: ids pids prev es)
  case (Cons line lines)
  show ?case
    using codecD(1) [OF assms]
    by (cases es) (auto simp: result_simps Cons.IH decode_event_Inr encode_event_line_def
        split: if_splits)
qed (cases es; auto)+

lemma chained_snoc:
  "chained E ctx ids pids prev (es @ [e]) \<longleftrightarrow>
     chained E ctx ids pids prev es \<and> event_ok E e \<and> ev_hash e = compute_event_hash E e
     \<and> ev_context e = ctx \<and> ev_id e \<notin> ids \<union> ev_id ` set es
     \<and> ev_proposal_id e \<notin> pids \<union> ev_proposal_id ` set es
     \<and> ev_prev_hash e = (if es = [] then prev else ev_hash (last es))"
  by (induction es arbitrary: ids pids prev) auto

lemma ids_unique:
  assumes "chained E ctx ids pids prev es"
  shows "distinct (map ev_id es)" "distinct (map ev_proposal_id es)"
    "ids \<inter> ev_id ` set es = {}" "pids \<inter> ev_proposal_id ` set es = {}"
  using assms by (induction es arbitrary: ids pids prev) fastforce+

definition ledger_bytes :: "ledger_env \<Rightarrow> audit_event list \<Rightarrow> bytes" where
  "ledger_bytes E es = concat (map (encode_event_line E) es)"

lemma ledger_bytes_join:
  "es \<noteq> [] \<Longrightarrow> ledger_bytes E es = join_on CHR 0x0A (map (le_encode E) es) @ [CHR 0x0A]"
proof (induction es)
  case (Cons e es)
  then show ?case by (cases es) (simp_all add: ledger_bytes_def encode_event_line_def)
qed simp

lemma verify_bytes_iff:
  assumes "codec_ok E"
  shows "verify_bytes E ctx raw = Inr es \<longleftrightarrow>
     es \<noteq> [] \<and> raw = ledger_bytes E es \<and> well_chained E ctx es"
proof
  assume l: "verify_bytes E ctx raw = Inr es"
  then have raw: "raw \<noteq> []" "last raw = CHR 0x0A"
    and "verify_lines E ctx {} {} zero_revision (split_on CHR 0x0A (butlast raw)) = Inr es"
    by (auto simp: verify_bytes_def Let_def split: if_splits)
  then have s: "split_on CHR 0x0A (butlast raw) = map (le_encode E) es" and c: "well_chained E ctx es"
    using verify_lines_iff [OF assms] by blast+
  have ne: "es \<noteq> []" using s split_on_not_Nil by (metis list.simps(8))
  have "butlast raw = join_on CHR 0x0A (map (le_encode E) es)" using s join_split by metis
  then have "raw = ledger_bytes E es"
    using raw ledger_bytes_join [OF ne] append_butlast_last_id by metis
  with ne c show "es \<noteq> [] \<and> raw = ledger_bytes E es \<and> well_chained E ctx es" by simp
next
  assume r: "es \<noteq> [] \<and> raw = ledger_bytes E es \<and> well_chained E ctx es"
  have ok: "\<And>e. e \<in> set es \<Longrightarrow> event_ok E e" using r chained_events_ok by (metis list_all_iff)
  note cd = codecD [OF assms ok]
  obtain e fs where es: "es = e # fs" using r by (cases es) auto
  have raw: "raw = join_on CHR 0x0A (map (le_encode E) es) @ [CHR 0x0A]"
    using r ledger_bytes_join by simp
  have "split_on CHR 0x0A (butlast raw) = map (le_encode E) es"
    unfolding raw using r cd(3) by (simp add: split_join)
  moreover have "[] \<notin> set (map (le_encode E) es)" using cd(2) by fastforce
  moreover have "CHR 0x0D \<notin> set raw" using r cd(4) by (auto simp: ledger_bytes_def encode_event_line_def)
  moreover have "le_utf8 E raw" using assms r chained_events_ok by (auto simp: codec_ok_def ledger_bytes_def)
  moreover have "raw \<noteq> []" "last raw = CHR 0x0A" by (simp_all add: raw)
  moreover have "\<not> prefix bom raw"
    using cd(2) [of e] r es by (auto simp: ledger_bytes_def encode_event_line_def bom_def)
  ultimately show "verify_bytes E ctx raw = Inr es"
    using verify_lines_iff [OF assms] r by (simp add: verify_bytes_def Let_def)
qed

section \<open>The ledger of a state\<close>

definition ledger_holds :: "ledger_env \<Rightarrow> string \<Rightarrow> world \<Rightarrow> audit_event list \<Rightarrow> bool" where
  "ledger_holds E ctx w es \<longleftrightarrow>
     nested_context_free w ledger_file \<and> well_chained E ctx es
     \<and> (if es = [] then nodes w ledger_file = None
        else \<exists>c. nodes w ledger_file = Some (File c)
               \<and> content_bytes (le_json_bytes E) c = ledger_bytes E es)"

lemma resolve_ledger_eq:
  "resolve_ledger w =
     (if nested_context_free w ledger_file then Inr ledger_file else Inl Ledger_integrity)"
  by (simp add: resolve_ledger_def resolve_context_path_def portable_parts_def ledger_path_def
      allowed_location_def in_zone_def as_posix_def ledger_file_def bind_result.simps)

lemma read_verified_iff:
  assumes "codec_ok E"
  shows "read_verified_events E ctx w = Inr es \<longleftrightarrow> ledger_holds E ctx w es"
  using verify_bytes_iff [OF assms, of ctx _ es]
  by (auto simp: read_verified_events_def resolve_ledger_eq read_ledger_bytes_def ledger_holds_def
      result_simps split: option.splits node.splits)

lemma holds_bytes:
  "ledger_holds E ctx w es \<Longrightarrow>
     file_bytes (le_json_bytes E) (nodes w ledger_file) = ledger_bytes E es"
  by (auto simp: ledger_holds_def file_bytes_def ledger_bytes_def split: if_splits)

lemma nested_free_ledger:
  assumes "nodes w ledger_file \<noteq> Some Dir"
  shows "nested_context_free w ledger_file \<longleftrightarrow>
     \<not> is_file w [''99_meta'', ''context.yaml''] \<and> \<not> is_file w [''99_meta'', ''audit'', ''context.yaml'']"
proof -
  have "set [1..<Suc (length (butlast ledger_file))] = {1, 2}" by (auto simp: ledger_file_def)
  moreover have "\<not> is_dir w ledger_file" using assms by (simp add: is_dir_def ledger_file_def)
  ultimately have "nested_context_free w ledger_file \<longleftrightarrow>
      (\<forall>k\<in>{1, 2}. \<not> is_file w (marker (take k (butlast ledger_file))))"
    by (simp only: nested_context_free_def Let_def if_False)
  then show ?thesis by (simp add: ledger_file_def marker_def)
qed

lemma nested_free_eq:
  assumes "nodes w ledger_file \<noteq> Some Dir" "nodes w' ledger_file \<noteq> Some Dir"
    and "\<And>q. outside_state q \<Longrightarrow> \<not> prefix q ledger_file \<Longrightarrow> nodes w' q = nodes w q"
  shows "nested_context_free w' ledger_file = nested_context_free w ledger_file"
proof -
  have "nodes w' [''99_meta'', ''context.yaml''] = nodes w [''99_meta'', ''context.yaml'']"
    "nodes w' [''99_meta'', ''audit'', ''context.yaml''] = nodes w [''99_meta'', ''audit'', ''context.yaml'']"
    by (intro assms(3); simp add: outside_state_def ledger_file_def)+
  then show ?thesis by (simp only: nested_free_ledger [OF assms(1)] nested_free_ledger [OF assms(2)] is_file_def)
qed

section \<open>Replays\<close>

lemma find_unique_distinct:
  assumes "distinct (map f es)"
  shows "find_unique (\<lambda>x. f x = v) es = Inr (find (\<lambda>x. f x = v) es)"
proof -
  have "filter (\<lambda>x. f x = v) es = (case find (\<lambda>x. f x = v) es of None \<Rightarrow> [] | Some e \<Rightarrow> [e])"
    using assms
  proof (induction es)
    case (Cons a es)
    have "filter (\<lambda>x. f x = f a) es = []" using Cons.prems by (auto simp: filter_empty_conv dest: image_eqI [OF sym])
    then show ?case using Cons by (cases "f a = v") auto
  qed simp
  then show ?thesis by (simp add: find_unique_def split: option.splits)
qed

lemma find_absent: "find (\<lambda>x. f x = v) es = None \<longleftrightarrow> v \<notin> f ` set es"
  by (induction es) auto

lemma find_member: "distinct (map f es) \<Longrightarrow> e \<in> set es \<Longrightarrow> find (\<lambda>x. f x = f e) es = Some e"
  by (induction es) (auto simp: image_iff)

lemma matching_replay_cases:
  assumes "well_chained E ctx es"
  shows "matching_replay es e = Inr None \<longleftrightarrow>
      ev_id e \<notin> ev_id ` set es \<and> ev_proposal_id e \<notin> ev_proposal_id ` set es"
    and "matching_replay es e = Inr (Some x) \<Longrightarrow> x = e \<and> e \<in> set es"
    and "e \<in> set es \<Longrightarrow> matching_replay es e = Inr (Some e)"
proof -
  note u = find_unique_distinct [OF ids_unique(1) [OF assms]]
    find_unique_distinct [OF ids_unique(2) [OF assms]]
  show "matching_replay es e = Inr None \<longleftrightarrow>
      ev_id e \<notin> ev_id ` set es \<and> ev_proposal_id e \<notin> ev_proposal_id ` set es"
    by (auto simp: matching_replay_def u bind_result.simps find_absent [symmetric] split: if_splits)
  show "x = e \<and> e \<in> set es" if "matching_replay es e = Inr (Some x)"
  proof -
    have "find (\<lambda>y. ev_id y = ev_id e) es = Some e" "x = e"
      using that by (auto simp: matching_replay_def u split: if_splits)
    then show ?thesis by (auto simp: find_Some_iff)
  qed
  assume e: "e \<in> set es"
  show "matching_replay es e = Inr (Some e)"
    by (simp add: matching_replay_def u find_member [OF ids_unique(1) [OF assms] e]
        find_member [OF ids_unique(2) [OF assms] e])
qed

section \<open>Appending\<close>

abbreviation write_event ::
  "(content \<Rightarrow> hash) \<Rightarrow> ledger_env \<Rightarrow> nat \<Rightarrow> lease \<Rightarrow> audit_event \<Rightarrow> unit action" where
  "write_event H E n l e \<equiv>
     atomic_append_line_bytes H (le_ck E) (le_json_bytes E) n l (lease_nonce l) ledger_path
       (encode_event_line E e)"

lemma ledger_path_parts: "portable_parts ledger_path = Inr ledger_file" "outside_state ledger_file"
  by (simp_all add: portable_parts_def ledger_path_def ledger_file_def outside_state_def)

text \<open>The line is on disk entirely or not at all.\<close>

lemma write_event_outcome:
  assumes h: "ledger_holds E ctx w es" and w: "no_edits w" "write_event H E n l e w = (r, w')"
    and next_event: "well_chained E ctx (es @ [e])"
  shows "no_edits w' \<and> (ledger_holds E ctx w' es \<or> ledger_holds E ctx w' (es @ [e]))
     \<and> (r = Inr () \<longrightarrow> ledger_holds E ctx w' (es @ [e]))"
proof -
  have new: "file_bytes (le_json_bytes E) (nodes w ledger_file) @ encode_event_line E e
      = ledger_bytes E (es @ [e])"
    by (simp add: holds_bytes [OF h] ledger_bytes_def)
  note m = movesD [OF append_moves [OF ledger_path_parts] w(1) refl w(2), unfolded new]
  note s = sparesD(2) [OF append_spares [OF ledger_path_parts(1)] w]
  have old: "nodes w ledger_file \<noteq> Some Dir" using h by (auto simp: ledger_holds_def split: if_splits)
  have now: "nodes w' ledger_file \<noteq> Some Dir" using m(2) old by auto
  have free: "nested_context_free w' ledger_file"
    using nested_free_eq [OF old now] s h unfolding ledger_holds_def by blast
  have kept: "ledger_holds E ctx w' es" if "nodes w' ledger_file = nodes w ledger_file"
    using that h free by (simp add: ledger_holds_def)
  have grown: "ledger_holds E ctx w' (es @ [e])"
    if "nodes w' ledger_file = Some (File (Bytes (ledger_bytes E (es @ [e]))))"
    using that next_event free by (simp add: ledger_holds_def)
  show ?thesis using m kept grown by blast
qed


lemma and_then_lift_cases:
  assumes "and_then (lift f) k w = (r, w')"
  obtains (fails) e where "r = Inl e" "w' = w" | (passes) x where "f w = Inr x" "k x w = (r, w')"
  using assms by (cases "f w") (auto simp: and_then_def lift_def)

lemma and_then_check_cases:
  assumes "and_then (check b e) k w = (r, w')"
  obtains (fails) e where "r = Inl e" "w' = w" | (passes) "b" "k () w = (r, w')"
  using assms by (cases b) (auto simp: and_then_def check_def ret_def fail_def)

lemma and_then_attempt_cases:
  assumes "and_then (attempt m) k w = (r, w')"
  obtains (dies) "m w = (Inl Crashed, w')" "r = Inl Crashed" | (goes) q v where "m w = (q, v)" "k q v = (r, w')"
proof -
  obtain q v where v: "m w = (q, v)" by fastforce
  show thesis
  proof (cases "q = Inl Crashed")
    case True
    then show thesis using assms v dies by (simp add: and_then_def attempt_def)
  next
    case False
    then have "attempt m w = (Inr q, v)" using v by (auto simp: attempt_def split: sum.splits exn.splits)
    then show thesis using assms v goes by (simp add: and_then_def)
  qed
qed

lemma commit_cases:
  assumes "commit_event H E ctx n l e w = (r, w')"
  shows "\<exists>q. write_event H E n l e w = (q, w')
     \<and> (\<forall>x. r = Inr x \<longrightarrow>
          (\<exists>fs. read_verified_events E ctx w' = Inr fs \<and> matching_replay fs e = Inr (Some x)))"
  using assms unfolding commit_event_def
proof (cases rule: and_then_attempt_cases)
  case (goes q v)
  from goes(2) show ?thesis
  proof (cases rule: and_then_lift_cases)
    case (passes fs)
    note fs = passes(1)
    from passes(2) show ?thesis
    proof (cases rule: and_then_lift_cases)
      case (passes c)
      then show ?thesis using goes(1) fs by (cases c) (auto simp: ret_def fail_def)
    qed (use goes in auto)
  qed (use goes in auto)
qed auto

lemma append_event_cases:
  assumes "append_event H E ctx n l e w = (r, w')" "read_verified_events E ctx w = Inr es"
  obtains (unchanged) "w' = w" "\<And>x. r = Inr x \<Longrightarrow> matching_replay es e = Inr (Some x)"
    | (written) "matching_replay es e = Inr None" "ev_context e = ctx"
        "ev_prev_hash e = head_hash es" "ev_hash e = compute_event_hash E e"
        "commit_event H E ctx n l e w = (r, w')"
proof -
  from assms(1) have "w' = w \<and> (\<exists>x. r = Inl x) \<or> (\<exists>c. matching_replay es e = Inr c
      \<and> (case c of Some r \<Rightarrow> ret r | None \<Rightarrow>
            and_then (check (ev_context e = ctx \<and> ev_prev_hash e = head_hash es
              \<and> ev_hash e = compute_event_hash E e) Ledger_integrity) (\<lambda>_.
            commit_event H E ctx n l e)) w = (r, w'))"
    unfolding append_event_def using assms(2) by (auto elim!: and_then_lift_cases)
  then show thesis
  proof (elim disjE exE conjE)
    fix c
    assume c: "matching_replay es e = Inr c"
      and go: "(case c of Some r \<Rightarrow> ret r | None \<Rightarrow>
            and_then (check (ev_context e = ctx \<and> ev_prev_hash e = head_hash es
              \<and> ev_hash e = compute_event_hash E e) Ledger_integrity) (\<lambda>_.
            commit_event H E ctx n l e)) w = (r, w')"
    show thesis
    proof (cases c)
      case None
      from go [unfolded None option.case] show thesis
        by (cases rule: and_then_check_cases) (use c None unchanged written in auto)
    qed (use c go unchanged in \<open>auto simp: ret_def\<close>)
  qed (use unchanged in auto)
qed

text \<open>What an append does to the ledger.\<close>

lemma append_event_effect:
  assumes c: "codec_ok E" "event_ok E e" and h: "ledger_holds E ctx w es"
    and w: "no_edits w" "append_event H E ctx n l e w = (r, w')"
  shows "no_edits w'" "ledger_holds E ctx w' es \<or> ledger_holds E ctx w' (es @ [e])"
    and "r = Inr x \<Longrightarrow> x = e \<and> (\<exists>fs. ledger_holds E ctx w' fs \<and> e \<in> set fs)"
    and "outside_state q \<Longrightarrow> \<not> prefix q ledger_file \<Longrightarrow> nodes w' q = nodes w q"
proof -
  have wc: "well_chained E ctx es" using h by (simp add: ledger_holds_def)
  have "no_edits w' \<and> (ledger_holds E ctx w' es \<or> ledger_holds E ctx w' (es @ [e]))
      \<and> (\<forall>x. r = Inr x \<longrightarrow> x = e \<and> (\<exists>fs. ledger_holds E ctx w' fs \<and> e \<in> set fs))
      \<and> (outside_state q \<longrightarrow> \<not> prefix q ledger_file \<longrightarrow> nodes w' q = nodes w q)"
    using w(2) read_verified_iff [OF c(1), THEN iffD2, OF h]
  proof (cases rule: append_event_cases)
    case unchanged
    then show ?thesis using w(1) h matching_replay_cases(2) [OF wc] by blast
  next
    case written
    obtain p where p: "write_event H E n l e w = (p, w')"
      and found: "\<And>x. r = Inr x \<Longrightarrow>
        \<exists>fs. read_verified_events E ctx w' = Inr fs \<and> matching_replay fs e = Inr (Some x)"
      using commit_cases [OF written(5)] by blast
    have "well_chained E ctx (es @ [e])"
      using wc c(2) written matching_replay_cases(1) [OF wc]
      by (auto simp: chained_snoc head_hash_def)
    note o = write_event_outcome [OF h w(1) p this]
    have "x = e \<and> (\<exists>fs. ledger_holds E ctx w' fs \<and> e \<in> set fs)" if r: "r = Inr x" for x
    proof -
      obtain fs where "ledger_holds E ctx w' fs" "matching_replay fs e = Inr (Some x)"
        using found [OF r] read_verified_iff [OF c(1)] by blast
      moreover from this have "x = e \<and> e \<in> set fs"
        using matching_replay_cases(2) [of E ctx fs e x] by (simp add: ledger_holds_def)
      ultimately show ?thesis by blast
    qed
    then show ?thesis
      using o sparesD(2) [OF append_spares [OF ledger_path_parts(1)] w(1) p] by blast
  qed
  then show "no_edits w'" "ledger_holds E ctx w' es \<or> ledger_holds E ctx w' (es @ [e])"
    "r = Inr x \<Longrightarrow> x = e \<and> (\<exists>fs. ledger_holds E ctx w' fs \<and> e \<in> set fs)"
    "outside_state q \<Longrightarrow> \<not> prefix q ledger_file \<Longrightarrow> nodes w' q = nodes w q"
    by blast+
qed


section \<open>A growing log\<close>

text \<open>A log that every step extends by some entries keeps its past, whatever the history.\<close>

locale growing_log =
  fixes step :: "'s \<Rightarrow> 's \<Rightarrow> bool"
    and holds :: "'s \<Rightarrow> 'e list \<Rightarrow> bool"
  assumes grows: "holds s es \<Longrightarrow> step s s' \<Longrightarrow> \<exists>fs. holds s' (es @ fs)"
    and determined: "holds s es \<Longrightarrow> holds s fs \<Longrightarrow> es = fs"
begin

lemma history: "step\<^sup>*\<^sup>* s s' \<Longrightarrow> holds s es \<Longrightarrow> \<exists>fs. holds s' (es @ fs)"
proof (induction rule: rtranclp_induct)
  case base
  then show ?case by (intro exI [of _ "[]"]) simp
next
  case (step u v)
  then obtain fs gs where "holds v ((es @ fs) @ gs)" using grows by blast
  then show ?case by (intro exI [of _ "fs @ gs"]) simp
qed

lemma entry_stable:
  assumes "step\<^sup>*\<^sup>* s s'" "holds s es" "holds s' fs" "k < length es"
  shows "fs ! k = es ! k"
  using history [OF assms(1,2)] determined [OF assms(3)] assms(4) by (auto simp: nth_append)

end

text \<open>A step of the world as far as the ledger is concerned: a session appends an event, with any
  interruption; or anything happens that leaves the ledger file and the directory markers beside it
  alone (a restart, another holder of the lock, a transaction).\<close>

inductive ledger_step :: "(content \<Rightarrow> hash) \<Rightarrow> ledger_env \<Rightarrow> string \<Rightarrow> world \<Rightarrow> world \<Rightarrow> bool"
  for H E ctx where
  appending: "no_edits w \<Longrightarrow> event_ok E e \<Longrightarrow> append_event H E ctx n l e w = (r, w') \<Longrightarrow>
    ledger_step H E ctx w w'"
| elsewhere: "nodes w' ledger_file = nodes w ledger_file \<Longrightarrow>
    nested_context_free w' ledger_file = nested_context_free w ledger_file \<Longrightarrow>
    ledger_step H E ctx w w'"

interpretation ledger: growing_log "ledger_step H E ctx" "\<lambda>w es. codec_ok E \<and> ledger_holds E ctx w es"
  for H E ctx
proof (unfold_locales, goal_cases)
  case (1 w es w')
  then have c: "codec_ok E" and h: "ledger_holds E ctx w es" by auto
  from 1(2) show ?case
  proof (cases rule: ledger_step.cases)
    case (appending e n l r)
    then show ?thesis
      using append_event_effect(2) [OF c appending(2) h appending(1,3)] c
      by (metis append_Nil2)
  next
    case elsewhere
    then have "ledger_holds E ctx w' es" using h by (simp add: ledger_holds_def)
    then show ?thesis using c by (intro exI [of _ "[]"]) simp
  qed
next
  case (2 w es fs)
  then have "read_verified_events E ctx w = Inr es" "read_verified_events E ctx w = Inr fs"
    using read_verified_iff by blast+
  then show ?case by simp
qed

text \<open>
  C8: The ledger only grows. After any history of appending sessions, each of them interrupted at any
  point or not, and of anything else that leaves the ledger file alone, a ledger that verified still
  verifies and begins with the same events.
\<close>

theorem ledger_history_grows:
  assumes "codec_ok E" "read_verified_events E ctx w = Inr es"
    and "(ledger_step H E ctx)\<^sup>*\<^sup>* w w'"
  shows "\<exists>fs. read_verified_events E ctx w' = Inr (es @ fs)"
  using ledger.history [OF assms(3)] assms(1,2) read_verified_iff by blast

text \<open>
  C7: Appending an event is atomic and idempotent at every outcome, a crash included: the ledger reads
  as before or with the event at its end; a call that returns gives back the event, which the ledger
  then holds; and once the ledger holds it a further append by a holder of the lock returns it and
  changes nothing.
\<close>

theorem append_event_outcome:
  assumes "codec_ok E" "event_ok E e" "read_verified_events E ctx w = Inr es" "no_edits w"
    and run: "append_event H E ctx n l e w = (r, w')"
  shows "(read_verified_events E ctx w' = Inr es \<or> read_verified_events E ctx w' = Inr (es @ [e]))
     \<and> (\<forall>x. r = Inr x \<longrightarrow> x = e \<and> (\<exists>fs. read_verified_events E ctx w' = Inr fs \<and> e \<in> set fs))
     \<and> (e \<in> set es \<longrightarrow> lease_context l = world_context w \<longrightarrow> verify_fence l w = Inr n' \<longrightarrow>
          (r, w') = (Inr e, w))"
proof -
  have h: "ledger_holds E ctx w es" using assms(1,3) read_verified_iff by blast
  note f = append_event_effect [OF assms(1,2) h assms(4) run]
  have "matching_replay es e = Inr (Some e)" if "e \<in> set es"
    using that matching_replay_cases(3) h by (auto simp: ledger_holds_def)
  then have "(r, w') = (Inr e, w)"
    if "e \<in> set es" "lease_context l = world_context w" "verify_fence l w = Inr n'"
    using that run assms(3)
    by (simp add: append_event_def and_then_def lift_def ret_def)
  then show ?thesis using f(2,3) read_verified_iff [OF assms(1)] by blast
qed

section \<open>Receipts\<close>

definition receipt_matches :: "ledger_env \<Rightarrow> apply_receipt \<Rightarrow> audit_event \<Rightarrow> bool" where
  "receipt_matches E r e \<longleftrightarrow>
     rc_event_id r \<noteq> [] \<and> ev_id e = rc_event_id r \<and> ev_hash e = rc_event_hash r
     \<and> compute_event_hash E e = rc_event_hash r
     \<and> ev_proposal_id e = rc_proposal_id r \<and> ev_context e = rc_context r
     \<and> ev_action e = Action_apply \<and> ev_result e = Committed \<and> ev_source_refs e = rc_source_refs r"

lemma find_in: "distinct (map f es) \<Longrightarrow> find (\<lambda>x. f x = v) es = Some e \<longleftrightarrow> e \<in> set es \<and> f e = v"
  by (induction es) auto

lemma authenticate_iff:
  assumes "codec_ok E" "read_verified_events E ctx w = Inr es"
  shows "authenticate_apply_result E ctx r w = Inr e \<longleftrightarrow> e \<in> set es \<and> receipt_matches E r e"
proof -
  have "well_chained E ctx es" using assms read_verified_iff by (auto simp: ledger_holds_def)
  then have d: "distinct (map ev_id es)" by (rule ids_unique(1))
  have f: "find_event_by_id E ctx i w = Inr (Some x) \<longleftrightarrow> i \<noteq> [] \<and> x \<in> set es \<and> ev_id x = i" for i x
    using find_in [OF d] by (simp add: find_event_by_id_def assms(2) find_unique_distinct [OF d])
  have "authenticate_apply_result E ctx r w = Inr e \<longleftrightarrow>
      find_event_by_id E ctx (rc_event_id r) w = Inr (Some e)
      \<and> ev_hash e = rc_event_hash r \<and> compute_event_hash E e = rc_event_hash r
      \<and> ev_proposal_id e = rc_proposal_id r \<and> ev_context e = rc_context r
      \<and> ev_action e = Action_apply \<and> ev_result e = Committed \<and> ev_source_refs e = rc_source_refs r"
    by (cases "find_event_by_id E ctx (rc_event_id r) w")
      (auto simp: authenticate_apply_result_def verify_ledger_def assms(2) split: option.split)
  then show ?thesis using f by (auto simp: receipt_matches_def)
qed

text \<open>
  C20: A receipt is accepted exactly for a committed apply event of the verified ledger that carries
  all its identities, and an accepted receipt is accepted, for the same event, after any further
  history of the ledger.
\<close>

theorem receipt_durable:
  assumes "codec_ok E" "authenticate_apply_result E ctx r w = Inr e"
    and "(ledger_step H E ctx)\<^sup>*\<^sup>* w w'"
  shows "authenticate_apply_result E ctx r w' = Inr e
     \<and> (\<exists>es. read_verified_events E ctx w = Inr es \<and> e \<in> set es) \<and> receipt_matches E r e"
proof -
  obtain es where es: "read_verified_events E ctx w = Inr es"
    using assms(2) by (auto simp: authenticate_apply_result_def verify_ledger_def result_simps)
  then obtain fs where "read_verified_events E ctx w' = Inr (es @ fs)"
    using ledger.history [OF assms(3)] assms(1) read_verified_iff by blast
  then show ?thesis
    using es assms(2) authenticate_iff [OF assms(1)] by auto
qed

section \<open>Tampering\<close>

definition hashed_bytes :: "ledger_env \<Rightarrow> audit_event list \<Rightarrow> bytes set" where
  "hashed_bytes E es = (\<lambda>e. le_encode E (e\<lparr>ev_hash := []\<rparr>)) ` set es"

lemma same_hash_same_event:
  assumes "codec_ok E" "event_ok E e" "event_ok E f"
    and "ev_hash e = compute_event_hash E e" "ev_hash f = compute_event_hash E f" "ev_hash e = ev_hash f"
    and "inj_on (le_sha E) B" "hashed_bytes E [e, f] \<subseteq> B"
  shows "e = f"
proof -
  have "le_encode E (e\<lparr>ev_hash := []\<rparr>) = le_encode E (f\<lparr>ev_hash := []\<rparr>)"
    using assms(4-8) by (auto simp: compute_event_hash_def hashed_bytes_def dest: inj_onD)
  then have "e\<lparr>ev_hash := []\<rparr> = f\<lparr>ev_hash := []\<rparr>"
    using codecD(1) [OF assms(1)] assms(2,3) event_ok_hash by (metis option.inject)
  then have "e\<lparr>ev_hash := []\<rparr>\<lparr>ev_hash := ev_hash e\<rparr> = f\<lparr>ev_hash := []\<rparr>\<lparr>ev_hash := ev_hash f\<rparr>"
    using assms(6) by simp
  then show ?thesis by simp
qed

lemma head_fixes_events:
  assumes c: "codec_ok E" and inj: "inj_on (le_sha E) B"
  shows "well_chained E ctx es \<Longrightarrow> well_chained E ctx fs \<Longrightarrow> head_hash es = head_hash fs \<Longrightarrow>
    hashed_bytes E (es @ fs) \<subseteq> B \<Longrightarrow> zero_revision \<notin> ev_hash ` set (es @ fs) \<Longrightarrow> es = fs"
proof (induction es arbitrary: fs rule: rev_induct)
  case Nil
  then show ?case by (cases fs rule: rev_cases) (auto simp: head_hash_def)
next
  case (snoc e es)
  then have "fs \<noteq> []" by (auto simp: head_hash_def)
  then obtain gs f where fs: "fs = gs @ [f]" by (cases fs rule: rev_cases) auto
  note ce = snoc.prems(1) [unfolded chained_snoc] and cf = snoc.prems(2) [unfolded fs chained_snoc]
  have "e = f"
    using same_hash_same_event [OF c _ _ _ _ _ inj, of e f] ce cf snoc.prems(3,4)
    by (simp add: head_hash_def fs hashed_bytes_def)
  moreover have "es = gs"
    using snoc.IH [of gs] ce cf snoc.prems(4,5) \<open>e = f\<close>
    by (simp add: fs head_hash_def hashed_bytes_def)
  ultimately show ?case by (simp add: fs)
qed

text \<open>
  C17: The hash of the last event fixes the whole ledger: two ledger files that verify and have the
  same head hash are byte for byte the same, unless two of the hashed texts in them collide or an
  event hashes to the zero revision.
\<close>

theorem head_fixes_ledger:
  assumes "codec_ok E" "verify_bytes E ctx a = Inr es" "verify_bytes E ctx b = Inr fs"
    and "head_hash es = head_hash fs"
    and "inj_on (le_sha E) (hashed_bytes E (es @ fs))" "zero_revision \<notin> ev_hash ` set (es @ fs)"
  shows "a = b \<and> es = fs"
proof -
  have v: "a = ledger_bytes E es" "well_chained E ctx es" "b = ledger_bytes E fs" "well_chained E ctx fs"
    using assms(2,3) verify_bytes_iff [OF assms(1)] by blast+
  then show ?thesis
    using head_fixes_events [OF assms(1,5) v(2,4) assms(4) subset_refl assms(6)] by simp
qed

section \<open>Examples\<close>

lemma example_codec: "codec_ok example_env"
proof -
  have "c \<noteq> CHR 0x0A \<and> c \<noteq> CHR 0x0D" if "c \<in> set (example_encode e)" for c e
    using that pack_chars by (fastforce simp: example_encode_def code_def)
  then show ?thesis
    using example_encode_inverse
    by (auto simp: codec_ok_def) (auto simp: example_env_def example_encode_def)
qed

lemma example_chained:
  "well_chained example_env ''ctx'' [first_event]"
  "well_chained example_env ''ctx'' [first_event, second_event]"
  using example_events_ok example_events_sealed
  by (simp_all add: first_event_def second_event_def example_content_def)

definition example_ledger :: "event list \<Rightarrow> world" where
  "example_ledger = example_world
     [(ledger_file, File (Bytes (ledger_bytes example_env [first_event])))]"

lemma example_ledger_read:
  "read_verified_events example_env ''ctx'' (example_ledger evs) = Inr [first_event]"
proof -
  have f: "nodes (example_ledger evs) ledger_file
      = Some (File (Bytes (ledger_bytes example_env [first_event])))"
    by (simp add: example_ledger_def example_world_def)
  moreover from this have "nested_context_free (example_ledger evs) ledger_file"
    by (simp add: nested_free_ledger is_file_def) (simp add: example_ledger_def example_world_def ledger_file_def)
  ultimately show ?thesis
    using example_chained(1) by (simp add: read_verified_iff [OF example_codec] ledger_holds_def)
qed

theorem append_event_outcome_witness:
  "read_verified_events example_env ''ctx''
     (snd (append_event example_hash example_env ''ctx'' 2 example_lease second_event (example_ledger [Go, Crash 9])))
   \<in> {Inr [first_event], Inr [first_event, second_event]}"
proof -
  let ?w = "example_ledger [Go, Crash 9]"
  let ?r = "append_event example_hash example_env ''ctx'' 2 example_lease second_event ?w"
  have "no_edits ?w" by (simp add: no_edits_def example_ledger_def example_world_def)
  then show ?thesis
    using append_event_outcome [OF example_codec example_events_ok(2) example_ledger_read,
        where r = "fst ?r" and w' = "snd ?r"] by simp
qed

theorem ledger_history_grows_witness:
  "\<exists>fs. read_verified_events example_env ''ctx''
     (snd (append_event example_hash example_env ''ctx'' 2 example_lease second_event (example_ledger [Deny]))
        \<lparr>disk_nonce := None, events := [Crash 0]\<rparr>) = Inr ([first_event] @ fs)"
proof -
  let ?w = "example_ledger [Deny]"
  let ?r = "append_event example_hash example_env ''ctx'' 2 example_lease second_event ?w"
  have "no_edits ?w" by (simp add: no_edits_def example_ledger_def example_world_def)
  then have "ledger_step example_hash example_env ''ctx'' ?w (snd ?r)"
    by (rule ledger_step.appending [OF _ example_events_ok(2), where r = "fst ?r"]) simp
  moreover have "ledger_step example_hash example_env ''ctx'' (snd ?r)
      (snd ?r\<lparr>disk_nonce := None, events := [Crash 0]\<rparr>)"
    by (rule ledger_step.elsewhere) (simp_all add: nested_context_free_def is_dir_def is_file_def)
  ultimately have "(ledger_step example_hash example_env ''ctx'')\<^sup>*\<^sup>* ?w
      (snd ?r\<lparr>disk_nonce := None, events := [Crash 0]\<rparr>)" by (simp add: rtranclp.rtrancl_into_rtrancl)
  then show ?thesis by (rule ledger_history_grows [OF example_codec example_ledger_read])
qed

theorem receipt_durable_witness:
  "authenticate_apply_result example_env ''ctx''
     \<lparr>rc_proposal_id = ev_proposal_id first_event, rc_context = ''ctx'', rc_event_id = ev_id first_event,
      rc_event_hash = ev_hash first_event, rc_source_refs = []\<rparr>
     (example_ledger [Deny]\<lparr>disk_nonce := None\<rparr>) = Inr first_event"
proof -
  let ?r = "\<lparr>rc_proposal_id = ev_proposal_id first_event, rc_context = ''ctx'', rc_event_id = ev_id first_event,
      rc_event_hash = ev_hash first_event, rc_source_refs = []\<rparr>"
  have "receipt_matches example_env ?r first_event"
    using example_events_sealed(1)
    by (simp add: receipt_matches_def) (simp add: first_event_def example_content_def)
  then have a: "authenticate_apply_result example_env ''ctx'' ?r (example_ledger [Deny]) = Inr first_event"
    by (simp add: authenticate_iff [OF example_codec example_ledger_read])
  have "ledger_step example_hash example_env ''ctx'' (example_ledger [Deny])
      (example_ledger [Deny]\<lparr>disk_nonce := None\<rparr>)"
    by (rule ledger_step.elsewhere) (simp_all add: nested_context_free_def is_dir_def is_file_def)
  then show ?thesis using receipt_durable [OF example_codec a r_into_rtranclp] by blast
qed

theorem head_fixes_ledger_witness:
  "verify_bytes example_env ''ctx'' (ledger_bytes example_env [first_event, second_event])
     = Inr [first_event, second_event]
   \<and> ledger_bytes example_env [first_event, second_event]
     = ledger_bytes example_env [first_event] @ encode_event_line example_env second_event"
proof -
  let ?es = "[first_event, second_event]"
  let ?b = "ledger_bytes example_env [first_event] @ encode_event_line example_env second_event"
  have b: "ledger_bytes example_env ?es = ?b" by (simp add: ledger_bytes_def)
  have v: "verify_bytes example_env ''ctx'' (ledger_bytes example_env ?es) = Inr ?es"
    using example_chained(2) by (simp add: verify_bytes_iff [OF example_codec])
  have ne: "ev_hash first_event \<noteq> zero_revision" "ev_hash second_event \<noteq> zero_revision"
    "ev_hash first_event \<noteq> ev_hash second_event"
    by (simp_all add: first_event_def second_event_def zero_revision_def example_digest_def)
  have "inj_on (le_sha example_env) (hashed_bytes example_env (?es @ ?es))"
    using ne(3) example_events_sealed
    by (auto simp: inj_on_def hashed_bytes_def compute_event_hash_def)
  then have "ledger_bytes example_env ?es = ?b \<and> ?es = ?es"
    using head_fixes_ledger [OF example_codec v v [unfolded b] refl] ne by (auto simp: b)
  then show ?thesis using v by simp
qed

end
