(* ===== verification/EngineFrame.thy ===== *)
theory EngineFrame
  imports Engine LedgerLaws
begin

text \<open>
  What the stages of the transaction protocol leave alone: a mover with an intent in flight, the
  preparation, the append to the ledger beside an intent, the finalisation.
\<close>

named_theorems return_simps \<open>when an action returns a value\<close>

section \<open>Actions that return\<close>

lemma and_then_returns [return_simps]:
  "and_then m k w = (Inr y, w') \<longleftrightarrow> (\<exists>x v. m w = (Inr x, v) \<and> k x v = (Inr y, w'))"
  by (auto simp: and_then_def split: prod.splits sum.splits)

lemma basic_returns [return_simps]:
  "ret x w = (Inr y, w') \<longleftrightarrow> y = x \<and> w' = w"
  "fail e w \<noteq> (Inr y, w')"
  "lift f w = (Inr y, w') \<longleftrightarrow> f w = Inr y \<and> w' = w"
  "check b e w = (Inr u, w') \<longleftrightarrow> b \<and> w' = w"
  by (auto simp: ret_def fail_def lift_def check_def)

lemma checks_return [return_simps]:
  "for_each (\<lambda>v. lift (f v)) vs w = (Inr u, w') \<longleftrightarrow> w' = w \<and> (\<forall>v\<in>set vs. f v w = Inr ())"
  by (induction vs) (auto simp: return_simps)

lemma unless_published_returns [return_simps]:
  "unless_published m d w = (Inr x, w') \<longleftrightarrow> m w = (Inr x, w')"
  by (auto simp: unless_published_def split: prod.splits sum.splits)

section \<open>Movers\<close>

lemma mover_outcome:
  assumes "marker_free i" "no_edits w" "run_mover H ck m n l i w = (r, w')"
  obtains (refused) e where "w' = w" "r = Inl e"
    | (moved) "in_flight H ck i w" "in_flight H ck i w'" "no_edits w'" "elsewhere_same i w w'"
        "world_context w' = world_context w"
proof (cases "in_flight H ck i w")
  case True
  then show thesis using moved mover_keeps [OF True assms(2,3)] by blast
next
  case False
  obtain rec act where act: "run_mover H ck m n l i = with_durable_intent ck l rec i act"
    "act = apply_validated H n l \<or> act = rollback_validated H n l"
    by (rule run_mover_cases)
  show thesis
  proof (cases "load_intent ck w = Inr i")
    case True
    then obtain vs where "validated_intent_paths ck i w = Inr vs"
      by (auto simp: load_intent_def result_simps split: option.splits node.splits content.splits
          if_splits sum.splits)
    then have "ri_state (inspect_recovery H ck w) = RECOVERY_CONFLICT"
      using False assms(1) inspect_loaded [OF True] by (simp add: in_flight_def)
    then show thesis using mover_refuses refused assms(3) by (metis prod.inject)
  next
    case False
    then have "w' = w \<and> (\<forall>j. r \<noteq> Inr j)"
      using assms(3) unfolding act(1)
      by (auto simp: with_durable_intent_def Let_def and_then_def lift_def check_def fail_def ret_def
          split: sum.splits if_splits)
    then show thesis using refused by (cases r) auto
  qed
qed

definition forward :: "mover \<Rightarrow> bool" where
  "forward m \<longleftrightarrow> m = Apply \<or> m = Complete_recovery"

text \<open>A mover that returns has brought every target to its image.\<close>

lemma mover_arrives:
  assumes "in_flight H ck i w" "no_edits w" "run_mover H ck m n l i w = (Inr j, w')"
  shows "j = i"
    and "\<forall>t\<in>set (intent_targets i). if forward m then postimage_holds H w' t else preimage_holds H w' t"
proof -
  obtain vs where vs: "load_intent ck w = Inr i" "validated_intent_paths ck i w = Inr vs" "plan_ok vs"
    "vs \<noteq> []" "map vt_intent vs = intent_targets i" "\<forall>v\<in>set vs. recoverable H v w"
    using assms(1) by (rule in_flight_plan)
  obtain rec act where act: "run_mover H ck m n l i = with_durable_intent ck l rec i act"
    "act = (if forward m then apply_validated H n l else rollback_validated H n l)"
    by (cases m)
      (auto simp: apply_intent_def complete_recovery_def rollback_intent_def rollback_recovery_def forward_def)
  let ?e = "if rec then None else Some (intent_nonce i)"
  let ?s = "session_of H n l ?e vs"
  have run: "j = i \<and> act ?e vs w = (Inr (), w')"
    using assms(3) vs(1,2) unfolding act(1)
    by (auto simp: with_durable_intent_def Let_def and_then_def lift_def check_def ret_def fail_def
        split: sum.splits prod.splits if_splits)
  then show "j = i" by simp
  have inv: "session_inv ?s w" using vs assms(2) by (simp add: session_inv_def session_of_def)
  have it: "set vs \<subseteq> session_items ?s" "set (rev vs) \<subseteq> session_items ?s"
    by (simp_all add: session_items_def session_of_def)
  have dist: "distinct vs" "distinct (rev vs)" using plan_distinct [OF vs(3)] by simp_all
  have "\<forall>v\<in>set vs. if forward m then at_postimage H v w' else at_preimage H v w'"
  proof (cases "forward m")
    case True
    then have "and_then (lift (verify_lock l ?e)) (\<lambda>_. for_each (apply_step ?s) vs) w = (Inr (), w')"
      using run act(2) apply_validated_eq [OF vs(6)] by metis
    then have "for_each (apply_step ?s) vs w = (Inr (), w')"
      by (auto simp: and_then_def lift_def split: sum.splits)
    then show ?thesis
      using applying.run_finishes [OF it(1) dist(1) inv] True by (simp add: session_of_def)
  next
    case False
    then have "and_then (lift (verify_lock l ?e)) (\<lambda>_. for_each (rollback_step ?s) (rev vs)) w = (Inr (), w')"
      using run act(2) rollback_validated_eq [OF vs(6)] by metis
    then have "for_each (rollback_step ?s) (rev vs) w = (Inr (), w')"
      by (auto simp: and_then_def lift_def split: sum.splits)
    then show ?thesis
      using rolling_back.run_finishes [OF it(2) dist(2) inv] False by (simp add: session_of_def)
  qed
  then show "\<forall>t\<in>set (intent_targets i). if forward m then postimage_holds H w' t else preimage_holds H w' t"
    using plan_static [OF vs(3)] at_postimage_holds at_preimage_holds unfolding vs(5) [symmetric] by auto
qed

section \<open>Finalising\<close>

lemma spares_remove_dirs:
  assumes "validated_intent_paths ck i w = Inr vs"
  shows "spares (\<lambda>p. outside_state p \<or> p = intent_path) (for_each remove_owned_directory (remdups (map vt_dir vs)))"
proof (intro spares_for_each spares_remove_directory)
  fix d p
  assume "d \<in> set (remdups (map vt_dir vs))" "prefix d p"
  then obtain x q where "p = transactions_root @ x # q"
    using validated_layout(1) [OF assms] by (auto simp: layout_def vt_static_def prefix_def)
  then show "\<not> (outside_state p \<or> p = intent_path)"
    by (auto simp: outside_state_def transactions_root_def staging_root_def intent_path_def)
qed

lemma spares_finalize: "spares outside_state (finalize_with ck l b tid ready)"
proof -
  have "spares outside_state (remove_intent_and_staging vs)" if "validated_intent_paths ck i w = Inr vs" for i w vs
    unfolding remove_intent_and_staging_def
  proof (intro spares_and_then spares_basic spares_sys_call)
    show "spares outside_state (\<lambda>w. if is_file w intent_path then (Inr (), remove_file intent_path w) else (Inl Os_error, w))"
      by (auto simp: spares_def remove_file_def no_edits_def split: if_splits)
    show "spares outside_state (for_each remove_owned_directory (remdups (map vt_dir vs)))"
      by (rule spares_weaken [OF spares_remove_dirs [OF that]]) simp
  qed
  then show ?thesis
    unfolding finalize_with_def
    by (intro spares_and_then spares_basic spares_lift spares_for_each) blast+
qed

lemma finalize_removes:
  assumes "finalize_with ck l b tid ready w = (Inr u, w')" "no_edits w"
  shows "nodes w' intent_path = None"
proof -
  obtain i vs where vs: "validated_intent_paths ck i w = Inr vs"
    and run: "remove_intent_and_staging vs w = (Inr (), w')"
    using assms(1) by (auto simp: finalize_with_def return_simps)
  obtain x v where x: "next_event w = (Inr x, v)"
    and rest: "for_each remove_owned_directory (remdups (map vt_dir vs)) (remove_file intent_path v) = (Inr (), w')"
    using run by (auto simp: remove_intent_and_staging_def sys_call_def return_simps split: if_splits)
  have "no_edits (remove_file intent_path v)"
    using next_event_frame [OF x assms(2)] frame_no_edits [OF _ assms(2)]
    by (auto simp: remove_file_def no_edits_def)
  then show ?thesis
    using sparesD(2) [OF spares_remove_dirs [OF vs] _ rest, of intent_path] by (simp add: remove_file_def)
qed

section \<open>Preparing\<close>

lemma spares_prepare_target: "spares outside_state (prepare_target H (transactions_root @ rest) k r)"
  unfolding prepare_target_def copy_optional_def backup_file_def stage_file_def
  by (intro spares_intros) (auto intro!: spares_intros split: option.splits target_kind.splits)

fun staged_strings :: "staged_op \<Rightarrow> string list" where
  "staged_strings (Staged_write t c) = [t]"
| "staged_strings (Staged_move s d) = [s, d]"
| "staged_strings (Staged_delete t) = [t]"

text \<open>No operation addresses the ledger or would create a nested context.\<close>

definition ops_clear :: "staged_op list \<Rightarrow> bool" where
  "ops_clear ops \<longleftrightarrow>
     (\<forall>op\<in>set ops. \<forall>s\<in>set (staged_strings op). \<forall>p. portable_parts s = Inr p \<longrightarrow>
        unmarked p \<and> p \<noteq> ledger_file)"

definition path_clear :: "fpath \<Rightarrow> bool" where
  "path_clear p \<longleftrightarrow> outside_state p \<and> path_of (as_posix p) = p \<and> unmarked p \<and> p \<noteq> ledger_file"

definition resolved_clear :: "world \<Rightarrow> resolved_op \<Rightarrow> bool" where
  "resolved_clear w r \<longleftrightarrow>
     path_clear (ro_path r) \<and> ro_target r = as_posix (ro_path r)
     \<and> ro_destination r = map_option as_posix (ro_destination_path r)
     \<and> (\<forall>d. ro_destination_path r = Some d \<longrightarrow> path_clear d \<and> nodes w d = None)
     \<and> (ro_kind r = MOVE \<longleftrightarrow> ro_destination_path r \<noteq> None)"

lemma resolve_clear:
  assumes "resolve_target s w = Inr p" "\<And>q. portable_parts s = Inr q \<Longrightarrow> unmarked q \<and> q \<noteq> ledger_file"
  shows "path_clear p"
  using assms resolve_target_outside [OF assms(1)] resolve_target_parts [OF assms(1)]
  by (auto simp: path_clear_def path_of_def split_posix)

lemma resolve_operation_clear:
  assumes "resolve_operation ck keys op w = Inr (r, keys')" "ops_clear [op]"
  shows "resolved_clear w r"
  using assms
  by (cases op) (auto simp: result_simps resolved_clear_def ops_clear_def path_exists_def
      intro!: resolve_clear)

lemma resolve_operations_clear:
  assumes "resolve_operations_from ck keys ops w = Inr rs" "ops_clear ops"
  shows "\<forall>r\<in>set rs. resolved_clear w r"
  using assms
proof (induction ops arbitrary: keys rs)
  case (Cons op ops)
  then obtain r keys' rs' where r: "resolve_operation ck keys op w = Inr (r, keys')"
    "resolve_operations_from ck keys' ops w = Inr rs'" "rs = r # rs'"
    by (auto simp: result_simps)
  have "ops_clear [op]" "ops_clear ops" using Cons.prems(2) by (simp_all add: ops_clear_def)
  then show ?case using resolve_operation_clear [OF r(1)] Cons.IH [OF r(2)] r(3) by simp
qed simp

text \<open>The entry of the intent that one operation yields.\<close>

definition entry_for :: "(content \<Rightarrow> hash) \<Rightarrow> world \<Rightarrow> resolved_op \<Rightarrow> intent_target \<Rightarrow> bool" where
  "entry_for H w r t \<longleftrightarrow>
     it_target t = ro_target r \<and> it_kind t = ro_kind r \<and> it_destination t = ro_destination r
     \<and> it_preimage_hash t = hash_at H w (ro_path r)"


lemma copy_optional_returns:
  assumes "copy_optional H src dst w = (Inr pre, w')"
  shows "pre = hash_at H w src"
  using assms
  by (auto simp: copy_optional_def return_simps read_optional_def result_simps hash_at_def
      split: option.splits node.splits)

lemma prepare_target_entry:
  assumes "prepare_target H d k r w = (Inr t, w')"
  shows "entry_for H w r t"
  using assms
  by (auto simp: prepare_target_def return_simps entry_for_def split: prod.splits dest!: copy_optional_returns)

lemma prepare_targets_entries:
  assumes "prepare_targets H (transactions_root @ rest) k rs w = (Inr ts, w')" "no_edits w"
    and "\<forall>r\<in>set rs. outside_state (ro_path r)"
  shows "list_all2 (entry_for H w) rs ts"
  using assms
proof (induction rs arbitrary: k w ts)
  case (Cons r rs)
  then obtain t v ts' where t: "prepare_target H (transactions_root @ rest) k r w = (Inr t, v)"
    "prepare_targets H (transactions_root @ rest) (Suc k) rs v = (Inr ts', w')" "ts = t # ts'"
    by (auto simp: return_simps)
  have v: "no_edits v" "\<And>p. outside_state p \<Longrightarrow> nodes v p = nodes w p"
    using sparesD [OF spares_prepare_target Cons.prems(2) t(1)] by auto
  have "list_all2 (entry_for H v) rs ts'" using Cons.IH [OF t(2) v(1)] Cons.prems(3) by simp
  moreover have "hash_at H v (ro_path x) = hash_at H w (ro_path x)" if "x \<in> set rs" for x
    using v(2) Cons.prems(3) that by (simp add: hash_at_def)
  ultimately have "list_all2 (entry_for H w) rs ts'"
    by (auto simp: entry_for_def elim!: list.rel_mono_strong)
  then show ?case using prepare_target_entry [OF t(1)] t(3) by simp
qed (simp add: return_simps)

text \<open>What a returned intent says about the state it was prepared in.\<close>

definition intent_clear :: "intent_record \<Rightarrow> bool" where
  "intent_clear i \<longleftrightarrow> marker_free i \<and> ledger_file \<notin> intent_paths i"

lemma entry_facts:
  assumes "entry_for H w r t" "resolved_clear w r"
  shows "preimage_holds H w t" "\<forall>s\<in>set (target_strings t). path_clear (path_of s)"
proof -
  show "preimage_holds H w t"
    using assms by (auto simp: entry_for_def resolved_clear_def preimage_holds_def path_clear_def
        hash_opt_at_def hash_at_def)
  show "\<forall>s\<in>set (target_strings t). path_clear (path_of s)"
    using assms by (auto simp: entry_for_def resolved_clear_def target_strings_def path_clear_def
        split: option.splits)
qed

lemma prepare_returns:
  assumes run: "prepare H ck n l tid nonce ops w = (Inr i, w')" and w: "no_edits w" "ops_clear ops"
  shows "no_edits w'" "\<And>p. outside_state p \<Longrightarrow> nodes w' p = nodes w p"
    and "intent_transaction_id i = tid" "intent_nonce i = nonce" "intent_clear i"
    and "\<forall>t\<in>set (intent_targets i). preimage_holds H w t"
proof -
  show "no_edits w'" "\<And>p. outside_state p \<Longrightarrow> nodes w' p = nodes w p"
    using sparesD [OF spares_prepare w(1) run] by auto
  obtain u rs token v rest where dirs: "ensure_runtime_directories w = (Inr (), u)"
    and rs: "resolve_operations ck ops u = Inr rs"
    and tok: "next_token u = (Inr token, v)"
    and main: "prepare_in H n l tid nonce rs (transactions_root @ rest) v = (Inr i, w')"
    using run by (auto simp: prepare_def return_simps dest!: transaction_dir_below)
  have u: "no_edits u" "\<And>p. outside_state p \<Longrightarrow> nodes u p = nodes w p"
    using sparesD [OF spares_runtime_directories w(1) dirs] by auto
  have v: "no_edits v" "nodes v = nodes u"
    using u(1) tok by (auto simp: next_token_def no_edits_def split: list.splits)
  obtain x ts z where mk: "make_dir (transactions_root @ rest) v = (Inr (), x)"
    and ts: "prepare_targets H (transactions_root @ rest) 0 rs x = (Inr ts, z)"
    and i: "i = \<lparr>intent_schema_version = 1, intent_transaction_id = tid, intent_nonce = nonce,
        intent_targets = ts\<rparr>"
    using main by (auto simp: prepare_in_def return_simps Let_def)
  show "intent_transaction_id i = tid" "intent_nonce i = nonce" using i by simp_all
  have x: "no_edits x" "\<And>p. outside_state p \<Longrightarrow> nodes x p = nodes v p"
    using sparesD [OF spares_make_dir(1) v(1) mk, of outside_state] by auto
  have clear: "\<forall>r\<in>set rs. resolved_clear u r"
    using resolve_operations_clear [OF rs [unfolded resolve_operations_def] w(2)] .
  then have "list_all2 (entry_for H x) rs ts"
    using prepare_targets_entries [OF ts x(1)] by (simp add: resolved_clear_def path_clear_def)
  then have entries: "\<forall>t\<in>set ts. \<exists>r\<in>set rs. entry_for H x r t"
    by (metis list_all2_conv_all_nth in_set_conv_nth nth_mem)
  have same: "nodes x p = nodes w p" if "outside_state p" for p
    using x(2) v(2) u(2) that by simp
  have "preimage_holds H w t \<and> (\<forall>s\<in>set (target_strings t). path_clear (path_of s))"
    if t: "t \<in> set ts" for t
  proof -
    obtain r where r: "r \<in> set rs" "entry_for H x r t" using entries t by blast
    have rc: "resolved_clear u r" using clear r(1) by blast
    have "outside_state (ro_path r)" using rc by (simp add: resolved_clear_def path_clear_def)
    then have "entry_for H w r t" using r(2) same by (simp add: entry_for_def hash_at_def)
    moreover have "nodes u d = nodes w d" if "path_clear d" for d
      using u(2) that by (simp add: path_clear_def)
    then have "resolved_clear w r" using rc unfolding resolved_clear_def by metis
    ultimately show ?thesis using entry_facts by blast
  qed
  then show "intent_clear i" "\<forall>t\<in>set (intent_targets i). preimage_holds H w t"
    by (force simp: intent_clear_def i marker_free_def intent_paths_def path_clear_def)+
qed

section \<open>Appending beside an intent\<close>

text \<open>The directories above the ledger and those of the staging area.\<close>

definition meta_dirs :: "world \<Rightarrow> bool" where
  "meta_dirs w \<longleftrightarrow> nodes w [''99_meta''] = Some Dir \<and> nodes w [''99_meta'', ''audit''] = Some Dir"

definition runtime_dirs :: "world \<Rightarrow> bool" where
  "runtime_dirs w \<longleftrightarrow>
     nodes w [''98_state''] = Some Dir \<and> nodes w staging_root = Some Dir \<and> nodes w transactions_root = Some Dir"

lemma runtime_directories_exist:
  assumes "runtime_dirs w" "ensure_runtime_directories w = (r, w')"
  shows "w' = w"
  using assms
  by (auto simp: runtime_dirs_def ensure_runtime_directories_def ensure_runtime_directory_def
      make_dir_exist_ok_def and_then_def lift_def ret_def split: sum.splits)

lemma parent_directories_exist:
  assumes "meta_dirs w" "ensure_target_parent_directories l expected ledger_file w = (r, w')"
  shows "w' = w"
proof -
  have "map (\<lambda>k. take k ledger_file) [1..<length ledger_file] = [[''99_meta''], [''99_meta'', ''audit'']]"
    by (simp add: ledger_file_def upt_rec)
  then show ?thesis
    using assms by (auto simp: meta_dirs_def ensure_target_parent_directories_def ensure_target_parent_def
        path_exists_def and_then_def lift_def ret_def split: sum.splits)
qed

definition append_temp :: "fpath set" where
  "append_temp = {staging_root @ [x @ ''.stage''] | x. True}"

definition frames :: "fpath set \<Rightarrow> 'a action \<Rightarrow> bool" where
  "frames P m \<longleftrightarrow> (\<forall>w r w'. no_edits w \<longrightarrow> m w = (r, w') \<longrightarrow> frame P w w')"

lemma framesD: "frames P m \<Longrightarrow> no_edits w \<Longrightarrow> m w = (r, w') \<Longrightarrow> frame P w w'"
  by (simp add: frames_def)

lemma frames_and_then:
  assumes "frames P m" "\<And>x. frames P (k x)"
  shows "frames P (and_then m k)"
  unfolding frames_def
proof (intro allI impI)
  fix w r w'
  assume w: "no_edits w" "and_then m k w = (r, w')"
  from w(2) show "frame P w w'"
  proof (cases rule: and_then_cases)
    case (fails e)
    then show ?thesis using framesD [OF assms(1) w(1)] by auto
  next
    case (passes x v)
    have v: "frame P w v" using framesD [OF assms(1) w(1) passes(1)] .
    show ?thesis
      using frame_trans [OF v] framesD [OF assms(2) frame_no_edits [OF v w(1)] passes(2)] by blast
  qed
qed

lemma frames_basic:
  "frames P (ret x)" "frames P (fail e)" "frames P (lift f)" "frames P (check b e)" "frames P next_token"
  by (auto simp: frames_def ret_def fail_def lift_def check_def next_token_def frame_def same_shape_def
      is_file_def path_exists_def split: list.splits)

lemma frames_finally:
  assumes "frames P m" "frames P c"
  shows "frames P (finally_do m c)"
  unfolding frames_def
proof (intro allI impI)
  fix w r w'
  assume w: "no_edits w" "finally_do m c w = (r, w')"
  obtain q v where v: "m w = (q, v)" by fastforce
  have f: "frame P w v" by (rule framesD [OF assms(1) w(1) v])
  have "w' = v \<or> (\<exists>s. c v = (s, w'))"
    using w(2) v by (auto simp: finally_do_def split: sum.splits prod.splits exn.splits)
  then show "frame P w w'"
    using f frame_trans [OF f] framesD [OF assms(2) frame_no_edits [OF f w(1)]] by blast
qed

lemma frames_calls:
  assumes "plain_path p"
  shows "frames {p} (write_fsynced ex p c)" "frames {p} (unlink_if_present p)"
    and "plain_path q \<Longrightarrow> frames {p, q} (replace_retry n before p q)"
proof -
  show "frames {p} (write_fsynced ex p c)"
    using write_fsynced_cases(1) assms by (auto simp: frames_def)
  show "frames {p} (unlink_if_present p)"
    using unlink_if_present_frame assms by (fastforce simp: frames_def)
  show "frames {p, q} (replace_retry n before p q)" if q: "plain_path q"
    unfolding frames_def
  proof (intro allI impI)
    fix w r w'
    assume w: "no_edits w" "replace_retry n before p q w = (r, w')"
    note o = replace_retry_outcome [OF w(2,1)]
    show "frame {p, q} w w'"
    proof (cases r)
      case (Inl e)
      then show ?thesis using o frame_mono [of "{}"] by simp
    next
      case (Inr u)
      then obtain v where v: "frame {} w v" "os_replace p q v = (Inr (), w')" using o by auto
      show ?thesis
        using frame_trans [OF frame_mono [OF v(1), of "{p, q}"] os_replace_frame [OF v(2) assms q]] by simp
    qed
  qed
qed

lemma frames_mono: "frames P m \<Longrightarrow> P \<subseteq> Q \<Longrightarrow> frames Q m"
  unfolding frames_def using frame_mono by blast

lemma plain_ledger: "plain_path ledger_file"
  by (auto simp: plain_path_def ledger_file_def staging_root_def marker_def)

lemma publish_line_frame:
  "frames (insert ledger_file append_temp) (publish_line H n l expected ledger_file old th line)"
  (is "frames ?P _")
  unfolding publish_line_def Let_def
proof (intro frames_and_then frames_basic frames_finally)
  fix token :: string
  let ?t = "staging_root @ [''append-'' @ token @ ''.stage'']"
  have t: "plain_path ?t" using plain_stage [of "''append-'' @ token"] by simp
  have "?t \<in> append_temp" unfolding append_temp_def by (auto intro: exI [of _ "''append-'' @ token"])
  then have sub: "{?t} \<subseteq> ?P" "{?t, ledger_file} \<subseteq> ?P" by auto
  show "frames ?P (write_fsynced True ?t (Bytes (old @ line)))"
    by (rule frames_mono [OF frames_calls(1) [OF t] sub(1)])
  show "frames ?P (unlink_if_present ?t)"
    by (rule frames_mono [OF frames_calls(2) [OF t] sub(1)])
  show "frames ?P (replace_retry n before ?t ledger_file)" for before
    by (rule frames_mono [OF frames_calls(3) [OF t plain_ledger] sub(2)])
qed

lemma append_line_runs:
  assumes "meta_dirs w" "no_edits w" "append_line H ck enc n l expected ledger_file line w = (r, w')"
  obtains (runs) v where "no_edits v" "\<And>p. outside_state p \<Longrightarrow> nodes v p = nodes w p" "runtime_dirs w \<Longrightarrow> v = w"
    "frame (insert ledger_file append_temp) v w'"
proof -
  have stay: thesis if "w' = w" using that assms(2) by (intro runs [of w]) auto
  show thesis
    using assms(3) unfolding append_line_def
  proof (cases rule: and_then_lift_cases)
    case (passes x)
    from passes(2) show thesis
    proof (cases rule: and_then_lift_cases)
      case (passes x)
      from passes(2) show thesis
      proof (cases rule: and_then_cases)
        case (fails e)
        then show thesis
          using sparesD [OF spares_runtime_directories assms(2) fails(1)] runtime_directories_exist [OF _ fails(1)]
          by (intro runs [of w']) auto
      next
        case dirs: (passes x v)
        note v = sparesD [OF spares_runtime_directories assms(2) dirs(1)]
        have vw: "v = w" if "runtime_dirs w" using runtime_directories_exist [OF that dirs(1)] .
        have mv: "meta_dirs v"
          using assms(1) v(2) by (simp add: meta_dirs_def outside_state_def)
        from dirs(2) have "frame (insert ledger_file append_temp) v w'"
        proof (cases rule: and_then_cases)
          case (fails e)
          then show ?thesis using parent_directories_exist [OF mv fails(1)] by simp
        next
          case (passes y u)
          have u: "u = v" using parent_directories_exist [OF mv passes(1)] .
          from passes(2) [unfolded u] show ?thesis
            by (elim and_then_lift_cases)
              (auto intro: framesD [OF publish_line_frame v(1)])
        qed
        then show thesis using runs v vw by blast
      qed
    qed (use stay in simp)
  qed (use stay in simp)
qed

lemma write_event_runs:
  assumes "meta_dirs w" "no_edits w" "write_event H E n l e w = (r, w')"
  obtains (runs) v where "no_edits v" "\<And>p. outside_state p \<Longrightarrow> nodes v p = nodes w p" "runtime_dirs w \<Longrightarrow> v = w"
    "frame (insert ledger_file append_temp) v w'"
proof -
  have stay: thesis if "w' = w" using that assms(2) by (intro runs [of w]) auto
  show thesis
    using assms(3) unfolding atomic_append_line_bytes_def
  proof (cases rule: and_then_check_cases)
    case passes
    from passes(2) show thesis
    proof (cases rule: and_then_check_cases)
      case passes
      from passes(2) show thesis
      proof (cases rule: and_then_lift_cases)
        case (passes p)
        then have "p = ledger_file"
          using resolve_target_parts ledger_path_parts(1) by (metis sum.inject(2))
        then show thesis using append_line_runs [OF assms(1,2)] passes(2) runs by metis
      qed (use stay in simp)
    qed (use stay in simp)
  qed (use stay in simp)
qed

lemma append_event_runs:
  assumes "codec_ok E" "ledger_holds E ctx w es" "meta_dirs w" "no_edits w"
    "append_event H E ctx n l e w = (r, w')"
  obtains (runs) v where "no_edits v" "\<And>p. outside_state p \<Longrightarrow> nodes v p = nodes w p" "runtime_dirs w \<Longrightarrow> v = w"
    "frame (insert ledger_file append_temp) v w'"
proof -
  have rd: "read_verified_events E ctx w = Inr es" using read_verified_iff assms(1,2) by blast
  show thesis
    using assms(5) rd
  proof (cases rule: append_event_cases)
    case unchanged
    then show thesis using assms(4) by (intro runs [of w]) auto
  next
    case written
    then obtain q where "write_event H E n l e w = (q, w')" using commit_cases by blast
    then show thesis using write_event_runs [OF assms(3,4)] runs by metis
  qed
qed

lemma not_temp: "outside_state p \<Longrightarrow> p \<notin> append_temp"
  by (auto simp: append_temp_def)

text \<open>What an append does besides the ledger file.\<close>

lemma append_event_spares:
  assumes "codec_ok E" "ledger_holds E ctx w es" "meta_dirs w" "no_edits w"
    "append_event H E ctx n l e w = (r, w')"
  shows "outside_state p \<Longrightarrow> p \<noteq> ledger_file \<Longrightarrow> nodes w' p = nodes w p"
    and "meta_dirs w'" and "runtime_dirs w \<Longrightarrow> frame (insert ledger_file append_temp) w w'"
proof -
  obtain v where v: "\<And>p. outside_state p \<Longrightarrow> nodes v p = nodes w p" "runtime_dirs w \<Longrightarrow> v = w"
    "frame (insert ledger_file append_temp) v w'"
    using append_event_runs [OF assms] by metis
  show same: "nodes w' p = nodes w p" if "outside_state p" "p \<noteq> ledger_file" for p
    using frame_nodes [OF v(3), of p] not_temp [OF that(1)] v(1) that by simp
  show "meta_dirs w'"
    using assms(3) by (simp add: meta_dirs_def same outside_state_def ledger_file_def)
  show "frame (insert ledger_file append_temp) w w'" if "runtime_dirs w" using v(2,3) that by simp
qed

text \<open>An intent in flight stays in flight.\<close>

lemma in_flight_dirs:
  assumes "in_flight H ck i w"
  shows "runtime_dirs w"
proof -
  obtain vs where vs: "plan_ok vs" "vs \<noteq> []" "\<forall>v\<in>set vs. recoverable H v w"
    using assms by (rule in_flight_plan)
  then obtain v where v: "v \<in> set vs" by (cases vs) auto
  have st: "vt_static v" and f: "fields_ok v" using vs(1) v by (auto simp: plan_ok_def layout_def)
  have "vt_staged v \<noteq> None \<or> vt_backup v \<noteq> None"
    using st f by (cases "it_kind (vt_intent v)")
      (auto simp: vt_static_def fields_ok_def validate_intent_target_fields_def split: if_splits)
  then obtain p where p: "vt_staged v = Some p \<or> vt_backup v = Some p" by auto
  then have pp: "plain_parents w p"
    using accessible_parents(5,6) vs(3) v by (auto simp: recoverable_def)
  obtain x where "p = vt_dir v @ [x]" using p st by (auto simp: vt_static_def)
  moreover obtain d where "vt_dir v = transactions_root @ [d]" using st by (auto simp: vt_static_def)
  ultimately have q: "p = [''98_state'', ''staging'', ''transactions'', d, x]"
    by (simp add: transactions_root_def staging_root_def)
  have k: "nodes w (take k p) = Some Dir" if "k \<in> {1, 2, 3}" for k
    using pp that unfolding plain_parents_def q by auto
  show ?thesis
    using k [of 1] k [of 2] k [of 3]
    by (simp add: q runtime_dirs_def staging_root_def transactions_root_def)
qed

lemma append_writes_apart:
  assumes "plan_ok vs" "v \<in> set vs" "ledger_file \<notin> set (paths_of v)"
  shows "insert ledger_file append_temp \<inter> reads v = {}"
proof -
  have st: "vt_static v" using assms(1,2) plan_static by blast
  have "p \<notin> append_temp \<and> p \<noteq> ledger_file" if p: "p \<in> reads v" for p
  proof (cases "p \<in> set (paths_of v)")
    case True
    then have "outside_state p" using st by (auto simp: vt_static_def)
    then show ?thesis using not_temp assms(3) True by auto
  next
    case False
    then have "p \<in> set (assets_of v)" using p by (simp add: reads_def)
    then obtain x where "p = vt_dir v @ [x]" using static_assets [OF st] by blast
    moreover obtain d where "vt_dir v = transactions_root @ [d]" using st by (auto simp: vt_static_def)
    ultimately show ?thesis
      by (auto simp: append_temp_def ledger_file_def transactions_root_def staging_root_def)
  qed
  then show ?thesis by auto
qed

lemma in_flight_append:
  assumes "in_flight H ck i w" "ledger_file \<notin> intent_paths i"
    and fr: "frame (insert ledger_file append_temp) w w'"
  shows "in_flight H ck i w'"
proof -
  obtain vs where vs: "load_intent ck w = Inr i" "validated_intent_paths ck i w = Inr vs" "plan_ok vs"
    "map vt_intent vs = intent_targets i" "\<forall>v\<in>set vs. recoverable H v w"
    using assms(1) by (rule in_flight_plan)
  have "insert ledger_file append_temp \<inter> reads v = {}" if "v \<in> set vs" for v
    using append_writes_apart [OF vs(3) that] assms(2) that plan_paths [OF vs(3,4)] by auto
  then have "\<forall>v\<in>set vs. recoverable H v w'" using vs(5) frame_reads(1) [OF fr] by auto
  moreover have "intent_path \<notin> insert ledger_file append_temp"
    by (auto simp: intent_path_def append_temp_def ledger_file_def staging_root_def dest: arg_cong [of _ _ last])
  then have "nodes w' intent_path = nodes w intent_path" by (rule frame_nodes [OF fr])
  then have "load_intent ck w' = Inr i" "validated_intent_paths ck i w' = Inr vs"
    using vs(1,2) shape_load [OF frame_shape [OF fr]] shape_validated [OF frame_shape [OF fr]] by simp_all
  ultimately show ?thesis using in_flight_intro assms(1) by (simp add: in_flight_def)
qed

text \<open>A move keeps the ledger, and an append keeps the images.\<close>

lemma ledger_same:
  assumes "ledger_holds E ctx w es" "nodes w' ledger_file = nodes w ledger_file"
    and "nodes w' [''99_meta'', ''context.yaml''] = nodes w [''99_meta'', ''context.yaml'']"
    and "nodes w' [''99_meta'', ''audit'', ''context.yaml''] = nodes w [''99_meta'', ''audit'', ''context.yaml'']"
  shows "ledger_holds E ctx w' es"
proof -
  have d: "nodes w ledger_file \<noteq> Some Dir" "nodes w' ledger_file \<noteq> Some Dir"
    using assms(1,2) by (auto simp: ledger_holds_def split: if_splits)
  have "nested_context_free w' ledger_file = nested_context_free w ledger_file"
    unfolding nested_free_ledger [OF d(1)] nested_free_ledger [OF d(2)] is_file_def assms(3,4) ..
  then show ?thesis using assms(1,2) by (simp add: ledger_holds_def)
qed

lemma ledger_marker_free:
  assumes "intent_clear i"
  shows "[''99_meta'', ''context.yaml''] \<notin> intent_paths i" "[''99_meta'', ''audit'', ''context.yaml''] \<notin> intent_paths i"
proof -
  have "\<forall>p\<in>intent_paths i. unmarked p"
    using assms by (auto simp: intent_clear_def marker_free_def intent_paths_def)
  then show "[''99_meta'', ''context.yaml''] \<notin> intent_paths i"
    "[''99_meta'', ''audit'', ''context.yaml''] \<notin> intent_paths i"
    by (auto simp: unmarked_def dest!: bspec)
qed

lemma ledger_elsewhere:
  assumes "ledger_holds E ctx w es" "intent_clear i" "elsewhere_same i w w'"
  shows "ledger_holds E ctx w' es"
  using assms ledger_marker_free [OF assms(2)]
  by (intro ledger_same [OF assms(1)])
    (auto simp: elsewhere_same_def intent_clear_def ledger_path_parts(2) outside_state_def ledger_file_def)

lemma in_flight_no_dir:
  assumes "in_flight H ck i w" "p \<in> intent_paths i"
  shows "nodes w p \<noteq> Some Dir"
proof -
  obtain vs where vs: "plan_ok vs" "map vt_intent vs = intent_targets i" "\<forall>v\<in>set vs. recoverable H v w"
    using assms(1) by (rule in_flight_plan)
  then obtain v where v: "v \<in> set vs" "p \<in> set (paths_of v)" using assms(2) plan_paths by auto
  then have "accessible v w" using vs(3) by (simp add: recoverable_def)
  then show ?thesis using v(2) by (auto simp: accessible_def no_dir_def paths_of_def set_opt_list)
qed

lemma meta_elsewhere:
  assumes "meta_dirs w" "in_flight H ck i w" "elsewhere_same i w w'"
  shows "meta_dirs w'"
proof -
  have "nodes w' p = nodes w p" if "nodes w p = Some Dir" "outside_state p" for p
    using in_flight_no_dir [OF assms(2)] assms(3) that by (auto simp: elsewhere_same_def)
  then show ?thesis using assms(1) by (simp add: meta_dirs_def outside_state_def)
qed

lemma in_flight_fields:
  assumes "in_flight H ck i w"
  shows "\<forall>t\<in>set (intent_targets i). validate_intent_target_fields t = Inr t"
  using assms by (rule in_flight_plan) (use load_intent_fields(2) in blast)

end
