(* ===== verification/EngineStages.thy ===== *)
theory EngineStages
  imports EngineFrame
begin

text \<open>
  An abstract transaction: what the operations of an audit event say about the state before and
  after, and the four stages a transaction can be in. Then how the steps of the protocol lead from
  one stage to another, up to the settling of a prepared intent.
\<close>

section \<open>The audit record as a specification\<close>

fun op_before :: "(content \<Rightarrow> hash) \<Rightarrow> world \<Rightarrow> audit_operation \<Rightarrow> bool" where
  "op_before H w (Audit_create t h) \<longleftrightarrow> hash_at H w (path_of t) = None"
| "op_before H w (Audit_update t b h) \<longleftrightarrow> hash_at H w (path_of t) = Some b"
| "op_before H w (Audit_move s d h) \<longleftrightarrow>
     hash_at H w (path_of s) = Some h \<and> hash_at H w (path_of d) = None"
| "op_before H w (Audit_delete_generated t b) \<longleftrightarrow> hash_at H w (path_of t) = Some b"

fun op_after :: "(content \<Rightarrow> hash) \<Rightarrow> world \<Rightarrow> audit_operation \<Rightarrow> bool" where
  "op_after H w (Audit_create t h) \<longleftrightarrow> hash_at H w (path_of t) = Some h"
| "op_after H w (Audit_update t b h) \<longleftrightarrow> hash_at H w (path_of t) = Some h"
| "op_after H w (Audit_move s d h) \<longleftrightarrow>
     hash_at H w (path_of s) = None \<and> hash_at H w (path_of d) = Some h"
| "op_after H w (Audit_delete_generated t b) \<longleftrightarrow> hash_at H w (path_of t) = None"

definition ops_paths :: "audit_operation list \<Rightarrow> fpath set" where
  "ops_paths ops = path_of ` set (audit_applied_targets ops)"

lemma checked_operation_Inr: "checked_operation L a = Inr b \<Longrightarrow> b = a"
  by (auto simp: checked_operation_def split: if_splits)

lemma intent_operation_facts:
  assumes "intent_audit_operation L t = Inr a" "validate_intent_target_fields t = Inr t"
  shows "audit_targets a = target_strings t"
    and "preimage_holds H w t \<Longrightarrow> op_before H w a" "postimage_holds H w t \<Longrightarrow> op_after H w a"
  using assms
  by (auto simp: intent_audit_operation_def validate_intent_target_fields_def target_strings_def
      preimage_holds_def postimage_holds_def hash_opt_at_def
      split: target_kind.splits option.splits if_splits dest!: checked_operation_Inr)

lemma map_results_all2: "map_results f xs = Inr ys \<Longrightarrow> list_all2 (\<lambda>x y. f x = Inr y) xs ys"
  by (induction xs arbitrary: ys) (auto simp: result_simps)

lemma intent_operations_facts:
  assumes "intent_audit_operations L i = Inr ops"
    and "\<forall>t\<in>set (intent_targets i). validate_intent_target_fields t = Inr t"
  shows "ops_paths ops = intent_paths i"
    and "\<forall>t\<in>set (intent_targets i). preimage_holds H w t \<Longrightarrow> \<forall>a\<in>set ops. op_before H w a"
    and "\<forall>t\<in>set (intent_targets i). postimage_holds H w t \<Longrightarrow> \<forall>a\<in>set ops. op_after H w a"
proof -
  have all: "list_all2 (\<lambda>t a. t \<in> set (intent_targets i) \<and> intent_audit_operation L t = Inr a)
      (intent_targets i) ops"
    using map_results_all2 [OF assms(1) [unfolded intent_audit_operations_def]]
    by (auto simp: list_all2_conv_all_nth)
  have "concat (map audit_targets os) = concat (map target_strings ts)"
    if "list_all2 (\<lambda>t a. t \<in> set (intent_targets i) \<and> intent_audit_operation L t = Inr a) ts os" for ts os
    using that assms(2) intent_operation_facts(1) by (induction rule: list_all2_induct) auto
  from this [OF all] show "ops_paths ops = intent_paths i"
    by (simp only: ops_paths_def intent_paths_def audit_applied_targets_def set_concat set_map image_UN image_image)
  have origin: "\<exists>t\<in>set (intent_targets i). intent_audit_operation L t = Inr a" if "a \<in> set ops" for a
    using all that unfolding list_all2_conv_all_nth by (metis in_set_conv_nth)
  show "\<forall>a\<in>set ops. op_before H w a" if "\<forall>t\<in>set (intent_targets i). preimage_holds H w t"
    using origin that assms(2) intent_operation_facts(2) by blast
  show "\<forall>a\<in>set ops. op_after H w a" if "\<forall>t\<in>set (intent_targets i). postimage_holds H w t"
    using origin that assms(2) intent_operation_facts(3) by blast
qed

section \<open>Stages of a transaction\<close>

datatype stage = Untouched | In_flight intent_record | Done audit_event | Undone audit_event

definition others_same :: "fpath set \<Rightarrow> world \<Rightarrow> world \<Rightarrow> bool" where
  "others_same S w w' \<longleftrightarrow>
     (\<forall>p. outside_state p \<longrightarrow> p \<noteq> ledger_file \<longrightarrow> p \<notin> S \<longrightarrow> nodes w' p = nodes w p)"

definition hashes_same :: "(content \<Rightarrow> hash) \<Rightarrow> world \<Rightarrow> world \<Rightarrow> bool" where
  "hashes_same H w w' \<longleftrightarrow>
     (\<forall>p. outside_state p \<longrightarrow> p \<noteq> ledger_file \<longrightarrow> hash_at H w' p = hash_at H w p)"

text \<open>\<open>w\<close> is the state in which the transaction \<open>pid\<close> started and \<open>es\<close> the ledger it found.\<close>

fun stage_holds :: "engine_env \<Rightarrow> string \<Rightarrow> world \<Rightarrow> audit_event list \<Rightarrow> stage \<Rightarrow> world \<Rightarrow> bool" where
  "stage_holds E pid w es Untouched w' \<longleftrightarrow>
     ledger_holds (en_ledger E) (en_context E) w' es \<and> others_same {} w w'"
| "stage_holds E pid w es (In_flight i) w' \<longleftrightarrow>
     ledger_holds (en_ledger E) (en_context E) w' es \<and> in_flight (en_hash E) (en_ck E) i w'
     \<and> intent_transaction_id i = pid \<and> intent_clear i
     \<and> (\<forall>t\<in>set (intent_targets i). preimage_holds (en_hash E) w t)
     \<and> others_same (intent_paths i) w w'"
| "stage_holds E pid w es (Done e) w' \<longleftrightarrow>
     ledger_holds (en_ledger E) (en_context E) w' (es @ [e])
     \<and> ev_result e = Committed \<and> ev_proposal_id e = pid
     \<and> (\<forall>a\<in>set (ev_operations e). op_before (en_hash E) w a \<and> op_after (en_hash E) w' a)
     \<and> others_same (ops_paths (ev_operations e)) w w'"
| "stage_holds E pid w es (Undone e) w' \<longleftrightarrow>
     ledger_holds (en_ledger E) (en_context E) w' (es @ [e])
     \<and> ev_result e = Rolled_back \<and> ev_proposal_id e = pid
     \<and> hashes_same (en_hash E) w w' \<and> others_same (ops_paths (ev_operations e)) w w'"

lemma others_trans: "others_same S u v \<Longrightarrow> others_same S v w \<Longrightarrow> others_same S u w"
  by (simp add: others_same_def)

lemma others_hashes: "others_same {} w w' \<Longrightarrow> hashes_same H w w'"
  by (simp add: others_same_def hashes_same_def hash_at_def)

lemma others_mono: "others_same S w w' \<Longrightarrow> S \<subseteq> T \<Longrightarrow> others_same T w w'"
  by (auto simp: others_same_def)

lemma hash_at_same: "nodes v p = nodes u p \<Longrightarrow> hash_at H v p = hash_at H u p"
  by (simp add: hash_at_def)

text \<open>A path of the intent is a canonical path other than the ledger.\<close>

lemma clear_paths:
  assumes "intent_clear i" "t \<in> set (intent_targets i)" "s \<in> set (target_strings t)"
  shows "path_of s \<in> intent_paths i" "path_of s \<noteq> ledger_file"
  using assms by (force simp: intent_clear_def intent_paths_def)+


lemma stage_cong:
  assumes "stage_holds E pid w es s v" "nodes v' = nodes v" "world_context v' = world_context v"
  shows "stage_holds E pid w es s v'"
proof -
  have L: "ledger_holds L ctx v' fs = ledger_holds L ctx v fs" for L ctx fs
    by (simp add: ledger_holds_def nested_context_free_def is_dir_def is_file_def assms(2))
  have h: "hash_at H v' = hash_at H v" for H by (rule ext) (simp add: hash_at_def assms(2))
  have "op_after H v' a = op_after H v a" for H a by (cases a) (simp_all add: h)
  then show ?thesis
    using assms(1) L h restart_in_flight [OF assms(2,3)]
    by (cases s) (auto simp: others_same_def hashes_same_def assms(2))
qed

text \<open>Once the intent no longer counts, only the canonical files matter.\<close>

lemma op_after_cong:
  assumes "\<And>p. p \<in> path_of ` set (audit_targets a) \<Longrightarrow> nodes v' p = nodes v p"
  shows "op_after H v' a = op_after H v a"
  using assms by (cases a) (simp_all add: hash_at_def)

lemma ledger_outside:
  assumes "ledger_holds L ctx v es" "\<And>p. outside_state p \<Longrightarrow> nodes v' p = nodes v p"
  shows "ledger_holds L ctx v' es"
  by (intro ledger_same [OF assms(1)] assms(2)) (simp_all add: outside_state_def ledger_file_def)

definition ops_outside :: "audit_event \<Rightarrow> bool" where
  "ops_outside e \<longleftrightarrow> (\<forall>p\<in>ops_paths (ev_operations e). outside_state p)"

definition settled_stage :: "stage \<Rightarrow> bool" where
  "settled_stage s \<longleftrightarrow>
     (case s of In_flight i \<Rightarrow> False | Done e \<Rightarrow> ops_outside e | _ \<Rightarrow> True)"

lemma stage_outside:
  assumes "stage_holds E pid w es s v" "settled_stage s" "\<And>p. outside_state p \<Longrightarrow> nodes v' p = nodes v p"
  shows "stage_holds E pid w es s v'"
proof -
  have o: "others_same S w v' = others_same S w v" for S by (auto simp: others_same_def assms(3))
  have h: "hashes_same H w v' = hashes_same H w v" for H by (auto simp: hashes_same_def hash_at_def assms(3))
  have a: "op_after H v' x = op_after H v x" if "s = Done e" "x \<in> set (ev_operations e)" for H e x
  proof (rule op_after_cong)
    fix p
    assume "p \<in> path_of ` set (audit_targets x)"
    then have "p \<in> ops_paths (ev_operations e)"
      using that(2) by (auto simp: ops_paths_def audit_applied_targets_def)
    then show "nodes v' p = nodes v p"
      using assms(2,3) that(1) by (auto simp: settled_stage_def ops_outside_def)
  qed
  show ?thesis
    using assms(1,2) ledger_outside [OF _ assms(3)] a
    by (cases s) (auto simp: o h settled_stage_def)
qed

lemma ledger_event_new:
  assumes "ledger_holds L ctx w es" "pid \<notin> ev_proposal_id ` set es" "codec_ok L"
    "ledger_holds L ctx w' es \<or> ledger_holds L ctx w' (es @ [e])"
    "ledger_holds L ctx w' fs" "x \<in> set fs" "ev_proposal_id x = pid"
  shows "ledger_holds L ctx w' (es @ [e])"
proof -
  have "fs = es \<or> ledger_holds L ctx w' (es @ [e])"
    using assms(3,4,5) read_verified_iff [OF assms(3)] by (metis sum.inject(2))
  then show ?thesis using assms(2,6,7) by auto
qed


section \<open>One stage to the next\<close>

text \<open>What holds of the state while an intent is being settled.\<close>

definition under_way :: "engine_env \<Rightarrow> string \<Rightarrow> world \<Rightarrow> audit_event list \<Rightarrow> stage \<Rightarrow> world \<Rightarrow> bool" where
  "under_way E pid w es s v \<longleftrightarrow> stage_holds E pid w es s v \<and> no_edits v \<and> meta_dirs v"

lemma flight_moves:
  assumes u: "under_way E pid w es (In_flight i) v"
    and run: "run_mover (en_hash E) (en_ck E) m n l i v = (r, v')"
  shows "under_way E pid w es (In_flight i) v'"
    and "r = Inr j \<Longrightarrow> \<forall>t\<in>set (intent_targets i).
           if forward m then postimage_holds (en_hash E) v' t else preimage_holds (en_hash E) v' t"
proof -
  have s: "in_flight (en_hash E) (en_ck E) i v" "no_edits v" "meta_dirs v" "intent_clear i"
    "ledger_holds (en_ledger E) (en_context E) v es" "others_same (intent_paths i) w v"
    using u by (simp_all add: under_way_def)
  have k: "in_flight (en_hash E) (en_ck E) i v'" "no_edits v'" "elsewhere_same i v v'"
    using mover_keeps [OF s(1,2) run] by auto
  have "others_same (intent_paths i) v v'" using k(3) by (simp add: others_same_def elsewhere_same_def)
  then have "others_same (intent_paths i) w v'" by (rule others_trans [OF s(6)])
  then show "under_way E pid w es (In_flight i) v'"
    using u k ledger_elsewhere [OF s(5,4) k(3)] meta_elsewhere [OF s(3,1) k(3)]
    by (simp add: under_way_def)
  show "\<forall>t\<in>set (intent_targets i).
      if forward m then postimage_holds (en_hash E) v' t else preimage_holds (en_hash E) v' t"
    if "r = Inr j"
    using mover_arrives(2) [OF s(1,2)] run that by simp
qed

text \<open>The event that settles the transaction.\<close>

definition event_for :: "engine_env \<Rightarrow> string \<Rightarrow> audit_event list \<Rightarrow> audit_event \<Rightarrow> bool" where
  "event_for E pid es e \<longleftrightarrow>
     codec_ok (en_ledger E) \<and> event_ok (en_ledger E) e \<and> ev_proposal_id e = pid
     \<and> pid \<notin> ev_proposal_id ` set es"

lemma appends:
  assumes e: "event_for E pid es e" and h: "ledger_holds (en_ledger E) (en_context E) v es"
    and v: "no_edits v" "meta_dirs v"
    and run: "append_event (en_hash E) (en_ledger E) (en_context E) n l e v = (q, v')"
  shows "no_edits v'" "meta_dirs v'" "others_same {} v v'"
    and "ledger_holds (en_ledger E) (en_context E) v' es \<or> ledger_holds (en_ledger E) (en_context E) v' (es @ [e])"
    and "q = Inr x \<Longrightarrow> x = e \<and> ledger_holds (en_ledger E) (en_context E) v' (es @ [e])"
    and "in_flight (en_hash E) (en_ck E) i v \<Longrightarrow> intent_clear i \<Longrightarrow> in_flight (en_hash E) (en_ck E) i v'"
proof -
  have c: "codec_ok (en_ledger E)" "event_ok (en_ledger E) e" using e by (simp_all add: event_for_def)
  note f = append_event_effect [OF c h v(1) run]
  note s = append_event_spares [OF c(1) h v(2,1) run]
  show "no_edits v'" "meta_dirs v'" using f(1) s(2) by simp_all
  show "others_same {} v v'" using s(1) by (simp add: others_same_def)
  show or: "ledger_holds (en_ledger E) (en_context E) v' es
      \<or> ledger_holds (en_ledger E) (en_context E) v' (es @ [e])" using f(2) .
  show "x = e \<and> ledger_holds (en_ledger E) (en_context E) v' (es @ [e])" if "q = Inr x"
    using f(3) [OF that] ledger_event_new [OF h _ c(1) or] e by (auto simp: event_for_def)
  show "in_flight (en_hash E) (en_ck E) i v'"
    if "in_flight (en_hash E) (en_ck E) i v" "intent_clear i"
    using in_flight_append [OF that(1) _ s(3) [OF in_flight_dirs [OF that(1)]]] that(2)
    by (simp add: intent_clear_def)
qed

lemma sealed_event_facts:
  assumes "sealed_event E e = Inr x"
  shows "event_ok (en_ledger E) x" "ev_proposal_id x = ev_proposal_id e" "ev_result x = ev_result e"
    "ev_operations x = ev_operations e"
  using assms by (auto simp: sealed_event_def seal_event_def split: if_splits)

text \<open>Building and appending the event, under the heartbeat.\<close>

lemma with_heartbeat_cases:
  assumes "with_heartbeat lost k m w = (r, w')"
  obtains (skipped) e where "w' = w" "r = Inl e"
    | (ran) q where "m w = (q, w')" "\<And>x. r = Inr x \<Longrightarrow> q = Inr x"
  using assms
  by (auto simp: with_heartbeat_def and_then_def check_def ret_def fail_def split: prod.splits sum.splits if_splits)

lemma audit_step_cases:
  assumes "audit_step E lost k l made w = (r, w')"
  obtains (skipped) e where "w' = w" "r = Inl e"
    | (ran) e q where "made = Inr e"
        "append_event (en_hash E) (en_ledger E) (en_context E) (en_attempts E) l e w = (q, w')"
        "\<And>x. r = Inr x \<Longrightarrow> x = e \<and> q = Inr e"
  using assms unfolding audit_step_def
proof (cases rule: and_then_cases)
  case (fails e)
  then have "w' = w" by (auto elim!: with_heartbeat_cases simp: lift_def)
  then show thesis using skipped fails by blast
next
  case (passes e v)
  have v: "v = w" "made = Inr e" using passes(1) by (auto elim!: with_heartbeat_cases simp: lift_def)
  from passes(2) show thesis
  proof (cases rule: and_then_cases)
    case (fails x)
    from fails(1) show thesis
      by (cases rule: with_heartbeat_cases) (use v fails skipped ran in auto)
  next
    case (passes appended u)
    have "w' = u" "\<And>x. r = Inr x \<Longrightarrow> x = e \<and> appended = e"
      using passes(2) by (auto simp: and_then_def check_def ret_def fail_def split: if_splits)
    with passes(1) v show thesis
      by (elim with_heartbeat_cases) (use ran skipped in auto)
  qed
qed

text \<open>The tail that all three ways of settling share.\<close>

lemma audit_and_finalize:
  assumes run: "and_then (audit_step E lost k l made) (\<lambda>e.
      and_then (with_heartbeat lost k' (finalize_with ck l b tid ready)) (\<lambda>_. ret e)) v = (r, w')"
    and v: "no_edits v" "meta_dirs v" "ledger_holds (en_ledger E) (en_context E) v es"
    and made: "\<And>e. made = Inr e \<Longrightarrow> event_for E pid es e"
    and before_event: "\<And>v'. ledger_holds (en_ledger E) (en_context E) v' es \<Longrightarrow> others_same {} v v' \<Longrightarrow>
        (\<And>i. in_flight (en_hash E) (en_ck E) i v \<Longrightarrow> intent_clear i \<Longrightarrow>
           in_flight (en_hash E) (en_ck E) i v') \<Longrightarrow> stage_holds E pid w es s v'"
    and after_event: "\<And>e v'. made = Inr e \<Longrightarrow> ledger_holds (en_ledger E) (en_context E) v' (es @ [e]) \<Longrightarrow>
        others_same {} v v' \<Longrightarrow> stage_holds E pid w es (S e) v' \<and> settled_stage (S e)"
  shows "\<exists>s'. stage_holds E pid w es s' w'
     \<and> (\<forall>e. r = Inr e \<longrightarrow> s' = S e \<and> nodes w' intent_path = None)"
  using run
proof (cases rule: and_then_cases)
  case (fails x)
  from fails(1) show ?thesis
  proof (cases rule: audit_step_cases)
    case (skipped e)
    then show ?thesis
      using before_event [OF v(3)] fails(2) by (auto simp: others_same_def)
  next
    case (ran e q)
    note a = appends [OF made [OF ran(1)] v(3,1,2) ran(2)]
    show ?thesis
      using a(4) before_event [OF _ a(3) a(6)] after_event [OF ran(1) _ a(3)] fails(2) by blast
  qed
next
  case (passes e u)
  from passes(1) obtain q where e: "made = Inr e"
    "append_event (en_hash E) (en_ledger E) (en_context E) (en_attempts E) l e v = (Inr e, u)"
    by (cases rule: audit_step_cases) auto
  note a = appends [OF made [OF e(1)] v(3,1,2) e(2)]
  have u: "stage_holds E pid w es (S e) u" "settled_stage (S e)"
    using after_event [OF e(1) _ a(3)] a(5) by auto
  have fin: "stage_holds E pid w es (S e) w' \<and> (x = Inr y \<longrightarrow> nodes w' intent_path = None)"
    if h: "with_heartbeat lost k' (finalize_with ck l b tid ready) u = (x, w')" for x y
    using h
  proof (cases rule: with_heartbeat_cases)
    case (skipped e)
    then show ?thesis using u by simp
  next
    case (ran q)
    show ?thesis
      using stage_outside [OF u] sparesD(2) [OF spares_finalize a(1) ran(1)] ran finalize_removes a(1)
      by metis
  qed
  from passes(2) show ?thesis
  proof (cases rule: and_then_cases)
    case (fails x)
    then show ?thesis using fin [OF fails(1)] by blast
  next
    case (passes x z)
    then have "z = w'" "r = Inr e" by (simp_all add: ret_def)
    then show ?thesis using fin [of "Inr x"] passes(1) by blast
  qed
qed

section \<open>Settling an intent\<close>

lemma images_same:
  assumes "\<forall>t\<in>set (intent_targets i). preimage_holds H w t" "\<forall>t\<in>set (intent_targets i). preimage_holds H v t"
    and "\<forall>t\<in>set (intent_targets i). validate_intent_target_fields t = Inr t"
    and "others_same (intent_paths i) w v"
  shows "hashes_same H w v"
  unfolding hashes_same_def
proof (intro allI impI)
  fix p
  assume p: "outside_state p" "p \<noteq> ledger_file"
  show "hash_at H v p = hash_at H w p"
  proof (cases "p \<in> intent_paths i")
    case False
    then show ?thesis using assms(4) p by (simp add: others_same_def hash_at_def)
  next
    case True
    then obtain t s where t: "t \<in> set (intent_targets i)" "s \<in> set (target_strings t)" "p = path_of s"
      by (auto simp: intent_paths_def)
    have f: "validate_intent_target_fields t = Inr t" using assms(3) t(1) by blast
    have pre: "preimage_holds H w t" "preimage_holds H v t" using assms(1,2) t(1) by blast+
    from t(2) consider "s = it_target t" | "it_destination t = Some s"
      by (auto simp: target_strings_def set_opt_list split: option.splits)
    then show ?thesis
    proof cases
      case 1
      then show ?thesis using pre t(3) by (simp add: preimage_holds_def)
    next
      case 2
      then have "it_kind t = MOVE"
        using f by (auto simp: validate_intent_target_fields_def split: target_kind.splits if_splits)
      then show ?thesis using pre t(3) 2 by (simp add: preimage_holds_def hash_opt_at_def)
    qed
  qed
qed

lemma event_operations:
  assumes "proposal_event E p ops acks res prev = Inr e"
  shows "ev_operations e = ops" "ev_proposal_id e = prop_id p" "ev_result e = res" "event_ok (en_ledger E) e"
  using sealed_event_facts [OF assms [unfolded proposal_event_def]] by simp_all

text \<open>What \<open>prepare\<close> left behind, seen from the start.\<close>

definition prepared ::
  "engine_env \<Rightarrow> string \<Rightarrow> world \<Rightarrow> audit_event list \<Rightarrow> intent_record \<Rightarrow> world \<Rightarrow> bool" where
  "prepared E pid w es i u \<longleftrightarrow>
     codec_ok (en_ledger E) \<and> pid \<notin> ev_proposal_id ` set es
     \<and> no_edits u \<and> meta_dirs u \<and> ledger_holds (en_ledger E) (en_context E) u es
     \<and> others_same {} w u \<and> intent_clear i \<and> intent_transaction_id i = pid
     \<and> (\<forall>t\<in>set (intent_targets i). preimage_holds (en_hash E) w t)"

lemma settle_changed_stage:
  assumes "prepared E (prop_id p) w es i u" "settle_changed E lost l p c prev i u = (r, w')"
  shows "\<exists>s. stage_holds E (prop_id p) w es s w'
     \<and> (\<forall>e. r = Inr e \<longrightarrow> s = Undone e \<and> nodes w' intent_path = None)"
proof (rule audit_and_finalize [where s = Untouched])
  show "and_then (audit_step E lost 7 l
       (bind_result (intent_audit_operations (en_ledger E) i) (\<lambda>ops.
        proposal_event E p ops (cp_acknowledged c) Rolled_back prev))) (\<lambda>e.
     and_then (with_heartbeat lost 9
       (finalize_with (en_ck E) l False (prop_id p) (target_rolled_back (en_hash E)))) (\<lambda>_. ret e)) u = (r, w')"
    using assms(2) by (simp add: settle_changed_def finalize_rollback_after_audit_def)
  show "no_edits u" "meta_dirs u" "ledger_holds (en_ledger E) (en_context E) u es"
    using assms(1) by (simp_all add: prepared_def)
  have same: "others_same {} w v'" if "others_same {} u v'" for v'
    using assms(1) others_trans that by (auto simp: prepared_def)
  show "event_for E (prop_id p) es e"
    if "bind_result (intent_audit_operations (en_ledger E) i) (\<lambda>ops.
        proposal_event E p ops (cp_acknowledged c) Rolled_back prev) = Inr e" for e
    using that assms(1) event_operations by (auto simp: result_simps event_for_def prepared_def)
  show "stage_holds E (prop_id p) w es Untouched v'"
    if "ledger_holds (en_ledger E) (en_context E) v' es" "others_same {} u v'" for v'
    using that same by simp
  show "stage_holds E (prop_id p) w es (Undone e) v' \<and> settled_stage (Undone e)"
    if h: "bind_result (intent_audit_operations (en_ledger E) i) (\<lambda>ops.
        proposal_event E p ops (cp_acknowledged c) Rolled_back prev) = Inr e"
      "ledger_holds (en_ledger E) (en_context E) v' (es @ [e])" "others_same {} u v'" for e v'
  proof -
    obtain ops where "proposal_event E p ops (cp_acknowledged c) Rolled_back prev = Inr e"
      using h(1) by (auto simp: result_simps)
    then show ?thesis
      using h(2) others_hashes [OF same [OF h(3)]] others_mono [OF same [OF h(3)]] event_operations
      by (simp add: settled_stage_def)
  qed
qed


lemma flight_facts:
  assumes "in_flight H ck i v" "intent_clear i"
  shows "\<forall>p\<in>intent_paths i. outside_state p"
proof -
  obtain vs where vs: "plan_ok vs" "map vt_intent vs = intent_targets i"
    using assms(1) by (rule in_flight_plan)
  show ?thesis using plan_paths [OF vs] plan_static [OF vs(1)] by (auto simp: vt_static_def)
qed

lemma matching_operations:
  assumes "intent_matches_operations L i ops"
  shows "intent_audit_operations L i = Inr ops"
  using assms by (auto simp: intent_matches_operations_def split: sum.splits)

lemma flight_event:
  assumes "prepared E pid w es i u" "proposal_event E p ops acks res prev = Inr e" "pid = prop_id p"
  shows "event_for E pid es e"
  using assms event_operations [OF assms(2)] by (simp add: prepared_def event_for_def)

lemma flight_append:
  assumes "stage_holds E pid w es (In_flight i) v"
    and "ledger_holds (en_ledger E) (en_context E) v' es" "others_same {} v v'"
    and "in_flight (en_hash E) (en_ck E) i v \<Longrightarrow> intent_clear i \<Longrightarrow> in_flight (en_hash E) (en_ck E) i v'"
  shows "stage_holds E pid w es (In_flight i) v'"
  using assms others_trans [OF _ others_mono [OF assms(3)]] by auto

lemma target_paths:
  assumes "t \<in> set (intent_targets i)"
  shows "path_of (it_target t) \<in> intent_paths i"
    "it_destination t = Some d \<Longrightarrow> path_of d \<in> intent_paths i"
  using assms by (force simp: intent_paths_def target_strings_def)+

lemma images_append:
  assumes "in_flight H ck i v" "intent_clear i" "others_same {} v v'" "t \<in> set (intent_targets i)"
  shows "postimage_holds H v' t = postimage_holds H v t" "preimage_holds H v' t = preimage_holds H v t"
proof -
  have "nodes v' p = nodes v p" if "p \<in> intent_paths i" for p
    using flight_facts [OF assms(1,2)] assms(2,3) that by (auto simp: others_same_def intent_clear_def)
  then have h: "hash_at H v' p = hash_at H v p" if "p \<in> intent_paths i" for p
    using that by (simp add: hash_at_def)
  note p = h [OF target_paths(1) [OF assms(4)]]
  have d: "hash_opt_at H v' (map_option path_of (it_destination t)) = hash_opt_at H v (map_option path_of (it_destination t))"
    using h target_paths(2) [OF assms(4)] by (cases "it_destination t") (simp_all add: hash_opt_at_def)
  show "postimage_holds H v' t = postimage_holds H v t" "preimage_holds H v' t = preimage_holds H v t"
    by (simp_all add: postimage_holds_def preimage_holds_def p d split: target_kind.splits)
qed

text \<open>From an intent in flight with all images of one kind to the settled transaction.\<close>

lemma settle_rolled_back_stage:
  assumes prep: "prepared E (prop_id p) w es i u" and ops: "intent_audit_operations (en_ledger E) i = Inr (cp_audit c)"
    and fl: "under_way E (prop_id p) w es (In_flight i) v"
    and run: "settle_rolled_back E lost l p c prev i v = (r, w')"
  shows "\<exists>s. stage_holds E (prop_id p) w es s w'
     \<and> (\<forall>e. r = Inr e \<longrightarrow> s = Undone e \<and> nodes w' intent_path = None)"
  using run unfolding settle_rolled_back_def
proof (cases rule: and_then_cases)
  case (fails x)
  from fails(1) show ?thesis
  proof (cases rule: with_heartbeat_cases)
    case (skipped e)
    then show ?thesis using fl fails(2) unfolding under_way_def by blast
  next
    case (ran q)
    have "run_mover (en_hash E) (en_ck E) Rollback (en_attempts E) l i v = (q, w')" using ran(1) by simp
    then show ?thesis using flight_moves(1) [OF fl] fails(2) unfolding under_way_def by blast
  qed
next
  case (passes j z)
  from passes(1) have mv: "run_mover (en_hash E) (en_ck E) Rollback (en_attempts E) l i v = (Inr j, z)"
    by (cases rule: with_heartbeat_cases) auto
  have z: "under_way E (prop_id p) w es (In_flight i) z" by (rule flight_moves(1) [OF fl mv])
  then have zf: "no_edits z" "meta_dirs z" "ledger_holds (en_ledger E) (en_context E) z es"
    "in_flight (en_hash E) (en_ck E) i z" "intent_clear i" "others_same (intent_paths i) w z"
    "\<forall>t\<in>set (intent_targets i). preimage_holds (en_hash E) w t"
    by (simp_all add: under_way_def)
  have pre: "\<forall>t\<in>set (intent_targets i). preimage_holds (en_hash E) z t"
    using flight_moves(2) [OF fl mv] by (simp add: forward_def)
  note fields = in_flight_fields [OF zf(4)]
  have hs: "hashes_same (en_hash E) w z" by (rule images_same [OF zf(7) pre fields zf(6)])
  note opsf = intent_operations_facts(1) [OF ops fields]
  show ?thesis
  proof (rule audit_and_finalize [where s = "In_flight i" and v = z])
    show "and_then (audit_step E lost 14 l (proposal_event E p (cp_audit c) (cp_acknowledged c) Rolled_back prev))
      (\<lambda>e. and_then (with_heartbeat lost 16
         (finalize_with (en_ck E) l False (prop_id p) (target_rolled_back (en_hash E)))) (\<lambda>_. ret e)) z = (r, w')"
      using passes(2) by (simp add: finalize_rollback_after_audit_def)
    show "no_edits z" "meta_dirs z" "ledger_holds (en_ledger E) (en_context E) z es" by fact+
    show "event_for E (prop_id p) es e"
      if "proposal_event E p (cp_audit c) (cp_acknowledged c) Rolled_back prev = Inr e" for e
      using flight_event [OF prep that] by simp
    show "stage_holds E (prop_id p) w es (In_flight i) v'"
      if "ledger_holds (en_ledger E) (en_context E) v' es" "others_same {} z v'"
        "\<And>i. in_flight (en_hash E) (en_ck E) i z \<Longrightarrow> intent_clear i \<Longrightarrow> in_flight (en_hash E) (en_ck E) i v'" for v'
      by (rule flight_append [OF _ that]) (use z in \<open>simp only: under_way_def\<close>)
    show "stage_holds E (prop_id p) w es (Undone e) v' \<and> settled_stage (Undone e)"
      if "proposal_event E p (cp_audit c) (cp_acknowledged c) Rolled_back prev = Inr e"
        "ledger_holds (en_ledger E) (en_context E) v' (es @ [e])" "others_same {} z v'" for e v'
    proof -
      have "hashes_same (en_hash E) w v'"
        using hs others_hashes [OF that(3)] by (simp add: hashes_same_def)
      moreover have "others_same (ops_paths (cp_audit c)) w v'"
        using others_trans [OF zf(6) others_mono [OF that(3)]] opsf by simp
      ultimately show ?thesis
        using that(2) event_operations [OF that(1)] by (simp add: settled_stage_def)
    qed
  qed
qed

lemma settle_committed_stage:
  assumes prep: "prepared E (prop_id p) w es i u" and ops: "intent_audit_operations (en_ledger E) i = Inr (cp_audit c)"
    and fl: "under_way E (prop_id p) w es (In_flight i) v"
    and post: "\<forall>t\<in>set (intent_targets i). postimage_holds (en_hash E) v t"
    and run: "settle_committed E lost l p c prev i v = (r, w')"
  shows "\<exists>s. stage_holds E (prop_id p) w es s w'
     \<and> (\<forall>e. r = Inr e \<longrightarrow> s = Done e \<and> nodes w' intent_path = None)"
proof -
  have vf: "no_edits v" "meta_dirs v" "ledger_holds (en_ledger E) (en_context E) v es"
    "in_flight (en_hash E) (en_ck E) i v" "intent_clear i" "others_same (intent_paths i) w v"
    "\<forall>t\<in>set (intent_targets i). preimage_holds (en_hash E) w t"
    using fl by (simp_all add: under_way_def)
  note fields = in_flight_fields [OF vf(4)]
  note opsf = intent_operations_facts [OF ops fields]
  show ?thesis
  proof (rule audit_and_finalize [where s = "In_flight i" and v = v])
    show "and_then (audit_step E lost 17 l (proposal_event E p (cp_audit c) (cp_acknowledged c) Committed prev))
      (\<lambda>e. and_then (with_heartbeat lost 19
         (finalize_with (en_ck E) l True (prop_id p) (target_applied (en_hash E)))) (\<lambda>_. ret e)) v = (r, w')"
      using run by (simp add: settle_committed_def finalize_after_audit_def)
    show "no_edits v" "meta_dirs v" "ledger_holds (en_ledger E) (en_context E) v es" by fact+
    show "event_for E (prop_id p) es e"
      if "proposal_event E p (cp_audit c) (cp_acknowledged c) Committed prev = Inr e" for e
      using flight_event [OF prep that] by simp
    show "stage_holds E (prop_id p) w es (In_flight i) v'"
      if "ledger_holds (en_ledger E) (en_context E) v' es" "others_same {} v v'"
        "\<And>i. in_flight (en_hash E) (en_ck E) i v \<Longrightarrow> intent_clear i \<Longrightarrow> in_flight (en_hash E) (en_ck E) i v'" for v'
      by (rule flight_append [OF _ that]) (use fl in \<open>simp only: under_way_def\<close>)
    show "stage_holds E (prop_id p) w es (Done e) v' \<and> settled_stage (Done e)"
      if "proposal_event E p (cp_audit c) (cp_acknowledged c) Committed prev = Inr e"
        "ledger_holds (en_ledger E) (en_context E) v' (es @ [e])" "others_same {} v v'" for e v'
    proof -
      have "\<forall>t\<in>set (intent_targets i). postimage_holds (en_hash E) v' t"
        using post images_append(1) [OF vf(4,5) that(3)] by simp
      then have "\<forall>a\<in>set (cp_audit c). op_after (en_hash E) v' a" by (rule opsf(3))
      moreover have "\<forall>a\<in>set (cp_audit c). op_before (en_hash E) w a" by (rule opsf(2) [OF vf(7)])
      moreover have "others_same (ops_paths (cp_audit c)) w v'"
        using others_trans [OF vf(6) others_mono [OF that(3)]] opsf(1) by simp
      moreover have "\<forall>p\<in>ops_paths (cp_audit c). outside_state p"
        using flight_facts [OF vf(4,5)] opsf(1) by simp
      ultimately show ?thesis
        using that(2) event_operations [OF that(1)] by (simp add: settled_stage_def ops_outside_def)
    qed
  qed
qed


definition settled_as :: "settled \<Rightarrow> stage \<Rightarrow> bool" where
  "settled_as x s \<longleftrightarrow>
     (case x of Was_changed e \<Rightarrow> s = Undone e | Was_rolled_back e _ _ \<Rightarrow> s = Undone e
      | Was_committed e _ \<Rightarrow> s = Done e)"

lemma heartbeat_lift_cases:
  assumes "and_then (with_heartbeat lost k (lift f)) g w = (r, w')"
  obtains (fails) e where "w' = w" "r = Inl e" | (passes) x where "f w = Inr x" "g x w = (r, w')"
  using assms
proof (cases rule: and_then_cases)
  case (fails e)
  from fails(1) have "w' = w" by (cases rule: with_heartbeat_cases) (auto simp: lift_def)
  then show thesis using fails(2) that(1) by blast
next
  case (passes x v)
  from passes(1) have "v = w \<and> f w = Inr x" by (cases rule: with_heartbeat_cases) (auto simp: lift_def)
  then show thesis using passes(2) that(2) by blast
qed

lemma first_move:
  assumes prep: "prepared E pid w es i u"
    and run: "run_mover (en_hash E) (en_ck E) m n l i u = (r, v)"
  obtains (refused) e where "v = u" "r = Inl e"
    | (moved) "under_way E pid w es (In_flight i) v"
        "\<And>j. r = Inr j \<Longrightarrow> \<forall>t\<in>set (intent_targets i).
           if forward m then postimage_holds (en_hash E) v t else preimage_holds (en_hash E) v t"
proof -
  have p: "marker_free i" "no_edits u" using prep by (simp_all add: prepared_def intent_clear_def)
  show thesis
    using p run
  proof (cases rule: mover_outcome)
    case moved
    then have "under_way E pid w es (In_flight i) u"
      using prep others_mono [of "{}" w u "intent_paths i"] by (simp add: under_way_def prepared_def)
    then show thesis using flight_moves [OF _ run] that(2) by blast
  qed (use that(1) in blast)
qed

lemma settle_stage:
  assumes prep: "prepared E (prop_id p) w es i u"
    and run: "settle E lost l p c baseline prev i u = (r, w')"
  shows "\<exists>s. stage_holds E (prop_id p) w es s w'
     \<and> (\<forall>x. r = Inr x \<longrightarrow> settled_as x s \<and> nodes w' intent_path = None)"
proof (cases "intent_matches_operations (en_ledger E) i (cp_audit c)")
  case False
  then have "and_then (settle_changed E lost l p c prev i) (\<lambda>e. ret (Was_changed e)) u = (r, w')"
    using run by (simp add: settle_def)
  then show ?thesis
  proof (cases rule: and_then_cases)
    case (fails e)
    then show ?thesis using settle_changed_stage [OF prep fails(1)] by blast
  next
    case (passes e v)
    then show ?thesis using settle_changed_stage [OF prep passes(1)] by (auto simp: ret_def settled_as_def)
  qed
next
  case True
  note ops = matching_operations [OF True]
  have untouched: "stage_holds E (prop_id p) w es Untouched u" using prep by (simp add: prepared_def)
  from run True have "and_then (with_heartbeat lost 10
          (apply_intent (en_hash E) (en_ck E) (en_attempts E) l i)) (\<lambda>_.
        and_then (with_heartbeat lost 11
          (lift (en_live_conditions E (prop_postconditions p)))) (\<lambda>conditions.
        and_then (with_heartbeat lost 12
          (lift (en_validator E True (Some (strict_validation_paths c))))) (\<lambda>post.
        let findings = baseline_relative_diagnostics (en_casefold E) baseline post
                         (strict_validation_paths c) in
        if veto conditions findings
        then and_then (settle_rolled_back E lost l p c prev i) (\<lambda>e.
             ret (Was_rolled_back e conditions findings))
        else and_then (settle_committed E lost l p c prev i) (\<lambda>e.
             ret (Was_committed e findings))))) u = (r, w')"
    by (simp add: settle_def)
  then show ?thesis
  proof (cases rule: and_then_cases)
    case (fails e)
    from fails(1) show ?thesis
    proof (cases rule: with_heartbeat_cases)
      case (skipped x)
      then show ?thesis using untouched fails(2) by blast
    next
      case (ran q)
      have mv: "run_mover (en_hash E) (en_ck E) Apply (en_attempts E) l i u = (q, w')" using ran(1) by simp
      from prep mv show ?thesis
        by (cases rule: first_move) (use untouched fails(2) in \<open>auto simp only: under_way_def\<close>)
    qed
  next
    case (passes j v)
    have mv: "run_mover (en_hash E) (en_ck E) Apply (en_attempts E) l i u = (Inr j, v)"
      using passes(1) by (cases rule: with_heartbeat_cases) auto
    obtain fl: "under_way E (prop_id p) w es (In_flight i) v"
      and post: "\<forall>t\<in>set (intent_targets i). postimage_holds (en_hash E) v t"
      using prep mv by (cases rule: first_move) (auto simp: forward_def)
    have flight: "stage_holds E (prop_id p) w es (In_flight i) v" using fl by (simp only: under_way_def)
    from passes(2) show ?thesis
    proof (cases rule: heartbeat_lift_cases)
      case (passes conditions)
      from passes(2) show ?thesis
      proof (cases rule: heartbeat_lift_cases)
        case (passes report)
        let ?f = "baseline_relative_diagnostics (en_casefold E) baseline report (strict_validation_paths c)"
        show ?thesis
        proof (cases "veto conditions ?f")
          case True
          then have "and_then (settle_rolled_back E lost l p c prev i)
              (\<lambda>e. ret (Was_rolled_back e conditions ?f)) v = (r, w')"
            using passes(2) by (simp add: Let_def)
          then show ?thesis
          proof (cases rule: and_then_cases)
            case (fails e)
            then show ?thesis using settle_rolled_back_stage [OF prep ops fl fails(1)] by blast
          next
            case (passes e z)
            then show ?thesis
              using settle_rolled_back_stage [OF prep ops fl passes(1)] by (auto simp: ret_def settled_as_def)
          qed
        next
          case False
          then have "and_then (settle_committed E lost l p c prev i)
              (\<lambda>e. ret (Was_committed e ?f)) v = (r, w')"
            using passes(2) by (simp add: Let_def)
          then show ?thesis
          proof (cases rule: and_then_cases)
            case (fails e)
            then show ?thesis using settle_committed_stage [OF prep ops fl post fails(1)] by blast
          next
            case (passes e z)
            then show ?thesis
              using settle_committed_stage [OF prep ops fl post passes(1)] by (auto simp: ret_def settled_as_def)
          qed
        qed
      qed (use flight in blast)
    qed (use flight in blast)
  qed
qed

end
