(* ===== verification/ProposalLaws.thy ===== *)
theory ProposalLaws
  imports Proposals StagingLayout ReferenceLaws
begin

text \<open>
  What an accepted proposal guarantees to the layers below: its paths stay inside the canonical zones,
  pass the lexical checks of staged replacement, never name the ledger, and never collide.
\<close>

lemma claim_paths_distinct:
  "claim_paths ck seen ps = Some s \<longleftrightarrow>
     distinct (map ck ps) \<and> seen \<inter> ck ` set ps = {} \<and> s = seen \<union> ck ` set ps"
  by (induction ck seen ps rule: claim_paths.induct) auto

lemma paths_do_not_collide_iff:
  "paths_do_not_collide ck ops \<longleftrightarrow> distinct (map ck (concat (map operation_paths ops)))"
proof -
  have "paths_do_not_collide ck ops \<longleftrightarrow>
      (\<exists>s. claim_paths ck {} (concat (map operation_paths ops)) = Some s)"
    by (simp add: paths_do_not_collide_def)
  then show ?thesis by (simp add: claim_paths_distinct)
qed

lemma those_map_in: "those_map f xs = Some ys \<Longrightarrow> y \<in> set ys \<Longrightarrow> \<exists>x\<in>set xs. f x = Some y"
  by (induction xs arbitrary: ys) (auto split: option.splits)

lemma validated_operation_paths:
  assumes "validate_operation nfc ck hostok x = Some op" "t \<in> set (operation_paths op)"
  shows "context_path_ok nfc ck t"
  using assms
  by (cases "(nfc, ck, hostok, x)" rule: validate_operation.cases)
    (auto simp: generated_path_ok_def split: option.splits if_splits)

lemma context_path_parts:
  assumes "context_path_ok nfc ck t"
  shows "portable_parts t = Inr (split_on CHR ''/'' t)" "hd (split_on CHR ''/'' t) \<in> set workspace_zones"
    "ck t \<noteq> ck ledger_path"
proof -
  let ?ps = "split_on CHR ''/'' t"
  have h: "t \<noteq> []" "CHR 0x5C \<notin> set t" "list_all (\<lambda>c. 32 \<le> code c) t"
    "hd ?ps \<in> set workspace_zones" "list_all (\<lambda>p. p \<noteq> [] \<and> p \<noteq> ''.'' \<and> p \<noteq> ''..'') ?ps"
    "list_all portable_segment ?ps" "ck t \<noteq> ck ledger_path"
    using assms by (auto simp: context_path_ok_def Let_def)
  have join: "join_on CHR ''/'' ?ps = t" by simp
  have "CHR '':'' \<notin> set t"
  proof
    assume "CHR '':'' \<in> set t"
    then obtain p where "p \<in> set ?ps" "CHR '':'' \<in> set p" using split_on_chars by blast
    then show False using h(6) by (auto simp: list_all_iff portable_segment_def)
  qed
  then have "\<not> (1 < length t \<and> t ! 1 = CHR '':'')" using nth_mem by fastforce
  moreover have "hd t \<noteq> CHR ''/''"
  proof
    assume "hd t = CHR ''/''"
    then have "hd ?ps = []" using h(1) by (cases t) auto
    then show False using h(4) by (auto simp: workspace_zones_def)
  qed
  moreover have "CHR 0x00 \<notin> set t" using h(3) by (auto simp: list_all_iff code_def)
  moreover have "map (\<lambda>c. if c = CHR 0x5C then CHR ''/'' else c) t = t"
    using h(2) by (induction t) auto
  moreover have "\<not> (\<exists>p\<in>set ?ps. p \<in> {[], ''.'', ''..''})" using h(5) by (auto simp: list_all_iff)
  moreover have "hd t \<noteq> CHR 0x5C" using h(1,2) by (cases t) auto
  ultimately show "portable_parts t = Inr ?ps"
    using h(1) by (simp only: portable_parts_def Let_def if_False simp_thms)
  show "hd ?ps \<in> set workspace_zones" "ck t \<noteq> ck ledger_path" using h by simp_all
qed

lemma zone_allowed:
  assumes "hd (split_on CHR ''/'' t) \<in> set workspace_zones"
  shows "allowed_location canonical_zones root_targets (split_on CHR ''/'' t)"
proof -
  obtain z rest where s: "split_on CHR ''/'' t = z # rest" using split_on_not_Nil by (cases "split_on CHR ''/'' t") auto
  have t: "as_posix (split_on CHR ''/'' t) = t" by (simp add: as_posix_def)
  have "t = z \<or> prefix (z @ ''/'') t"
    using s join_split [of "CHR ''/''" t] by (cases rest) (auto simp: prefix_def)
  then have "in_zone t z" by (simp add: in_zone_def)
  moreover have "z \<in> set canonical_zones" using assms s by (simp add: workspace_zones_def canonical_zones_def)
  ultimately show ?thesis by (auto simp: allowed_location_def t)
qed

lemma zone_outside:
  assumes "hd (split_on CHR ''/'' t) \<in> set workspace_zones"
  shows "outside_state (split_on CHR ''/'' t)"
  using assms split_on_not_Nil [of "CHR ''/''" t]
  by (cases "split_on CHR ''/'' t") (auto simp: outside_state_def workspace_zones_def)

definition proposal_paths :: "proposal \<Rightarrow> string list" where
  "proposal_paths p = concat (map operation_paths (prop_operations p))"

text \<open>
  C19: An accepted proposal addresses only canonical files, each of them once: every path of its
  operations passes the lexical path check of staged replacement and lies outside \<open>98_state\<close>, is not
  the audit ledger under any spelling with the same collision key, and no two paths share a collision
  key, a move counting both its ends.
\<close>

theorem proposal_paths_safe:
  assumes "validate_proposal nfc ck hostok p = Some q"
  shows "distinct (map ck (proposal_paths q))
     \<and> (\<forall>t\<in>set (proposal_paths q). ck t \<noteq> ck ledger_path
          \<and> portable_parts t = Inr (split_on CHR ''/'' t)
          \<and> allowed_location canonical_zones root_targets (split_on CHR ''/'' t)
          \<and> outside_state (split_on CHR ''/'' t))"
proof -
  obtain ops where ops: "those_map (validate_operation nfc ck hostok) (prop_operations p) = Some ops"
    and q: "prop_operations q = ops" and inv: "producer_invariants ck hostok q"
    using assms by (auto simp: validate_proposal_def Let_def split: option.splits if_splits)
  have ok: "context_path_ok nfc ck t" if t: "t \<in> set (proposal_paths q)" for t
  proof -
    obtain op where "op \<in> set ops" "t \<in> set (operation_paths op)" using t q by (auto simp: proposal_paths_def)
    then show ?thesis using those_map_in [OF ops] validated_operation_paths by blast
  qed
  have "distinct (map ck (proposal_paths q))"
    using inv by (simp add: producer_invariants_def paths_do_not_collide_iff proposal_paths_def)
  then show ?thesis using context_path_parts [OF ok] zone_allowed zone_outside by blast
qed


definition example_proposal :: proposal where
  "example_proposal =
     \<lparr>prop_schema_version = 1, prop_id = ''TXP-20260101T000000Z-tidy'', prop_context = ''ctx'',
      prop_base_revision = zero_revision, prop_actor = Human ''ana'',
      prop_created_at = \<lparr>stamp_utc = 63902822400000000, stamp_offset = 0\<rparr>, prop_source_refs = [],
      prop_operations =
        [Move ''02_knowledge/a.md'' ''03_work/a.md'' (''sha256:'' @ replicate 64 (CHR ''b'')),
         Delete_generated ''04_views/a.md'' (''sha256:'' @ replicate 64 (CHR ''c''))],
      prop_preconditions = [Path_exists ''02_knowledge/a.md''],
      prop_postconditions = [Path_absent ''02_knowledge/a.md''],
      prop_expected_views = [''sqlite''], prop_approval_required = False\<rparr>"

lemma example_proposal_valid:
  "validate_proposal id id (\<lambda>_. True) example_proposal = Some example_proposal"
  by code_simp

theorem proposal_paths_safe_witness:
  "portable_parts ''03_work/a.md'' = Inr [''03_work'', ''a.md''] \<and> outside_state [''03_work'', ''a.md'']
   \<and> ''03_work/a.md'' \<noteq> ledger_path"
proof -
  have "''03_work/a.md'' \<in> set (proposal_paths example_proposal)"
    by (simp add: proposal_paths_def example_proposal_def)
  then have "portable_parts ''03_work/a.md'' = Inr (split_on CHR ''/'' ''03_work/a.md'')
      \<and> outside_state (split_on CHR ''/'' ''03_work/a.md'') \<and> id ''03_work/a.md'' \<noteq> id ledger_path"
    using proposal_paths_safe [OF example_proposal_valid] by blast
  then show ?thesis by simp
qed

end
