(* ===== verification/EngineLaws.thy ===== *)
theory EngineLaws
  imports EngineStages ProposalLaws
begin

text \<open>
  What the transaction protocol promises: every outcome of \<open>apply\<close> is a stage of the abstract
  transaction, and \<open>recover\<close> takes an intent in flight to the state before it, never forward.
\<close>

section \<open>Applying a proposal\<close>

lemma ver_head_verification: "ver_head (verification ctx es) = head_hash es"
  by (simp add: verification_def)

text \<open>Nothing is written before the analysis has accepted the proposal.\<close>

definition only_reads :: "'a action \<Rightarrow> bool" where
  "only_reads m \<longleftrightarrow> (\<forall>w. snd (m w) = w)"

lemma only_reads_rules:
  "only_reads (lift f)" "only_reads (check b e)" "only_reads (ret x)" "only_reads (fail e)"
  "only_reads m \<Longrightarrow> (\<And>x. only_reads (k x)) \<Longrightarrow> only_reads (and_then m k)"
  "only_reads m \<Longrightarrow> only_reads (with_heartbeat lost j m)"
  unfolding only_reads_def
  by (auto simp: lift_def check_def ret_def fail_def and_then_def with_heartbeat_def
      split: prod.splits sum.splits) (metis snd_conv)+

lemma heartbeat_returns [return_simps]:
  "with_heartbeat lost k m w = (Inr x, w') \<longleftrightarrow>
     \<not> lost (2 * k) \<and> \<not> lost (2 * k + 1) \<and> m w = (Inr x, w')"
  by (auto simp: with_heartbeat_def return_simps)

lemma preflight_reads: "only_reads (preflight E lost l p approved acks)"
  unfolding preflight_def
  by (intro only_reads_rules) (auto intro!: only_reads_rules split: prod.splits option.splits)

lemma preflight_returns:
  assumes run: "preflight E lost l p approved acks w = (Inr (prev, c, baseline), w')"
  obtains es k a where "read_verified_events (en_ledger E) (en_context E) w = Inr es"
    "prev = head_hash es" "prop_base_revision p = prev" "prop_id p \<notin> ev_proposal_id ` set es"
    "en_analyze E p acks prev k w = Inr a" "an_compiled a = Some c"
proof -
  obtain v dup skipped a where v: "verify_apply_ledger E (prop_id p) w = Inr (v, dup)"
    "raise_apply_conflicts p v dup = Inr ()" "prev = ver_head v"
    and a: "analyzed E p approved acks (ver_head v) skipped w = Inr a" "an_compiled a = Some c"
    using run by (auto simp: preflight_def return_simps split: prod.splits option.splits)
  obtain es where es: "read_verified_events (en_ledger E) (en_context E) w = Inr es"
    "v = verification (en_context E) es" "dup = find (\<lambda>e. ev_proposal_id e = prop_id p) es"
    using v(1) by (auto simp: verify_apply_ledger_def result_simps)
  have "dup = None" "prop_base_revision p = ver_head v"
    using v(2) by (auto simp: raise_apply_conflicts_def split: if_splits)
  moreover obtain b where "en_analyze E p acks (ver_head v) skipped w = Inr b" "an_compiled b = Some c"
    using a by (auto simp: analyzed_def result_simps with_diagnostic_def split: if_splits)
  ultimately show thesis
    using that es v(3) find_absent [of ev_proposal_id] by (metis ver_head_verification)
qed


definition engine_ready :: "engine_env \<Rightarrow> world \<Rightarrow> audit_event list \<Rightarrow> bool" where
  "engine_ready E w es \<longleftrightarrow>
     codec_ok (en_ledger E) \<and> no_edits w \<and> meta_dirs w
     \<and> read_verified_events (en_ledger E) (en_context E) w = Inr es"

text \<open>What the compilation of a proposal guarantees about its writes.\<close>

definition compiles_clear :: "engine_env \<Rightarrow> bool" where
  "compiles_clear E \<longleftrightarrow>
     (\<forall>p acks head k w a c. en_analyze E p acks head k w = Inr a \<longrightarrow> an_compiled a = Some c \<longrightarrow>
        ops_clear (cp_writes c))"

text \<open>What an outcome reports about the transaction.\<close>

definition reports :: "proposal \<Rightarrow> apply_outcome \<Rightarrow> stage \<Rightarrow> bool" where
  "reports p out s \<longleftrightarrow>
     (case out of
        Applied rc \<Rightarrow> (\<exists>e. s = Done e \<and> ar_proposal_id rc = prop_id p \<and> ar_event_id rc = ev_id e
          \<and> ar_event_hash rc = ev_hash e \<and> ar_committed_revision rc = ev_hash e
          \<and> ar_source_refs rc = ev_source_refs e)
      | Preimage_changed rr \<Rightarrow> (\<exists>e. s = Undone e \<and> rr_transaction_id rr = prop_id p
          \<and> rr_committed_revision rr = ev_hash e \<and> rr_outcome rr = Outcome_rolled_back)
      | Postcondition_rollback rr \<Rightarrow> (\<exists>e. s = Undone e \<and> rr_transaction_id rr = prop_id p
          \<and> rr_committed_revision rr = ev_hash e \<and> rr_outcome rr = Outcome_rolled_back))"

definition reached :: "engine_env \<Rightarrow> proposal \<Rightarrow> world \<Rightarrow> audit_event list \<Rightarrow> exn + apply_outcome \<Rightarrow> world \<Rightarrow> bool" where
  "reached E p w es r w' \<longleftrightarrow>
     (\<exists>s. stage_holds E (prop_id p) w es s w'
        \<and> (\<forall>out. r = Inr out \<longrightarrow> reports p out s \<and> nodes w' intent_path = None))"

lemma refresh_returns: "refresh_under_lock E lost k w = (Inr ps, w') \<Longrightarrow> w' = w"
  by (simp add: refresh_under_lock_def)

lemma conclude_outcome:
  assumes "conclude E lost p c x v = (r, w')" "settled_as x s"
  shows "w' = v" "r = Inr out \<Longrightarrow> reports p out s"
proof -
  have "w' = v \<and> (\<forall>out. r = Inr out \<longrightarrow> reports p out s)"
  proof (cases x)
    case (Was_changed e)
    then show ?thesis
      using assms by (auto simp: conclude_def and_then_def refresh_under_lock_def ret_def settled_as_def
          reports_def rolled_back_result_def)
  next
    case (Was_rolled_back e ds fs)
    then show ?thesis
      using assms by (auto simp: conclude_def ret_def settled_as_def reports_def rolled_back_result_def)
  next
    case (Was_committed e fs)
    then show ?thesis
      using assms by (auto simp: conclude_def and_then_def refresh_under_lock_def ret_def settled_as_def
          reports_def receipt_of_def)
  qed
  then show "w' = v" "r = Inr out \<Longrightarrow> reports p out s" by auto
qed

lemma prepare_reaches:
  assumes ready: "engine_ready E w es" and new: "prop_id p \<notin> ev_proposal_id ` set es"
    and clear: "ops_clear ops"
    and run: "with_heartbeat lost k (prepare (en_hash E) (en_ck E) n l (prop_id p) nonce ops) w = (r, u)"
  shows "stage_holds E (prop_id p) w es Untouched u" "r = Inr i \<Longrightarrow> prepared E (prop_id p) w es i u"
proof -
  have w: "no_edits w" "codec_ok (en_ledger E)" "meta_dirs w"
    "ledger_holds (en_ledger E) (en_context E) w es"
    using ready read_verified_iff by (auto simp: engine_ready_def)
  have u: "nodes u q = nodes w q" if "outside_state q" for q
    using run
  proof (cases rule: with_heartbeat_cases)
    case (ran x)
    show ?thesis using sparesD(2) [OF spares_prepare w(1) ran(1)] that .
  qed simp
  then show st: "stage_holds E (prop_id p) w es Untouched u"
    using ledger_outside [OF w(4)] by (simp add: others_same_def)
  show "prepared E (prop_id p) w es i u" if "r = Inr i"
  proof -
    have "prepare (en_hash E) (en_ck E) n l (prop_id p) nonce ops w = (Inr i, u)"
      using run that by (simp add: return_simps)
    note pr = prepare_returns [OF this w(1) clear]
    have "meta_dirs u" using w(3) u by (simp add: meta_dirs_def outside_state_def)
    then show ?thesis using pr st w(2) new by (simp add: prepared_def)
  qed
qed

lemma pending_same_world:
  assumes "pending_if_left E m w = (r, w')"
  obtains q where "m w = (q, w')" "\<And>x. r = Inr x \<Longrightarrow> q = Inr x"
  using assms by (auto simp: pending_if_left_def split: prod.splits sum.splits if_splits)

lemma apply_locked_reaches:
  assumes ready: "engine_ready E w es" and clear: "compiles_clear E"
    and run: "apply_locked E lost l p approved acks w = (r, w')"
  shows "reached E p w es r w'"
proof -
  have start: "stage_holds E (prop_id p) w es Untouched w"
    using ready read_verified_iff by (auto simp: engine_ready_def others_same_def)
  note ro = preflight_reads [of E lost l p approved acks, unfolded only_reads_def]
  from run show ?thesis unfolding apply_locked_def
  proof (cases rule: and_then_cases)
    case (fails e)
    then have "w' = w" using ro by (metis snd_conv)
    then show ?thesis using start fails(2) unfolding reached_def by blast
  next
    case (passes x v)
    obtain prev c baseline where x: "x = (prev, c, baseline)" by (cases x)
    have v: "v = w" using passes(1) ro by (metis snd_conv)
    obtain k a where a: "prop_id p \<notin> ev_proposal_id ` set es" "en_analyze E p acks prev k w = Inr a"
      "an_compiled a = Some c"
      using preflight_returns passes(1) ready unfolding x engine_ready_def by (metis sum.inject(2))
    have oc: "ops_clear (cp_writes c)" using clear a(2,3) unfolding compiles_clear_def by blast
    have "and_then (with_heartbeat lost 5
       (prepare (en_hash E) (en_ck E) (en_attempts E) l (prop_id p) (lease_nonce l) (cp_writes c))) (\<lambda>i.
       and_then (pending_if_left E (settle E lost l p c baseline prev i)) (\<lambda>s.
       conclude E lost p c s)) w = (r, w')"
      using passes(2) by (simp add: x v)
    then show ?thesis
    proof (cases rule: and_then_cases)
      case (fails e)
      then show ?thesis
        using prepare_reaches(1) [OF ready a(1) oc fails(1)] unfolding reached_def by blast
    next
      case (passes i u)
      have prep: "prepared E (prop_id p) w es i u" by (rule prepare_reaches(2) [OF ready a(1) oc passes(1) refl])
      from passes(2) show ?thesis
      proof (cases rule: and_then_cases)
        case (fails e)
        from fails(1) obtain q where "settle E lost l p c baseline prev i u = (q, w')"
          by (rule pending_same_world)
        then show ?thesis using settle_stage [OF prep] fails(2) unfolding reached_def by blast
      next
        case (passes s z)
        have "settle E lost l p c baseline prev i u = (Inr s, z)"
          using passes(1) by (rule pending_same_world) auto
        then obtain st where st: "stage_holds E (prop_id p) w es st z" "settled_as s st"
          "nodes z intent_path = None"
          using settle_stage [OF prep] by blast
        show ?thesis
          using conclude_outcome [OF passes(2) st(2)] st(1,3) unfolding reached_def by blast
      qed
    qed
  qed
qed

lemma release_keeps: "release_lock l w = (r, w') \<Longrightarrow> nodes w' = nodes w \<and> world_context w' = world_context w"
  by (auto simp: release_lock_def split: sum.splits)

lemma finally_release:
  assumes "finally_do m (release_lock l) w = (r, w')"
  obtains q v where "m w = (q, v)" "nodes w' = nodes v" "world_context w' = world_context v" "r = q"
proof -
  obtain q v where v: "m w = (q, v)" by fastforce
  have rel: "\<exists>z. release_lock l v = (Inr (), z)" by (auto simp: release_lock_def split: sum.splits)
  then have "r = q \<and> (w' = v \<or> release_lock l v = (Inr (), w'))"
    using assms v by (auto simp: finally_do_def split: sum.splits exn.splits prod.splits)
  then show thesis using that v release_keeps by blast
qed

lemma spoiled_keeps: "spoiled lost k x w = (r, w') \<Longrightarrow> w' = w \<and> (\<forall>out. r = Inr out \<longrightarrow> out = x)"
  by (auto simp: spoiled_def and_then_def check_def ret_def fail_def split: apply_outcome.splits if_splits)



section \<open>Recovering\<close>

lemma handler_same_world:
  assumes "recover_handler E started m w = (r, w')"
  obtains q where "m w = (q, w')" "\<And>x. r = Inr x \<Longrightarrow> q = Inr x"
  using assms by (auto simp: recover_handler_def split: prod.splits sum.splits if_splits)

lemma intent_event_facts:
  assumes "intent_event E i prev = Inr e"
  shows "event_ok (en_ledger E) e" "ev_proposal_id e = intent_transaction_id i" "ev_result e = Rolled_back"
    "intent_audit_operations (en_ledger E) i = Inr (ev_operations e)"
  using assms sealed_event_facts by (auto simp: intent_event_def result_simps)

lemma roll_back_pending_stage:
  assumes e: "intent_event E i head = Inr e"
    and c: "codec_ok (en_ledger E)" "pid \<notin> ev_proposal_id ` set es"
    and fl: "under_way E pid w es (In_flight i) v"
    and run: "roll_back_pending E lost l st head i e v = (r, w')"
  shows "\<exists>s. (s = In_flight i \<or> s = Undone e) \<and> stage_holds E pid w es s w'
     \<and> (\<forall>out. r = Inr out \<longrightarrow> s = Undone e \<and> nodes w' intent_path = None
          \<and> rr_outcome out = Outcome_rolled_back \<and> rr_committed_revision out = ev_hash e)"
  using run unfolding roll_back_pending_def
proof (cases rule: and_then_cases)
  case (fails x)
  from fails(1) show ?thesis
  proof (cases rule: with_heartbeat_cases)
    case (skipped e)
    then show ?thesis using fl fails(2) unfolding under_way_def by blast
  next
    case (ran q)
    have "run_mover (en_hash E) (en_ck E) Rollback_recovery (en_attempts E) l i v = (q, w')" using ran(1) by simp
    then show ?thesis using flight_moves(1) [OF fl] fails(2) unfolding under_way_def by blast
  qed
next
  case (passes j z)
  have mv: "run_mover (en_hash E) (en_ck E) Rollback_recovery (en_attempts E) l i v = (Inr j, z)"
    using passes(1) by (simp add: return_simps)
  have z: "under_way E pid w es (In_flight i) z" by (rule flight_moves(1) [OF fl mv])
  then have zf: "no_edits z" "meta_dirs z" "ledger_holds (en_ledger E) (en_context E) z es"
    "in_flight (en_hash E) (en_ck E) i z" "intent_clear i" "others_same (intent_paths i) w z"
    "\<forall>t\<in>set (intent_targets i). preimage_holds (en_hash E) w t" "intent_transaction_id i = pid"
    "stage_holds E pid w es (In_flight i) z"
    by (simp_all add: under_way_def)
  have pre: "\<forall>t\<in>set (intent_targets i). preimage_holds (en_hash E) z t"
    using flight_moves(2) [OF fl mv] by (simp add: forward_def)
  note fields = in_flight_fields [OF zf(4)]
  have hs: "hashes_same (en_hash E) w z" by (rule images_same [OF zf(7) pre fields zf(6)])
  note ef = intent_event_facts [OF e]
  note opsf = intent_operations_facts(1) [OF ef(4) fields]
  have ev: "event_for E pid es e" using ef c zf(8) by (simp add: event_for_def)
  have undone: "stage_holds E pid w es (Undone e) v'"
    if "ledger_holds (en_ledger E) (en_context E) v' (es @ [e])" "others_same {} z v'" for v'
  proof -
    have "hashes_same (en_hash E) w v'"
      using hs others_hashes [OF that(2)] by (simp add: hashes_same_def)
    moreover have "others_same (ops_paths (ev_operations e)) w v'"
      using others_trans [OF zf(6) others_mono [OF that(2)]] opsf by simp
    ultimately show ?thesis using that(1) ef zf(8) by simp
  qed
  have stay: ?thesis if "w' = z" "\<And>out. r \<noteq> Inr out" using zf(9) that by blast
  from passes(2) show ?thesis
  proof (cases rule: heartbeat_lift_cases)
    case (passes current)
    from passes(2) show ?thesis
    proof (cases rule: and_then_check_cases)
      case passes
      from passes(2) show ?thesis
      proof (cases rule: and_then_cases)
        case (fails x)
        from fails(1) show ?thesis
        proof (cases rule: with_heartbeat_cases)
          case (ran q)
          note a = appends [OF ev zf(3,1,2) ran(1)]
          show ?thesis
            using a(4) flight_append [OF zf(9) _ a(3) a(6)] undone [OF _ a(3)] fails(2) by blast
        qed (use stay fails in auto)
      next
        case (passes y u)
        then have ap: "append_event (en_hash E) (en_ledger E) (en_context E) (en_attempts E) l e z = (Inr y, u)"
          by (simp add: return_simps)
        note a = appends [OF ev zf(3,1,2) ap]
        have u: "stage_holds E pid w es (Undone e) u" using a(5) undone [OF _ a(3)] by auto
        from passes(2) show ?thesis
        proof (cases rule: and_then_check_cases)
          case passes
          from passes(2) show ?thesis
          proof (cases rule: and_then_cases)
            case (fails x)
            from fails(1) have "stage_holds E pid w es (Undone e) w'"
            proof (cases rule: with_heartbeat_cases)
              case (ran q)
              show ?thesis
                using stage_outside [OF u] sparesD(2) [OF spares_finalize a(1)] ran(1)
                unfolding finalize_rollback_after_audit_def settled_stage_def by simp
            qed (use u in simp)
            then show ?thesis using fails(2) by blast
          next
            case (passes x t)
            then have fin: "finalize_with (en_ck E) l False (intent_transaction_id i)
                (target_rolled_back (en_hash E)) u = (Inr x, t)"
              by (simp add: return_simps finalize_rollback_after_audit_def)
            have "stage_holds E pid w es (Undone e) t"
              using stage_outside [OF u _ sparesD(2) [OF spares_finalize a(1) fin]]
              by (simp add: settled_stage_def)
            moreover have "w' = t" "r = Inr out \<Longrightarrow> rr_outcome out = Outcome_rolled_back
                \<and> rr_committed_revision out = ev_hash e" for out
              using passes(2)
              by (auto simp: and_then_def refresh_under_lock_def ret_def recovery_result_of_def)
            ultimately show ?thesis using finalize_removes [OF fin a(1)] by blast
          qed
        qed (use u in blast)
      qed
    qed (use stay in blast)
  qed (use stay in blast)
qed


lemma handler_rules:
  "only_reads m \<Longrightarrow> only_reads (recover_handler E b m)"
  unfolding only_reads_def by (auto simp: recover_handler_def split: prod.splits sum.splits) (metis snd_conv)+

lemma handler_returns [return_simps]:
  "recover_handler E b m w = (Inr x, w') \<longleftrightarrow> m w = (Inr x, w')"
  by (auto simp: recover_handler_def split: prod.splits sum.splits)

lemma plan_reads: "only_reads (plan_recovery E lost p t head i)"
  unfolding plan_recovery_def
  by (intro only_reads_rules) (auto intro!: only_reads_rules split: option.splits)

lemma find_unique_member: "find_unique P es = Inr (Some e) \<Longrightarrow> e \<in> set es \<and> P e"
  by (auto simp: find_unique_def split: list.splits dest: filter_eq_ConsD)

lemma plan_returns:
  assumes "plan_recovery E lost p t head i w = (Inr plan, w')"
    "read_verified_events (en_ledger E) (en_context E) w = Inr es"
  shows "plan = Inl e \<Longrightarrow> e \<in> set es \<and> ev_proposal_id e = intent_transaction_id i"
    "plan = Inr e \<Longrightarrow> intent_event E i head = Inr e"
  using assms
  by (auto simp: plan_recovery_def return_simps find_event_by_proposal_id_def result_simps
      split: option.splits if_splits dest: find_unique_member)

lemma reads_cases:
  assumes "and_then m k w = (r, w')" "only_reads m"
  obtains (fails) e where "w' = w" "r = Inl e" | (passes) x where "m w = (Inr x, w)" "k x w = (r, w')"
  using assms(1)
proof (cases rule: and_then_cases)
  case (fails e)
  then show thesis using assms(2) that(1) unfolding only_reads_def by (metis snd_conv)
next
  case (passes x v)
  then have "v = w" using assms(2) unfolding only_reads_def by (metis snd_conv)
  then show thesis using passes that(2) by blast
qed

lemma in_flight_state:
  assumes "in_flight H ck i w"
  shows "ri_intent (inspect_recovery H ck w) = Some i"
    "ri_state (inspect_recovery H ck w) \<notin> {CLEAN, INVALID_INTENT, RECOVERY_CONFLICT}"
proof -
  obtain vs where l: "load_intent ck w = Inr i" "validated_intent_paths ck i w = Inr vs"
    using assms unfolding in_flight_def by (blast elim: inspect_Some)
  show "ri_intent (inspect_recovery H ck w) = Some i" using assms by (simp add: in_flight_def)
  show "ri_state (inspect_recovery H ck w) \<notin> {CLEAN, INVALID_INTENT, RECOVERY_CONFLICT}"
    using assms unfolding in_flight_def inspect_loaded [OF l] by (auto simp: overall_state_def split: if_splits)
qed

lemma recover_locked_stage:
  assumes c: "codec_ok (en_ledger E)" "pid \<notin> ev_proposal_id ` set es"
    and fl: "under_way E pid w es (In_flight i) v"
    and run: "recover_locked E lost l st p t v = (r, w')"
  shows "\<exists>s. (s = In_flight i \<or> (\<exists>e. s = Undone e)) \<and> stage_holds E pid w es s w'
     \<and> (\<forall>out. r = Inr out \<longrightarrow> (\<exists>e. s = Undone e \<and> nodes w' intent_path = None
          \<and> rr_outcome out = Outcome_rolled_back \<and> rr_committed_revision out = ev_hash e))"
proof -
  have vf: "in_flight (en_hash E) (en_ck E) i v" "intent_transaction_id i = pid"
    "ledger_holds (en_ledger E) (en_context E) v es" "stage_holds E pid w es (In_flight i) v"
    using fl by (simp_all add: under_way_def)
  have rd: "read_verified_events (en_ledger E) (en_context E) v = Inr es"
    using vf(3) read_verified_iff [OF c(1)] by blast
  note ins = in_flight_state [OF vf(1)]
  have stay: ?thesis if "w' = v" "\<And>out. r \<noteq> Inr out" using vf(4) that by blast
  note lifted = handler_rules [OF only_reads_rules(6) [OF only_reads_rules(1)]]
  from run lifted show ?thesis unfolding recover_locked_def
  proof (cases rule: reads_cases)
    case (passes ver)
    from passes(2) lifted show ?thesis
    proof (cases rule: reads_cases)
      case (passes rec)
      have rec: "rec = inspect_recovery (en_hash E) (en_ck E) v"
        using passes(1) by (simp add: return_simps)
      have "and_then (recover_handler E False (plan_recovery E lost p t (ver_head ver) i)) (\<lambda>plan.
         recover_handler E True
           (case plan of
              Inl e \<Rightarrow> settle_existing E lost l st rec i e
            | Inr e \<Rightarrow> roll_back_pending E lost l st (ver_head ver) i e)) v = (r, w')"
        using passes(2) ins by (simp add: rec)
      from this handler_rules [OF plan_reads] show ?thesis
      proof (cases rule: reads_cases)
        case (passes plan)
        have pl: "plan_recovery E lost p t (ver_head ver) i v = (Inr plan, v)"
          using passes(1) by (simp add: return_simps)
        note pr = plan_returns [OF pl rd]
        show ?thesis
        proof (cases plan)
          case (Inl e)
          then show ?thesis using pr(1) c(2) vf(2) by force
        next
          case (Inr e)
          have "recover_handler E True (roll_back_pending E lost l st (ver_head ver) i e) v = (r, w')"
            using passes(2) Inr by simp
          then obtain q where q: "roll_back_pending E lost l st (ver_head ver) i e v = (q, w')"
            "\<And>x. r = Inr x \<Longrightarrow> q = Inr x" by (rule handler_same_world) blast
          then show ?thesis
            using roll_back_pending_stage [OF pr(2) [OF Inr] c fl q(1)] by blast
        qed
      qed (use stay in blast)
    qed (use stay in blast)
  qed (use stay in blast)
qed

text \<open>
  C2: Recovery restores, it never applies. From a transaction in flight whose identity is not in the
  ledger, every outcome of \<open>recover\<close>, whatever strategy is asked for and whatever happens on the
  way, is the transaction still in flight or undone: the ledger as before or with one rolled-back
  event more and then every canonical file with its content hash from before the transaction. A
  returned result means undone, with that event, and no intent is left.
\<close>

theorem recover_rolls_back:
  assumes "codec_ok (en_ledger E)" "pid \<notin> ev_proposal_id ` set es" "no_edits v" "meta_dirs v"
    and "stage_holds E pid w es (In_flight i) v"
    and run: "recover E lost l st p t v = (r, w')"
  shows "\<exists>s. (s = In_flight i \<or> (\<exists>e. s = Undone e)) \<and> stage_holds E pid w es s w'
     \<and> (\<forall>out. r = Inr out \<longrightarrow> (\<exists>e. s = Undone e \<and> nodes w' intent_path = None
          \<and> rr_outcome out = Outcome_rolled_back \<and> rr_committed_revision out = ev_hash e))"
proof -
  have fl: "under_way E pid w es (In_flight i) v" using assms(3-5) by (simp add: under_way_def)
  have "\<exists>q. finally_do (recover_locked E lost l st p t) (release_lock l) v = (q, w')
      \<and> (\<forall>out. r = Inr out \<longrightarrow> q = Inr out)"
    using run unfolding recover_def
  proof (cases rule: and_then_cases)
    case (passes x z)
    then show ?thesis by (auto simp: and_then_def check_def ret_def fail_def split: if_splits)
  qed auto
  then obtain q where q: "finally_do (recover_locked E lost l st p t) (release_lock l) v = (q, w')"
    "\<And>out. r = Inr out \<Longrightarrow> q = Inr out" by blast
  from q(1) obtain z where z: "recover_locked E lost l st p t v = (q, z)"
    "nodes w' = nodes z" "world_context w' = world_context z"
    by (rule finally_release) auto
  show ?thesis
    using recover_locked_stage [OF assms(1,2) fl z(1)] stage_cong [OF _ z(2,3)] q(2) z(2) by metis
qed

section \<open>Examples\<close>

text \<open>A proposal that creates one file, in a context with an empty ledger.\<close>

definition example_compiled :: compiled where
  "example_compiled = \<lparr>cp_writes = [Staged_write ''03_work/t.md'' (Bytes ''new'')],
     cp_effects = [\<lparr>eff_order = 0, eff_op = Effect_create, eff_target = ''03_work/t.md'',
       eff_destination = None, eff_preimage = None, eff_postimage = Some (example_hash (Bytes ''new'')),
       eff_hand_edits = False\<rparr>],
     cp_audit = [Audit_create ''03_work/t.md'' (example_hash (Bytes ''new''))],
     cp_final = [(''03_work/t.md'', Some (Bytes ''new''))], cp_identities = [],
     cp_artifact_ids = [], cp_artifact_digests = [], cp_acknowledged = []\<rparr>"

definition example_engine :: engine_env where
  "example_engine = \<lparr>en_hash = example_hash, en_ledger = example_env, en_attempts = 2,
     en_context = ''ctx'', en_clock = \<lparr>stamp_utc = 63902822400000000, stamp_offset = 0\<rparr>,
     en_casefold = id, en_validator = (\<lambda>strict paths w. Inr []), en_rebuild = (\<lambda>w. Inr 0),
     en_invalidate = (\<lambda>w. True),
     en_analyze = (\<lambda>p acks head k w. Inr \<lparr>an_diagnostics = [], an_compiled = Some example_compiled\<rparr>),
     en_live_conditions = (\<lambda>cs w. Inr [])\<rparr>"

definition example_context :: "(fpath \<times> node) list \<Rightarrow> event list \<Rightarrow> world" where
  "example_context files evs =
     (example_world (([''99_meta''], Dir) # ([''99_meta'', ''audit''], Dir) # files) evs)
       \<lparr>tokens := [replicate 24 (CHR ''0''), replicate 32 (CHR ''5'')]\<rparr>"

lemma option_not_Dir: "x = None \<Longrightarrow> x \<noteq> Some Dir"
  by simp

lemma example_context_ledger:
  assumes "files = [([''03_work''], Dir)] \<or> files = example_started"
  shows "ledger_holds example_env ''ctx'' (example_context files evs) []" "meta_dirs (example_context files evs)"
proof -
  have l: "nodes (example_context files evs) ledger_file = None"
    using assms by (auto simp: example_context_def example_world_def ledger_file_def example_started_def
        example_base_def staging_root_def transactions_root_def intent_path_def)
  have "nested_context_free (example_context files evs) ledger_file"
    unfolding nested_free_ledger [OF l [THEN option_not_Dir]]
    using assms by (auto simp: is_file_def example_context_def example_world_def
        example_started_def example_base_def staging_root_def transactions_root_def intent_path_def)
  then show "ledger_holds example_env ''ctx'' (example_context files evs) []"
    by (simp add: ledger_holds_def l)
  show "meta_dirs (example_context files evs)"
    by (simp add: meta_dirs_def example_context_def example_world_def)
qed

lemma example_compiles: "compiles_clear example_engine"
  by (simp add: compiles_clear_def example_engine_def example_compiled_def ops_clear_def
      portable_parts_def unmarked_def ledger_file_def)


lemma example_context_inspected:
  "inspected_as example_intent PREPARED (inspect_recovery example_hash id (example_context example_started []))"
  by code_simp

theorem recover_rolls_back_witness:
  "\<exists>s. (s = In_flight example_intent \<or> (\<exists>e. s = Undone e))
     \<and> stage_holds example_engine ''t1'' (example_context example_started []) [] s
         (snd (recover example_engine (\<lambda>_. False) example_lease Strategy_complete None None
           (example_context example_started [])))"
proof -
  let ?w = "example_context example_started []"
  let ?r = "recover example_engine (\<lambda>_. False) example_lease Strategy_complete None None ?w"
  have clear: "intent_clear example_intent"
    by (simp add: intent_clear_def marker_free_def intent_paths_def example_intent_def unmarked_def
        target_strings_def path_of_def ledger_file_def)
  then have "in_flight example_hash id example_intent ?w"
    using example_context_inspected by (simp add: in_flight_def inspected_as_def intent_clear_def)
  moreover have "\<forall>t\<in>set (intent_targets example_intent). preimage_holds example_hash ?w t"
    by (simp add: example_intent_def preimage_holds_def hash_at_def path_of_def example_context_def
        example_world_def example_started_def)
  ultimately have st: "stage_holds example_engine ''t1'' ?w [] (In_flight example_intent) ?w"
    using example_context_ledger(1) clear
    by (simp add: others_same_def example_engine_def example_env_def) (simp add: example_intent_def)
  have "no_edits ?w" by (simp add: no_edits_def example_context_def example_world_def)
  moreover have "codec_ok (en_ledger example_engine)" using example_codec by (simp add: example_engine_def)
  moreover have "?r = (fst ?r, snd ?r)" by (rule prod.collapse [symmetric])
  moreover have "''t1'' \<notin> ev_proposal_id ` set []" by simp
  moreover have "meta_dirs ?w" using example_context_ledger(2) by blast
  ultimately obtain s where "(s = In_flight example_intent \<or> (\<exists>e. s = Undone e))"
    "stage_holds example_engine ''t1'' ?w [] s (snd ?r)"
    using recover_rolls_back [OF _ _ _ _ st] by metis
  then show ?thesis by (intro exI [of _ s] conjI)
qed

end
