(* ===== verification/MutationGuard.thy ===== *)
theory MutationGuard
  imports Prelude "HOL-Library.AList" "HOL-Library.Char_ord" "HOL-Library.List_Lexorder"
begin

text \<open>
  The mutation guard of the context lock (\<open>adapters/filesystem/lock.py\<close>): before a session touches
  \<open>lock.json\<close> it takes a ticket in a bakery whose counter is the directory \<open>98_state/staging\<close>. An
  attempt announces itself with a file \<open>lock.guard.choosing-<nonce>.json\<close>, reads all tickets, files
  \<open>lock.guard.ticket-<nonce>.json\<close> with a larger number, withdraws the announcement and then looks
  again and again until nobody is choosing and its ticket is the smallest.

  Attempts run concurrently; every system call is a step of its own. A file is created empty and
  filled by a later call; a listing is one call, but each entry is opened by another one, when it may
  be gone. An attempt may die or fail anywhere; that it gives up after \<open>_GUARD_ATTEMPTS\<close> looks is one
  of the failures. A removal either succeeds or makes the attempt fail: an entry that stays because
  it cannot be removed, and an announcement withdrawn by a cancellation record, are not modelled. The nonces are random and taken to be unique: they
  name the attempts. \<open>same_host n m\<close> says that the process of \<open>m\<close> runs on the host of \<open>n\<close>, so that
  \<open>n\<close> can tell whether it is alive.
\<close>

section \<open>Tickets\<close>

datatype turn = Turn (turn_ticket: nat) (turn_nonce: string)

text \<open>The key of \<open>min\<close>: the ticket, then the nonce.\<close>

instantiation turn :: linorder
begin

definition less_turn :: "turn \<Rightarrow> turn \<Rightarrow> bool" where
  "less_turn a b \<longleftrightarrow>
     turn_ticket a < turn_ticket b \<or> turn_ticket a = turn_ticket b \<and> turn_nonce a < turn_nonce b"

definition less_eq_turn :: "turn \<Rightarrow> turn \<Rightarrow> bool" where
  "less_eq_turn a b \<longleftrightarrow>
     turn_ticket a < turn_ticket b \<or> turn_ticket a = turn_ticket b \<and> turn_nonce a \<le> turn_nonce b"

instance
  by standard (auto simp: less_turn_def less_eq_turn_def turn.expand)

end

section \<open>State\<close>

text \<open>A guard file that has been created but not written is malformed for a reader.\<close>

datatype entry = Partial | Whole nat

text \<open>Where an attempt is in \<open>_acquire_mutation_guard\<close>. A list is what is left to open of a listing.\<close>

datatype phase =
    Outside
  | Announcing
  | Announced
  | Reading "string list" nat
  | Numbering nat
  | Numbered nat
  | Waiting nat
  | Looking nat "string list" bool
  | Comparing nat bool "string list" "turn list"
  | Holding nat
  | Gone
  | Dead

record guard_state =
  choosing_files :: "(string \<times> entry) list"
  ticket_files :: "(string \<times> entry) list"
  cancelled_choosing :: "string list"
  cancelled_tickets :: "string list"
  phase_of :: "string \<Rightarrow> phase"

abbreviation choosing :: "guard_state \<Rightarrow> string \<Rightarrow> entry option" where
  "choosing s \<equiv> map_of (choosing_files s)"

abbreviation ticket :: "guard_state \<Rightarrow> string \<Rightarrow> entry option" where
  "ticket s \<equiv> map_of (ticket_files s)"

definition go :: "string \<Rightarrow> phase \<Rightarrow> guard_state \<Rightarrow> guard_state" where
  "go n ph s = s\<lparr>phase_of := (phase_of s)(n := ph)\<rparr>"

text \<open>The names of a directory listing, sorted.\<close>

definition listing :: "(string \<times> entry) list \<Rightarrow> string list" where
  "listing files = sort (remdups (map fst files))"

section \<open>Steps of one attempt\<close>

definition create_choosing :: "string \<Rightarrow> entry \<Rightarrow> guard_state \<Rightarrow> guard_state" where
  "create_choosing n e s = s\<lparr>choosing_files := AList.update n e (choosing_files s)\<rparr>"

definition create_ticket :: "string \<Rightarrow> entry \<Rightarrow> guard_state \<Rightarrow> guard_state" where
  "create_ticket n e s = s\<lparr>ticket_files := AList.update n e (ticket_files s)\<rparr>"

definition unlink_choosing :: "string \<Rightarrow> guard_state \<Rightarrow> guard_state" where
  "unlink_choosing n s = s\<lparr>choosing_files := AList.delete n (choosing_files s)\<rparr>"

definition unlink_ticket :: "string \<Rightarrow> guard_state \<Rightarrow> guard_state" where
  "unlink_ticket n s = s\<lparr>ticket_files := AList.delete n (ticket_files s)\<rparr>"

text \<open>The handler of \<open>_acquire_mutation_guard\<close>: release both files; a malformed one stays.\<close>

definition quit :: "string \<Rightarrow> guard_state \<Rightarrow> guard_state" where
  "quit n s =
     (let s1 = (case choosing s n of Some (Whole k) \<Rightarrow> unlink_choosing n s | _ \<Rightarrow> s);
          s2 = (case ticket s1 n of Some (Whole k) \<Rightarrow> unlink_ticket n s1 | _ \<Rightarrow> s1)
      in go n Gone s2)"

text \<open>What \<open>_read_guard_entries\<close> makes of one name: nothing there, a recent malformed entry (the
  caller fails), an entry that is cancelled or whose process is dead (it is removed), or an entry.\<close>

datatype reading = Absent | Malformed | Discard | Present nat

definition read_entry ::
  "(string \<Rightarrow> string \<Rightarrow> bool) \<Rightarrow> guard_state \<Rightarrow> string \<Rightarrow> string list \<Rightarrow> entry option \<Rightarrow> string \<Rightarrow> reading"
where
  "read_entry same_host s n cancelled e m =
     (case e of
        None \<Rightarrow> Absent
      | Some Partial \<Rightarrow> Malformed
      | Some (Whole k) \<Rightarrow>
          if m \<in> set cancelled then Discard
          else if m \<noteq> n \<and> same_host n m \<and> phase_of s m = Dead then Discard
          else Present k)"

definition advance :: "(string \<Rightarrow> string \<Rightarrow> bool) \<Rightarrow> string \<Rightarrow> guard_state \<Rightarrow> guard_state" where
  "advance same_host n s =
     (case phase_of s n of
        Outside \<Rightarrow>
          (case choosing s n of
             None \<Rightarrow> go n Announcing (create_choosing n Partial s)
           | Some _ \<Rightarrow> go n Gone s)
      | Announcing \<Rightarrow>
          go n Announced (if choosing s n = None then s else create_choosing n (Whole 0) s)
      | Announced \<Rightarrow> go n (Reading (listing (ticket_files s)) 0) s
      | Reading (m # todo) k \<Rightarrow>
          (case read_entry same_host s n (cancelled_tickets s) (ticket s m) m of
             Absent \<Rightarrow> go n (Reading todo k) s
           | Malformed \<Rightarrow> quit n s
           | Discard \<Rightarrow> go n (Reading todo k) (unlink_ticket m s)
           | Present t \<Rightarrow> go n (Reading todo (max k t)) s)
      | Reading [] k \<Rightarrow>
          (case ticket s n of
             None \<Rightarrow> go n (Numbering (k + 1)) (create_ticket n Partial s)
           | Some _ \<Rightarrow> quit n s)
      | Numbering t \<Rightarrow>
          go n (Numbered t) (if ticket s n = None then s else create_ticket n (Whole t) s)
      | Numbered t \<Rightarrow>
          (case choosing s n of
             Some (Whole k) \<Rightarrow> go n (Waiting t) (unlink_choosing n s)
           | _ \<Rightarrow> quit n s)
      | Waiting t \<Rightarrow> go n (Looking t (listing (choosing_files s)) False) s
      | Looking t (m # todo) found \<Rightarrow>
          (case read_entry same_host s n (cancelled_choosing s) (choosing s m) m of
             Absent \<Rightarrow> go n (Looking t todo found) s
           | Malformed \<Rightarrow> quit n s
           | Discard \<Rightarrow> go n (Looking t todo found) (unlink_choosing m s)
           | Present k \<Rightarrow> go n (Looking t todo True) s)
      | Looking t [] found \<Rightarrow> go n (Comparing t found (listing (ticket_files s)) []) s
      | Comparing t found (m # todo) seen \<Rightarrow>
          (case read_entry same_host s n (cancelled_tickets s) (ticket s m) m of
             Absent \<Rightarrow> go n (Comparing t found todo seen) s
           | Malformed \<Rightarrow> quit n s
           | Discard \<Rightarrow> go n (Comparing t found todo seen) (unlink_ticket m s)
           | Present k \<Rightarrow> go n (Comparing t found todo (seen @ [Turn k m])) s)
      | Comparing t found [] seen \<Rightarrow>
          if n \<notin> turn_nonce ` set seen then quit n s
          else if \<not> found \<and> turn_nonce (Min (set seen)) = n then go n (Holding t) s
          else go n (Waiting t) s
      | _ \<Rightarrow> s)"

text \<open>\<open>_release_mutation_guard\<close> of a held guard: the ticket is removed, or when the file cannot be
  removed a cancellation record is published.\<close>

definition leave :: "string \<Rightarrow> guard_state \<Rightarrow> guard_state" where
  "leave n s =
     (case ticket s n of
        Some (Whole t) \<Rightarrow> go n Gone (unlink_ticket n s)
      | _ \<Rightarrow> go n Gone s)"

definition leave_cancelled :: "string \<Rightarrow> guard_state \<Rightarrow> guard_state" where
  "leave_cancelled n s = go n Gone (s\<lparr>cancelled_tickets := n # cancelled_tickets s\<rparr>)"

definition quit_cancelled :: "string \<Rightarrow> guard_state \<Rightarrow> guard_state" where
  "quit_cancelled n s =
     go n Gone (s\<lparr>cancelled_choosing := n # cancelled_choosing s,
       cancelled_tickets := n # cancelled_tickets s\<rparr>)"

section \<open>Runs\<close>

text \<open>An attempt that is under way.\<close>

definition running :: "phase \<Rightarrow> bool" where
  "running ph \<longleftrightarrow> (case ph of Holding t \<Rightarrow> False | Gone \<Rightarrow> False | Dead \<Rightarrow> False | _ \<Rightarrow> True)"

inductive guard_step :: "(string \<Rightarrow> string \<Rightarrow> bool) \<Rightarrow> guard_state \<Rightarrow> guard_state \<Rightarrow> bool"
  for same_host where
  advances: "running (phase_of s n) \<Longrightarrow> guard_step same_host s (advance same_host n s)"
| fails: "running (phase_of s n) \<Longrightarrow> guard_step same_host s (quit n s)"
| fails_cancelled: "running (phase_of s n) \<Longrightarrow> guard_step same_host s (quit_cancelled n s)"
| leaves: "phase_of s n = Holding t \<Longrightarrow> guard_step same_host s (leave n s)"
| leaves_cancelled: "phase_of s n = Holding t \<Longrightarrow> guard_step same_host s (leave_cancelled n s)"
| dies: "guard_step same_host s (go n Dead s)"
| expires_choosing: "choosing s n = Some Partial \<Longrightarrow> guard_step same_host s (unlink_choosing n s)"
| expires_ticket: "ticket s n = Some Partial \<Longrightarrow> guard_step same_host s (unlink_ticket n s)"

definition fresh_guard :: guard_state where
  "fresh_guard = \<lparr>choosing_files = [], ticket_files = [], cancelled_choosing = [],
     cancelled_tickets = [], phase_of = (\<lambda>_. Outside)\<rparr>"

end
