(* ===== verification/GuardLaws.thy ===== *)
theory GuardLaws
  imports MutationGuard
begin

text \<open>
  Mutual exclusion of the mutation guard. The invariant has a part about the files of each attempt
  and a part about every pair: what an attempt that looks for competitors already knows of each.
\<close>

section \<open>What a step changes\<close>

definition over :: "phase \<Rightarrow> bool" where
  "over ph \<longleftrightarrow> ph = Gone \<or> ph = Dead"

definition kept :: "entry option \<Rightarrow> entry option \<Rightarrow> phase \<Rightarrow> bool" where
  "kept old new ph \<longleftrightarrow> new = old \<or> new = None \<and> (old = Some Partial \<or> over ph)"

text \<open>A step of \<open>n\<close> leaves the others alone, except that it may remove files of attempts that are
  over and malformed files.\<close>

definition acts :: "string \<Rightarrow> guard_state \<Rightarrow> guard_state \<Rightarrow> bool" where
  "acts n s s' \<longleftrightarrow>
     (\<forall>m. m \<noteq> n \<longrightarrow> phase_of s' m = phase_of s m
        \<and> kept (choosing s m) (choosing s' m) (phase_of s m)
        \<and> kept (ticket s m) (ticket s' m) (phase_of s m))
     \<and> (\<forall>m. m \<in> set (cancelled_choosing s') \<union> set (cancelled_tickets s') \<longrightarrow>
          m \<in> set (cancelled_choosing s) \<union> set (cancelled_tickets s) \<or> m = n \<and> phase_of s' n = Gone)"

definition cancelled_over :: "guard_state \<Rightarrow> bool" where
  "cancelled_over s \<longleftrightarrow>
     (\<forall>m. m \<in> set (cancelled_choosing s) \<union> set (cancelled_tickets s) \<longrightarrow> over (phase_of s m))"

lemma file_simps [simp]:
  "choosing (create_choosing n e s) m = (if m = n then Some e else choosing s m)"
  "ticket (create_ticket n e s) m = (if m = n then Some e else ticket s m)"
  "choosing (unlink_choosing n s) m = (if m = n then None else choosing s m)"
  "ticket (unlink_ticket n s) m = (if m = n then None else ticket s m)"
  "ticket (create_choosing n e s) = ticket s" "choosing (create_ticket n e s) = choosing s"
  "ticket (unlink_choosing n s) = ticket s" "choosing (unlink_ticket n s) = choosing s"
  "phase_of (create_choosing n e s) = phase_of s" "phase_of (create_ticket n e s) = phase_of s"
  "phase_of (unlink_choosing n s) = phase_of s" "phase_of (unlink_ticket n s) = phase_of s"
  "choosing_files (go n ph s) = choosing_files s" "ticket_files (go n ph s) = ticket_files s"
  "phase_of (go n ph s) = (phase_of s)(n := ph)"
  by (simp_all add: create_choosing_def create_ticket_def unlink_choosing_def unlink_ticket_def go_def
      update_conv' delete_conv')

lemma cancelled_simps [simp]:
  "cancelled_choosing (create_choosing n e s) = cancelled_choosing s"
  "cancelled_choosing (create_ticket n e s) = cancelled_choosing s"
  "cancelled_choosing (unlink_choosing n s) = cancelled_choosing s"
  "cancelled_choosing (unlink_ticket n s) = cancelled_choosing s"
  "cancelled_choosing (go n ph s) = cancelled_choosing s"
  "cancelled_tickets (create_choosing n e s) = cancelled_tickets s"
  "cancelled_tickets (create_ticket n e s) = cancelled_tickets s"
  "cancelled_tickets (unlink_choosing n s) = cancelled_tickets s"
  "cancelled_tickets (unlink_ticket n s) = cancelled_tickets s"
  "cancelled_tickets (go n ph s) = cancelled_tickets s"
  by (simp_all add: create_choosing_def create_ticket_def unlink_choosing_def unlink_ticket_def go_def)

lemma set_listing [simp]: "m \<in> set (listing files) \<longleftrightarrow> map_of files m \<noteq> None"
  by (auto simp: listing_def map_of_eq_None_iff)

lemma kept_refl [simp]: "kept e e ph"
  by (simp add: kept_def)

lemma quit_facts [simp]:
  "phase_of (quit n s) = (phase_of s)(n := Gone)"
  "m \<noteq> n \<Longrightarrow> choosing (quit n s) m = choosing s m" "m \<noteq> n \<Longrightarrow> ticket (quit n s) m = ticket s m"
  "cancelled_choosing (quit n s) = cancelled_choosing s" "cancelled_tickets (quit n s) = cancelled_tickets s"
  by (auto simp: quit_def Let_def split: option.splits entry.splits)

lemma discard_over:
  assumes "read_entry h s n c e m = Discard" "cancelled_over s"
    "set c \<subseteq> set (cancelled_choosing s) \<union> set (cancelled_tickets s)"
  shows "over (phase_of s m)"
  using assms by (auto simp: read_entry_def cancelled_over_def over_def split: option.splits entry.splits if_splits)

lemma advance_acts:
  assumes "cancelled_over s"
  shows "acts n s (advance h n s)"
proof -
  have d: "over (phase_of s m)" if "read_entry h s n (cancelled_choosing s) e m = Discard" for e m
    using discard_over [OF that assms] by simp
  have e: "over (phase_of s m)" if "read_entry h s n (cancelled_tickets s) e m = Discard" for e m
    using discard_over [OF that assms] by simp
  show ?thesis
  proof (cases "phase_of s n" rule: phase.exhaust)
    case (Comparing t found todo seen)
    then show ?thesis
      by (cases todo) (auto simp: acts_def advance_def kept_def dest: d e split: reading.splits)
  qed (auto simp: acts_def advance_def kept_def dest: d e
        split: option.splits entry.splits list.splits reading.splits)
qed

section \<open>The files of one attempt\<close>

fun number :: "phase \<Rightarrow> nat option" where
  "number (Numbering t) = Some t"
| "number (Numbered t) = Some t"
| "number (Waiting t) = Some t"
| "number (Looking t _ _) = Some t"
| "number (Comparing t _ _ _) = Some t"
| "number (Holding t) = Some t"
| "number _ = None"

definition own_files :: "string \<Rightarrow> entry option \<Rightarrow> entry option \<Rightarrow> phase \<Rightarrow> bool" where
  "own_files n c k ph \<longleftrightarrow>
     (case ph of
        Outside \<Rightarrow> c = None \<and> k = None
      | Announcing \<Rightarrow> c \<in> {None, Some Partial} \<and> k = None
      | Announced \<Rightarrow> c \<in> {None, Some (Whole 0)} \<and> k = None
      | Reading todo m \<Rightarrow> c \<in> {None, Some (Whole 0)} \<and> k = None
      | Numbering t \<Rightarrow> c \<in> {None, Some (Whole 0)} \<and> k \<in> {None, Some Partial}
      | Numbered t \<Rightarrow> c \<in> {None, Some (Whole 0)} \<and> k \<in> {None, Some (Whole t)}
      | Waiting t \<Rightarrow> c = None \<and> k \<in> {None, Some (Whole t)}
      | Looking t todo found \<Rightarrow> c = None \<and> k \<in> {None, Some (Whole t)}
      | Comparing t found todo seen \<Rightarrow> c = None \<and> k \<in> {None, Some (Whole t)}
          \<and> (\<forall>u. Turn u n \<in> set seen \<longrightarrow> u = t \<and> k = Some (Whole t))
      | Holding t \<Rightarrow> c = None \<and> k = Some (Whole t)
      | Gone \<Rightarrow> True
      | Dead \<Rightarrow> True)"

definition files_ok :: "guard_state \<Rightarrow> bool" where
  "files_ok s \<longleftrightarrow> (\<forall>n. own_files n (choosing s n) (ticket s n) (phase_of s n))"

text \<open>Removing a malformed file keeps the invariant, also when the attempt goes on to write it.\<close>

lemma own_files_kept:
  assumes "own_files n c k ph" "kept c c' ph" "kept k k' ph"
  shows "own_files n c' k' ph"
  using assms by (auto simp: own_files_def kept_def over_def split: phase.splits)

lemma advance_own:
  assumes "cancelled_over s" "own_files n (choosing s n) (ticket s n) (phase_of s n)"
  shows "own_files n (choosing (advance h n s) n) (ticket (advance h n s) n) (phase_of (advance h n s) n)"
proof -
  have d: "over (phase_of s m)" if "read_entry h s n (cancelled_choosing s) e m = Discard" for e m
    using discard_over [OF that assms(1)] by simp
  have e: "over (phase_of s m)" if "read_entry h s n (cancelled_tickets s) e m = Discard" for e m
    using discard_over [OF that assms(1)] by simp
  show ?thesis
  proof (cases "phase_of s n" rule: phase.exhaust)
    case (Looking t todo found)
    then show ?thesis using assms(2) d
      by (cases todo) (auto simp: advance_def own_files_def over_def split: reading.splits)
  next
    case (Comparing t found todo seen)
    show ?thesis
    proof (cases todo)
      case Nil
      have "turn_nonce (Min (set seen)) = n \<Longrightarrow> n \<in> turn_nonce ` set seen \<Longrightarrow> Turn (turn_ticket (Min (set seen))) n \<in> set seen"
        using Min_in [of "set seen"] turn.collapse [of "Min (set seen)"] by (metis List.finite_set image_empty empty_iff)
      then show ?thesis using assms(2) Comparing Nil by (auto simp: advance_def own_files_def; force)
    next
      case (Cons m rest)
      have "k = t \<and> ticket s n = Some (Whole t)"
        if "read_entry h s n (cancelled_tickets s) (ticket s n) n = Present k" for k
        using that assms(2) Comparing
        by (auto simp: read_entry_def own_files_def split: option.splits entry.splits if_splits)
      moreover have "read_entry h s n (cancelled_tickets s) (ticket s n) n \<noteq> Discard"
        using e [of "ticket s n" n] Comparing by (auto simp: over_def)
      ultimately show ?thesis using assms(2) Comparing Cons
        by (auto simp: advance_def own_files_def split: reading.splits)
    qed
  qed (use assms(2) e in \<open>auto simp: advance_def own_files_def over_def
        split: reading.splits list.splits option.splits entry.splits\<close>)
qed

text \<open>All steps, by what they do to the one attempt that takes them.\<close>

lemma step_cases:
  assumes "guard_step h s s'" "cancelled_over s" "files_ok s"
  obtains n where "acts n s s'" "own_files n (choosing s' n) (ticket s' n) (phase_of s' n)"
    "(running (phase_of s n) \<and> s' = advance h n s)
     \<or> over (phase_of s' n)
     \<or> (phase_of s' n = phase_of s n \<and> kept (choosing s n) (choosing s' n) (phase_of s n)
          \<and> kept (ticket s n) (ticket s' n) (phase_of s n))"
  using assms(1)
proof (cases rule: guard_step.cases)
  case (advances n)
  then show thesis
    using that [of n] advance_acts [OF assms(2)] advance_own [OF assms(2)] assms(3) by (simp add: files_ok_def)
next
  case (fails n)
  show thesis by (rule that [of n]) (auto simp: fails acts_def own_files_def over_def)
next
  case (fails_cancelled n)
  show thesis
    by (rule that [of n]) (auto simp: fails_cancelled acts_def own_files_def over_def quit_cancelled_def go_def)
next
  case (leaves n t)
  show thesis
    by (rule that [of n])
      (auto simp: leaves(1) leave_def acts_def own_files_def over_def split: option.splits entry.splits)
next
  case (leaves_cancelled n t)
  show thesis
    by (rule that [of n]) (auto simp: leaves_cancelled leave_cancelled_def acts_def own_files_def over_def go_def)
next
  case (dies n)
  show thesis by (rule that [of n]) (auto simp: dies acts_def own_files_def over_def)
next
  case (expires_choosing n)
  have o: "own_files n (choosing s n) (ticket s n) (phase_of s n)" using assms(3) by (simp add: files_ok_def)
  show thesis
    by (rule that [of n]) (use expires_choosing own_files_kept [OF o] in \<open>auto simp: acts_def kept_def\<close>)
next
  case (expires_ticket n)
  have o: "own_files n (choosing s n) (ticket s n) (phase_of s n)" using assms(3) by (simp add: files_ok_def)
  show thesis
    by (rule that [of n]) (use expires_ticket own_files_kept [OF o] in \<open>auto simp: acts_def kept_def\<close>)
qed

lemma step_files:
  assumes "guard_step h s s'" "cancelled_over s" "files_ok s"
  shows "cancelled_over s'" "files_ok s'"
proof -
  obtain n where a: "acts n s s'" and o: "own_files n (choosing s' n) (ticket s' n) (phase_of s' n)"
    and c: "(running (phase_of s n) \<and> s' = advance h n s) \<or> over (phase_of s' n)
     \<or> (phase_of s' n = phase_of s n \<and> kept (choosing s n) (choosing s' n) (phase_of s n)
          \<and> kept (ticket s n) (ticket s' n) (phase_of s n))"
    using assms by (rule step_cases)
  show "files_ok s'"
    unfolding files_ok_def
  proof
    fix m
    show "own_files m (choosing s' m) (ticket s' m) (phase_of s' m)"
    proof (cases "m = n")
      case False
      then show ?thesis
        using a assms(3) own_files_kept [of m "choosing s m" "ticket s m" "phase_of s m"]
        by (simp add: acts_def files_ok_def)
    qed (use o in simp)
  qed
  have "\<not> over (phase_of s n)" if "running (phase_of s n)"
    using that by (auto simp: running_def over_def)
  then show "cancelled_over s'"
    using a assms(2) c unfolding cancelled_over_def acts_def by (metis over_def)
qed

section \<open>What an attempt knows of another\<close>

text \<open>\<open>q\<close> will not overtake the ticket \<open>t\<close> of \<open>p\<close>.\<close>

definition ahead :: "nat \<Rightarrow> string \<Rightarrow> string \<Rightarrow> phase \<Rightarrow> bool" where
  "ahead t p q ph \<longleftrightarrow>
     (case ph of Reading todo k \<Rightarrow> t \<le> k \<or> p \<in> set todo
      | _ \<Rightarrow> (case number ph of None \<Rightarrow> True | Some u \<Rightarrow> Turn t p < Turn u q))"

text \<open>\<open>q\<close> has lost one of its files and will fail.\<close>

definition doomed :: "entry option \<Rightarrow> entry option \<Rightarrow> phase \<Rightarrow> bool" where
  "doomed c k ph \<longleftrightarrow>
     c = None \<and> (ph = Announcing \<or> ph = Announced \<or> (\<exists>todo m. ph = Reading todo m)
        \<or> (\<exists>t. ph = Numbering t \<or> ph = Numbered t))
     \<or> k = None \<and> number ph \<noteq> None"

definition settled :: "entry option \<Rightarrow> phase \<Rightarrow> bool" where
  "settled k ph \<longleftrightarrow>
     k \<noteq> None \<and> (\<exists>t. ph = Waiting t \<or> (\<exists>todo f. ph = Looking t todo f)
        \<or> (\<exists>todo f seen. ph = Comparing t f todo seen) \<or> ph = Holding t)"

definition knows :: "guard_state \<Rightarrow> string \<Rightarrow> string \<Rightarrow> bool" where
  "knows s p q \<longleftrightarrow>
     (case phase_of s p of
        Looking t todo False \<Rightarrow> ticket s p = Some (Whole t) \<longrightarrow>
          q \<in> set todo \<or> ahead t p q (phase_of s q)
          \<or> doomed (choosing s q) (ticket s q) (phase_of s q) \<or> settled (ticket s q) (phase_of s q)
      | Comparing t False todo seen \<Rightarrow> ticket s p = Some (Whole t) \<longrightarrow>
          ahead t p q (phase_of s q) \<or> doomed (choosing s q) (ticket s q) (phase_of s q)
          \<or> settled (ticket s q) (phase_of s q) \<and> q \<in> set todo
          \<or> (\<exists>u. Turn u q \<in> set seen \<and> number (phase_of s q) = Some u)
      | Holding t \<Rightarrow> ahead t p q (phase_of s q) \<or> doomed (choosing s q) (ticket s q) (phase_of s q)
      | _ \<Rightarrow> True)"

text \<open>Whoever is not announced is ahead, doomed or settled.\<close>

lemma unannounced:
  assumes "own_files q c k ph" "c = None"
  shows "ahead t p q ph \<or> doomed c k ph \<or> settled k ph"
  using assms by (cases ph) (auto simp: own_files_def ahead_def doomed_def settled_def)

text \<open>What \<open>p\<close> knows stays true when another attempt acts.\<close>

definition competing :: "guard_state \<Rightarrow> string \<Rightarrow> nat \<Rightarrow> bool" where
  "competing s p t \<longleftrightarrow>
     ticket s p = Some (Whole t) \<and> \<not> over (phase_of s p) \<and> p \<notin> set (cancelled_tickets s)"

lemma advance_ahead:
  assumes "competing s p t" "p \<noteq> q" "ahead t p q (phase_of s q)"
  shows "ahead t p q (phase_of (advance h q s) q)"
proof -
  have p: "read_entry h s q (cancelled_tickets s) (ticket s p) p = Present t"
    using assms(1) by (auto simp: competing_def read_entry_def over_def)
  have tp: "ticket s p \<noteq> None" using assms(1) by (simp add: competing_def)
  show ?thesis
  proof (cases "phase_of s q" rule: phase.exhaust)
    case (Reading todo k)
    then show ?thesis using assms p
      by (cases todo) (auto simp: advance_def ahead_def less_turn_def split: reading.splits option.splits)
  next
    case (Comparing t' found todo seen)
    then show ?thesis using assms(3)
      by (cases todo) (auto simp: advance_def ahead_def split: reading.splits)
  next
    case (Looking t' todo found)
    then show ?thesis using assms(3)
      by (cases todo) (auto simp: advance_def ahead_def split: reading.splits)
  qed (use assms(3) tp in \<open>auto simp: advance_def ahead_def split: option.splits entry.splits\<close>)
qed

lemma advance_doomed:
  assumes "own_files q (choosing s q) (ticket s q) (phase_of s q)"
    "doomed (choosing s q) (ticket s q) (phase_of s q)"
  shows "doomed (choosing (advance h q s) q) (ticket (advance h q s) q) (phase_of (advance h q s) q)
     \<or> phase_of (advance h q s) q = Gone"
proof (cases "phase_of s q" rule: phase.exhaust)
  case (Reading todo k)
  then show ?thesis using assms
    by (cases todo) (auto simp: advance_def doomed_def own_files_def split: reading.splits option.splits)
next
  case (Looking t todo found)
  then show ?thesis using assms
    by (cases todo) (auto simp: advance_def doomed_def own_files_def split: reading.splits)
next
  case (Comparing t found todo seen)
  show ?thesis
  proof (cases todo)
    case Nil
    have "q \<notin> turn_nonce ` set seen"
    proof
      assume "q \<in> turn_nonce ` set seen"
      then obtain u where "Turn u q \<in> set seen" by (metis image_iff turn.collapse)
      then show False using assms Comparing by (auto simp: own_files_def doomed_def)
    qed
    then show ?thesis using Comparing Nil by (simp add: advance_def)
  next
    case (Cons m rest)
    then show ?thesis using assms Comparing
      by (auto simp: advance_def doomed_def own_files_def split: reading.splits)
  qed
qed (use assms in \<open>auto simp: advance_def doomed_def own_files_def split: option.splits entry.splits\<close>)

lemma advance_settled:
  assumes "settled (ticket s q) (phase_of s q)" "cancelled_over s"
  shows "settled (ticket (advance h q s) q) (phase_of (advance h q s) q)
     \<and> number (phase_of (advance h q s) q) = number (phase_of s q)
     \<or> phase_of (advance h q s) q = Gone"
proof -
  have e: "read_entry h s q (cancelled_tickets s) e q \<noteq> Discard" for e
    using discard_over [of h s q "cancelled_tickets s" e q] assms by (auto simp: settled_def over_def)
  from assms(1) consider t where "phase_of s q = Waiting t" | t todo f where "phase_of s q = Looking t todo f"
    | t todo f seen where "phase_of s q = Comparing t f todo seen" | t where "phase_of s q = Holding t"
    by (auto simp: settled_def)
  then show ?thesis
  proof cases
    case (2 t todo f)
    then show ?thesis using assms(1)
      by (cases todo) (auto simp: advance_def settled_def split: reading.splits)
  next
    case (3 t todo f seen)
    show ?thesis
    proof (cases todo)
      case (Cons m rest)
      then show ?thesis using assms(1) 3 e
        by (cases "m = q") (auto simp: advance_def settled_def split: reading.splits)
    qed (use assms(1) 3 in \<open>auto simp: advance_def settled_def\<close>)
  qed (use assms(1) in \<open>auto simp: advance_def settled_def\<close>)
qed

text \<open>An acting attempt keeps the number it has, or is over.\<close>

lemma advance_number:
  assumes "number (phase_of s q) = Some u"
  shows "number (phase_of (advance h q s) q) = Some u \<or> phase_of (advance h q s) q = Gone"
proof (cases "phase_of s q" rule: phase.exhaust)
  case (Looking t todo found)
  then show ?thesis using assms by (cases todo) (auto simp: advance_def split: reading.splits)
next
  case (Comparing t found todo seen)
  then show ?thesis using assms by (cases todo) (auto simp: advance_def split: reading.splits)
qed (use assms in \<open>auto simp: advance_def split: option.splits entry.splits\<close>)


lemma over_ahead: "over ph \<Longrightarrow> ahead t p q ph"
  by (auto simp: over_def ahead_def)

text \<open>What one step of any attempt does to \<open>q\<close>, as far as \<open>p\<close> is concerned.\<close>

lemma step_relation:
  assumes st: "guard_step h s s'" and inv: "cancelled_over s" "files_ok s"
    and p: "competing s p t" "p \<noteq> q"
  shows "ahead t p q (phase_of s q) \<Longrightarrow> ahead t p q (phase_of s' q)"
    and "doomed (choosing s q) (ticket s q) (phase_of s q) \<Longrightarrow>
      doomed (choosing s' q) (ticket s' q) (phase_of s' q) \<or> ahead t p q (phase_of s' q)"
    and "settled (ticket s q) (phase_of s q) \<Longrightarrow>
      settled (ticket s' q) (phase_of s' q) \<or> ahead t p q (phase_of s' q)"
    and "number (phase_of s q) = Some u \<Longrightarrow> number (phase_of s' q) = Some u \<or> ahead t p q (phase_of s' q)"
proof -
  obtain n where a: "acts n s s'"
    and c: "(running (phase_of s n) \<and> s' = advance h n s) \<or> over (phase_of s' n)
     \<or> (phase_of s' n = phase_of s n \<and> kept (choosing s n) (choosing s' n) (phase_of s n)
          \<and> kept (ticket s n) (ticket s' n) (phase_of s n))"
    using st inv by (rule step_cases)
  have own: "own_files q (choosing s q) (ticket s q) (phase_of s q)" using inv(2) by (simp add: files_ok_def)
  consider (idle) "phase_of s' q = phase_of s q" "kept (choosing s q) (choosing s' q) (phase_of s q)"
      "kept (ticket s q) (ticket s' q) (phase_of s q)"
    | (ended) "over (phase_of s' q)" | (moving) "s' = advance h q s"
    using a c by (cases "q = n") (auto simp: acts_def)
  then have "(ahead t p q (phase_of s q) \<longrightarrow> ahead t p q (phase_of s' q))
    \<and> (doomed (choosing s q) (ticket s q) (phase_of s q) \<longrightarrow>
        doomed (choosing s' q) (ticket s' q) (phase_of s' q) \<or> ahead t p q (phase_of s' q))
    \<and> (settled (ticket s q) (phase_of s q) \<longrightarrow>
        settled (ticket s' q) (phase_of s' q) \<or> ahead t p q (phase_of s' q))
    \<and> (number (phase_of s q) = Some u \<longrightarrow>
        number (phase_of s' q) = Some u \<or> ahead t p q (phase_of s' q))"
  proof cases
    case idle
    have "settled (ticket s q) (phase_of s q) \<Longrightarrow> ticket s' q = ticket s q"
      using idle(3) own by (auto simp: settled_def kept_def over_def own_files_def)
    moreover have "doomed (choosing s q) (ticket s q) (phase_of s q) \<Longrightarrow>
        doomed (choosing s' q) (ticket s' q) (phase_of s' q)"
      using idle by (auto simp: doomed_def kept_def)
    ultimately show ?thesis using idle(1) by auto
  next
    case ended
    then show ?thesis using over_ahead by blast
  next
    case moving
    have g: "ahead t p q Gone" by (simp add: ahead_def)
    show ?thesis
      unfolding moving
      using advance_ahead [OF p] advance_doomed [OF own] advance_settled [OF _ inv(1)] advance_number g
      by metis
  qed
  then show "ahead t p q (phase_of s q) \<Longrightarrow> ahead t p q (phase_of s' q)"
    "doomed (choosing s q) (ticket s q) (phase_of s q) \<Longrightarrow>
      doomed (choosing s' q) (ticket s' q) (phase_of s' q) \<or> ahead t p q (phase_of s' q)"
    "settled (ticket s q) (phase_of s q) \<Longrightarrow>
      settled (ticket s' q) (phase_of s' q) \<or> ahead t p q (phase_of s' q)"
    "number (phase_of s q) = Some u \<Longrightarrow> number (phase_of s' q) = Some u \<or> ahead t p q (phase_of s' q)"
    by blast+
qed

section \<open>The invariant\<close>

definition guard_inv :: "guard_state \<Rightarrow> bool" where
  "guard_inv s \<longleftrightarrow> cancelled_over s \<and> files_ok s \<and> (\<forall>p q. p \<noteq> q \<longrightarrow> knows s p q)"

text \<open>An attempt that does not act itself, or whose files alone changed.\<close>

lemma knows_others:
  assumes st: "guard_step h s s'" and inv: "cancelled_over s" "files_ok s"
    and pq: "p \<noteq> q" "knows s p q"
    and same: "phase_of s' p = phase_of s p" "kept (ticket s p) (ticket s' p) (phase_of s p)"
  shows "knows s' p q"
proof -
  have comp: "competing s p t"
    if "ticket s p = Some (Whole t)" "\<not> over (phase_of s p)" for t
    using that inv(1) by (auto simp: competing_def cancelled_over_def)
  have earlier: "ticket s p = Some (Whole t)" if "ticket s' p = Some (Whole t)" for t
    using same(2) that by (auto simp: kept_def)
  note rel = step_relation [OF st inv _ pq(1)]
  show ?thesis
  proof (cases "phase_of s p" rule: phase.exhaust)
    case (Looking t todo found)
    show ?thesis
    proof (cases "\<not> found \<and> ticket s' p = Some (Whole t)")
      case True
      then have c: "competing s p t" using comp earlier Looking by (simp add: over_def)
      show ?thesis
        using pq(2) True Looking same(1) earlier [of t] rel [OF c] by (auto simp: knows_def)
    qed (use same(1) Looking in \<open>auto simp: knows_def split: bool.splits\<close>)
  next
    case (Comparing t found todo seen)
    show ?thesis
    proof (cases "\<not> found \<and> ticket s' p = Some (Whole t)")
      case True
      then have c: "competing s p t" using comp earlier Comparing by (simp add: over_def)
      show ?thesis
        using pq(2) True Comparing same(1) earlier [of t] rel [OF c]
        by (simp add: knows_def) blast
    qed (use same(1) Comparing in \<open>auto simp: knows_def split: bool.splits\<close>)
  next
    case (Holding t)
    then have "ticket s p = Some (Whole t)" using inv(2) by (auto simp: files_ok_def own_files_def dest: spec [of _ p])
    then have c: "competing s p t" using comp Holding by (simp add: over_def)
    show ?thesis using pq(2) Holding same(1) rel(1,2) [OF c] by (auto simp: knows_def)
  qed (use same(1) in \<open>auto simp: knows_def\<close>)
qed

text \<open>The attempt that looks.\<close>

lemma advance_knows:
  assumes inv: "cancelled_over s" "files_ok s" and pq: "p \<noteq> q" "knows s p q"
  shows "knows (advance h p s) p q"
proof -
  have own: "own_files n (choosing s n) (ticket s n) (phase_of s n)" for n using inv(2) by (simp add: files_ok_def)
  have d: "ahead t p q (phase_of s q)" if "read_entry h s p (cancelled_choosing s) e q = Discard" for e t
    using discard_over [OF that inv(1)] over_ahead by simp
  have e: "ahead t p q (phase_of s q)" if "read_entry h s p (cancelled_tickets s) e q = Discard" for e t
    using discard_over [OF that inv(1)] over_ahead by simp
  have absent: "choosing s q = None" if "read_entry h s p c (choosing s q) q = Absent" for c
    using that by (auto simp: read_entry_def split: option.splits entry.splits if_splits)
  note u = unannounced [OF own [of q]]
  show ?thesis
  proof (cases "phase_of s p" rule: phase.exhaust)
    case (Waiting t)
    then show ?thesis using u [of t p] pq(1) by (auto simp: advance_def knows_def)
  next
    case (Looking t todo found)
    show ?thesis
    proof (cases todo)
      case Nil
      then show ?thesis using pq Looking
        by (auto simp: advance_def knows_def settled_def split: bool.splits)
    next
      case (Cons m rest)
      show ?thesis
      proof (cases "read_entry h s p (cancelled_choosing s) (choosing s m) m")
        case Absent
        then show ?thesis using pq Looking Cons u [of t p] absent
          by (cases "m = q") (auto simp: advance_def knows_def split: bool.splits)
      next
        case Discard
        have s1: "doomed (choosing s q) (ticket s q) (phase_of s q) \<Longrightarrow>
          doomed (choosing (unlink_choosing m s) q) (ticket s q) (phase_of s q)"
          by (auto simp: doomed_def)
        show ?thesis using pq Looking Cons Discard d s1
          by (cases "m = q") (auto simp: advance_def knows_def split: bool.splits)
      qed (use Looking Cons in \<open>auto simp: advance_def knows_def\<close>)
    qed
  next
    case (Comparing t found todo seen)
    show ?thesis
    proof (cases todo)
      case Nil
      show ?thesis
      proof (cases "p \<in> turn_nonce ` set seen \<and> \<not> found \<and> turn_nonce (Min (set seen)) = p")
        case True
        then have mn: "Min (set seen) \<in> set seen" by (intro Min_in) auto
        then have tp: "Turn t p = Min (set seen)" "ticket s p = Some (Whole t)"
          using own [of p] True Comparing turn.collapse [of "Min (set seen)"]
          by (auto simp: own_files_def) metis+
        have "Turn t p < Turn u q" if "Turn u q \<in> set seen" for u
          using Min_le [OF _ that] pq(1) unfolding tp(1) [symmetric]
          by (metis List.finite_set order_le_less turn.inject)
        then have "ahead t p q (phase_of s q)" if "Turn u q \<in> set seen" "number (phase_of s q) = Some u" for u
          using that by (cases "phase_of s q") (auto simp: ahead_def)
        then show ?thesis
          using pq True Comparing Nil tp(2) by (auto simp: advance_def knows_def)
      qed (use Comparing Nil in \<open>auto simp: advance_def knows_def\<close>)
    next
      case (Cons m rest)
      show ?thesis
      proof (cases "read_entry h s p (cancelled_tickets s) (ticket s m) m")
        case Absent
        have "ticket s q = None" if "m = q"
          using Absent that by (auto simp: read_entry_def split: option.splits entry.splits if_splits)
        then show ?thesis using pq Comparing Cons Absent
          by (cases "m = q") (auto simp: advance_def knows_def settled_def split: bool.splits)
      next
        case Discard
        show ?thesis using pq Comparing Cons Discard e
          by (cases "m = q") (auto simp: advance_def knows_def doomed_def settled_def split: bool.splits)
      next
        case (Present k)
        have "number (phase_of s q) = Some k" if "m = q" "settled (ticket s q) (phase_of s q)"
          using Present that own [of q]
          by (auto simp: read_entry_def settled_def own_files_def split: option.splits entry.splits if_splits)
        then show ?thesis using pq Comparing Cons Present
          by (cases "m = q") (auto simp: advance_def knows_def split: bool.splits)
      qed (use Comparing Cons in \<open>auto simp: advance_def knows_def\<close>)
    qed
  next
    case (Holding t)
    then show ?thesis using pq(2) by (simp add: advance_def)
  next
    case (Reading todo k)
    then show ?thesis by (cases todo) (auto simp: advance_def knows_def split: reading.splits option.splits)
  qed (auto simp: advance_def knows_def split: option.splits entry.splits)
qed

lemma step_inv:
  assumes "guard_step h s s'" "guard_inv s"
  shows "guard_inv s'"
proof -
  have inv: "cancelled_over s" "files_ok s" and kn: "\<And>p q. p \<noteq> q \<Longrightarrow> knows s p q"
    using assms(2) by (auto simp: guard_inv_def)
  obtain n where a: "acts n s s'"
    and c: "(running (phase_of s n) \<and> s' = advance h n s) \<or> over (phase_of s' n)
     \<or> (phase_of s' n = phase_of s n \<and> kept (choosing s n) (choosing s' n) (phase_of s n)
          \<and> kept (ticket s n) (ticket s' n) (phase_of s n))"
    using assms(1) inv by (rule step_cases)
  have "knows s' p q" if pq: "p \<noteq> q" for p q
  proof (cases "p = n")
    case False
    then show ?thesis
      using knows_others [OF assms(1) inv pq kn [OF pq]] a by (simp add: acts_def)
  next
    case True
    from c show ?thesis
    proof (elim disjE conjE)
      assume "s' = advance h n s"
      then show ?thesis using advance_knows [OF inv pq kn [OF pq]] True by simp
    next
      assume "over (phase_of s' n)"
      then show ?thesis using True by (auto simp: knows_def over_def)
    next
      assume "phase_of s' n = phase_of s n" "kept (ticket s n) (ticket s' n) (phase_of s n)"
      then show ?thesis using knows_others [OF assms(1) inv pq kn [OF pq]] True by simp
    qed
  qed
  then show ?thesis using step_files [OF assms(1) inv] by (simp add: guard_inv_def)
qed

lemma fresh_inv: "guard_inv fresh_guard"
  by (simp add: guard_inv_def fresh_guard_def cancelled_over_def files_ok_def own_files_def knows_def)

lemma reachable_inv: "(guard_step h)\<^sup>*\<^sup>* fresh_guard s \<Longrightarrow> guard_inv s"
  by (induction rule: rtranclp_induct) (auto intro: fresh_inv step_inv)

lemma at_most_one_holder:
  assumes "(guard_step same_host)\<^sup>*\<^sup>* fresh_guard s" "phase_of s p = Holding t" "phase_of s q = Holding u"
  shows "p = q"
proof (rule ccontr)
  assume pq: "p \<noteq> q"
  have i: "guard_inv s" using assms(1) by (rule reachable_inv)
  have own: "own_files n (choosing s n) (ticket s n) (phase_of s n)" for n
    using i by (simp add: guard_inv_def files_ok_def)
  have "\<not> doomed (choosing s n) (ticket s n) (phase_of s n)" if "phase_of s n = Holding k" for n k
    using own [of n] that by (auto simp: own_files_def doomed_def)
  then have nd: "\<not> doomed (choosing s q) (ticket s q) (phase_of s q)" "\<not> doomed (choosing s p) (ticket s p) (phase_of s p)"
    using assms(2,3) by blast+
  have "knows s p q" "knows s q p" using i pq by (simp_all add: guard_inv_def)
  then have "ahead t p q (phase_of s q)" "ahead u q p (phase_of s p)"
    using assms(2,3) nd by (simp_all add: knows_def)
  then show False using assms(2,3) by (auto simp: ahead_def)
qed

text \<open>
  C3: Mutual exclusion. In whatever order the system calls of any number of concurrent attempts
  interleave, and whichever of them fail, die, leave files behind or have malformed files swept away,
  no two attempts hold the mutation guard at the same time.
\<close>

theorem guard_exclusive:
  assumes "(guard_step same_host)\<^sup>*\<^sup>* fresh_guard s" "phase_of s p = Holding t" "phase_of s q = Holding u"
  shows "p = q"
  using assms by (rule at_most_one_holder)

section \<open>Obtaining the guard\<close>

text \<open>Every file of another attempt is one that \<open>n\<close> may remove: its process is known to be dead, or
  it is cancelled.\<close>

definition clear_for :: "(string \<Rightarrow> string \<Rightarrow> bool) \<Rightarrow> string \<Rightarrow> guard_state \<Rightarrow> bool" where
  "clear_for h n s \<longleftrightarrow>
     (\<forall>m. m \<noteq> n \<longrightarrow>
        read_entry h s n (cancelled_choosing s) (choosing s m) m \<in> {Absent, Discard}
        \<and> read_entry h s n (cancelled_tickets s) (ticket s m) m \<in> {Absent, Discard})
     \<and> n \<notin> set (cancelled_choosing s) \<and> n \<notin> set (cancelled_tickets s)"

definition leads :: "(string \<Rightarrow> string \<Rightarrow> bool) \<Rightarrow> string \<Rightarrow> guard_state \<Rightarrow> guard_state \<Rightarrow> bool" where
  "leads h n s s' \<longleftrightarrow> (\<exists>k. s' = (advance h n ^^ k) s)"

lemma advance_early:
  "phase_of s n = Outside \<Longrightarrow> choosing s n = None \<Longrightarrow>
    advance h n s = go n Announcing (create_choosing n Partial s)"
  "phase_of s n = Announcing \<Longrightarrow> choosing s n = Some e \<Longrightarrow>
    advance h n s = go n Announced (create_choosing n (Whole 0) s)"
  "phase_of s n = Announced \<Longrightarrow> advance h n s = go n (Reading (listing (ticket_files s)) 0) s"
  "phase_of s n = Reading [] k \<Longrightarrow> ticket s n = None \<Longrightarrow>
    advance h n s = go n (Numbering (k + 1)) (create_ticket n Partial s)"
  "phase_of s n = Numbering t \<Longrightarrow> ticket s n = Some e \<Longrightarrow>
    advance h n s = go n (Numbered t) (create_ticket n (Whole t) s)"
  "phase_of s n = Numbered t \<Longrightarrow> choosing s n = Some (Whole k) \<Longrightarrow>
    advance h n s = go n (Waiting t) (unlink_choosing n s)"
  "phase_of s n = Waiting t \<Longrightarrow>
    advance h n s = go n (Looking t (listing (choosing_files s)) False) s"
  "phase_of s n = Looking t [] False \<Longrightarrow>
    advance h n s = go n (Comparing t False (listing (ticket_files s)) []) s"
  by (simp_all add: advance_def)

lemma advance_late:
  "phase_of s n = Comparing t False (n # todo) seen \<Longrightarrow> ticket s n = Some (Whole k) \<Longrightarrow>
    n \<notin> set (cancelled_tickets s) \<Longrightarrow>
    advance h n s = go n (Comparing t False todo (seen @ [Turn k n])) s"
  "phase_of s n = Comparing t False [] seen \<Longrightarrow> set seen = {Turn t n} \<Longrightarrow>
    advance h n s = go n (Holding t) s"
  by (simp_all add: advance_def read_entry_def)

lemma leads_refl: "leads h n s s"
  unfolding leads_def by (rule exI [of _ 0]) simp

lemma leads_step: "leads h n (advance h n s) s' \<Longrightarrow> leads h n s s'"
  unfolding leads_def by (metis funpow_Suc_right comp_apply)

lemma leads_trans: "leads h n s u \<Longrightarrow> leads h n u v \<Longrightarrow> leads h n s v"
  unfolding leads_def by (metis funpow_add comp_apply)

lemma read_entry_None [simp]: "read_entry h s n c None m = Absent"
  by (simp add: read_entry_def)

lemma clear_cong:
  assumes "clear_for h n s" "\<And>m. m \<noteq> n \<Longrightarrow> phase_of s' m = phase_of s m"
    and "\<And>m. m \<noteq> n \<Longrightarrow> choosing s' m = choosing s m \<or> choosing s' m = None"
    and "\<And>m. m \<noteq> n \<Longrightarrow> ticket s' m = ticket s m \<or> ticket s' m = None"
    and "cancelled_choosing s' = cancelled_choosing s" "cancelled_tickets s' = cancelled_tickets s"
  shows "clear_for h n s'"
proof -
  have "read_entry h s' n c e m = read_entry h s n c e m" if "m \<noteq> n" for c e m
    using assms(2) [OF that] by (auto simp: read_entry_def split: option.splits entry.splits)
  then show ?thesis
    using assms unfolding clear_for_def by (metis read_entry_None insertI1)
qed

lemma clear_go [simp]: "clear_for h n (go n ph s) = clear_for h n s"
proof
  show "clear_for h n (go n ph s)" if "clear_for h n s" using that by (rule clear_cong) auto
  show "clear_for h n s" if "clear_for h n (go n ph s)" using that by (rule clear_cong) auto
qed

lemma advance_removes:
  "m \<noteq> n \<Longrightarrow> phase_of (advance h n s) m = phase_of s m"
  "m \<noteq> n \<Longrightarrow> choosing (advance h n s) m \<in> {choosing s m, None}"
  "m \<noteq> n \<Longrightarrow> ticket (advance h n s) m \<in> {ticket s m, None}"
  "cancelled_choosing (advance h n s) = cancelled_choosing s"
  "cancelled_tickets (advance h n s) = cancelled_tickets s"
proof -
  have "(m \<noteq> n \<longrightarrow> phase_of (advance h n s) m = phase_of s m
      \<and> choosing (advance h n s) m \<in> {choosing s m, None} \<and> ticket (advance h n s) m \<in> {ticket s m, None})
      \<and> cancelled_choosing (advance h n s) = cancelled_choosing s
      \<and> cancelled_tickets (advance h n s) = cancelled_tickets s"
  proof (cases "phase_of s n" rule: phase.exhaust)
    case (Comparing t found todo seen)
    then show ?thesis by (cases todo) (auto simp: advance_def split: reading.splits)
  next
    case (Looking t todo found)
    then show ?thesis by (cases todo) (auto simp: advance_def split: reading.splits)
  next
    case (Reading todo k)
    then show ?thesis by (cases todo) (auto simp: advance_def split: reading.splits option.splits)
  qed (auto simp: advance_def split: option.splits entry.splits)
  then show "m \<noteq> n \<Longrightarrow> phase_of (advance h n s) m = phase_of s m"
    "m \<noteq> n \<Longrightarrow> choosing (advance h n s) m \<in> {choosing s m, None}"
    "m \<noteq> n \<Longrightarrow> ticket (advance h n s) m \<in> {ticket s m, None}"
    "cancelled_choosing (advance h n s) = cancelled_choosing s"
    "cancelled_tickets (advance h n s) = cancelled_tickets s" by auto
qed

lemma advance_clear: "clear_for h n s \<Longrightarrow> clear_for h n (advance h n s)"
  by (erule clear_cong) (use advance_removes(1-3) [of _ n h s] advance_removes(4,5) [of h n s] in auto)

lemma read_all:
  assumes "clear_for h n s" "phase_of s n = Reading todo 0" "ticket s n = None" "choosing s n = Some (Whole 0)"
  shows "\<exists>s'. leads h n s s' \<and> clear_for h n s' \<and> phase_of s' n = Reading [] 0
     \<and> ticket s' n = None \<and> choosing s' n = Some (Whole 0)"
  using assms
proof (induction todo arbitrary: s)
  case Nil
  then show ?case using leads_refl by blast
next
  case (Cons m todo)
  have "read_entry h s n (cancelled_tickets s) (ticket s m) m \<in> {Absent, Discard}"
    using Cons.prems(1,3) by (cases "m = n") (auto simp: clear_for_def)
  then have "phase_of (advance h n s) n = Reading todo 0" "ticket (advance h n s) n = None"
    "choosing (advance h n s) n = Some (Whole 0)"
    using Cons.prems by (auto simp: advance_def)
  then show ?case using Cons.IH advance_clear [OF Cons.prems(1)] leads_step by blast
qed

lemma look_all:
  assumes "clear_for h n s" "phase_of s n = Looking t todo False" "ticket s n = Some (Whole t)" "choosing s n = None"
  shows "\<exists>s'. leads h n s s' \<and> clear_for h n s' \<and> phase_of s' n = Looking t [] False
     \<and> ticket s' n = Some (Whole t)"
  using assms
proof (induction todo arbitrary: s)
  case Nil
  then show ?case using leads_refl by blast
next
  case (Cons m todo)
  have "read_entry h s n (cancelled_choosing s) (choosing s m) m \<in> {Absent, Discard}"
    using Cons.prems(1,4) by (cases "m = n") (auto simp: clear_for_def)
  then have "phase_of (advance h n s) n = Looking t todo False" "ticket (advance h n s) n = Some (Whole t)"
    "choosing (advance h n s) n = None"
    using Cons.prems by (auto simp: advance_def)
  then show ?case using Cons.IH advance_clear [OF Cons.prems(1)] leads_step by blast
qed

lemma compare_all:
  assumes "clear_for h n s" "phase_of s n = Comparing t False todo seen" "ticket s n = Some (Whole t)"
    and "set seen \<subseteq> {Turn t n}" "n \<in> set todo \<or> seen \<noteq> []"
  shows "\<exists>s' seen'. leads h n s s' \<and> phase_of s' n = Comparing t False [] seen' \<and> set seen' = {Turn t n}"
  using assms
proof (induction todo arbitrary: s seen)
  case Nil
  then have "set seen = {Turn t n}" by (cases seen) auto
  then show ?case using leads_refl [of h n s] Nil.prems(2) by blast
next
  case (Cons m todo)
  let ?r = "read_entry h s n (cancelled_tickets s) (ticket s m) m"
  have c: "clear_for h n (advance h n s)" by (rule advance_clear [OF Cons.prems(1)])
  show ?case
  proof (cases "m = n")
    case True
    then have "?r = Present t"
      using Cons.prems(1,3) by (simp add: read_entry_def clear_for_def)
    then have adv: "phase_of (advance h n s) n = Comparing t False todo (seen @ [Turn t n])"
      "ticket (advance h n s) n = Some (Whole t)"
      using Cons.prems(2,3) True by (simp_all add: advance_def)
    have "set (seen @ [Turn t n]) \<subseteq> {Turn t n}" using Cons.prems(4) by auto
    from Cons.IH [OF c adv this] show ?thesis by (auto intro: leads_step)
  next
    case False
    then have "?r \<in> {Absent, Discard}" using Cons.prems(1) by (auto simp: clear_for_def)
    then have "phase_of (advance h n s) n = Comparing t False todo seen"
      "ticket (advance h n s) n = Some (Whole t)"
      using Cons.prems(2,3) False by (auto simp: advance_def)
    from Cons.IH [OF c this Cons.prems(4)] Cons.prems(5) False show ?thesis by (auto intro: leads_step)
  qed
qed

text \<open>
  C21: The guard of a dead holder does not block. An attempt that finds only files it may remove - of
  processes on its host that are dead, whether they held the guard or died on the way, and of
  attempts that were cancelled - obtains the guard by its own steps.
\<close>

theorem guard_obtained:
  assumes "clear_for same_host n s" "phase_of s n = Outside" "choosing s n = None" "ticket s n = None"
  shows "\<exists>k. phase_of ((advance same_host n ^^ k) s) n = Holding 1"
proof -
  let ?a = "advance same_host n"
  define s1 where "s1 = go n Announcing (create_choosing n Partial s)"
  define s2 where "s2 = go n Announced (create_choosing n (Whole 0) s1)"
  define s3 where "s3 = go n (Reading (listing (ticket_files s2)) 0) s2"
  have s1: "?a s = s1" using assms(2,3) by (simp add: s1_def advance_early(1))
  have s2: "?a s1 = s2" unfolding s2_def by (rule advance_early(2)) (simp_all add: s1_def)
  have s3: "?a s2 = s3" unfolding s3_def by (rule advance_early(3)) (simp add: s2_def)
  have c3: "clear_for same_host n s3"
    unfolding s3 [symmetric] s2 [symmetric] s1 [symmetric] by (intro advance_clear assms(1))
  have "phase_of s3 n = Reading (listing (ticket_files s2)) 0" "ticket s3 n = None"
    "choosing s3 n = Some (Whole 0)"
    using assms(4) by (simp_all add: s3_def s2_def s1_def)
  then obtain u where u: "leads same_host n s3 u" "clear_for same_host n u" "phase_of u n = Reading [] 0"
    "ticket u n = None" "choosing u n = Some (Whole 0)"
    using read_all [OF c3] by blast
  define u1 where "u1 = go n (Numbering (0 + 1)) (create_ticket n Partial u)"
  define u2 where "u2 = go n (Numbered 1) (create_ticket n (Whole 1) u1)"
  define u3 where "u3 = go n (Waiting 1) (unlink_choosing n u2)"
  define u4 where "u4 = go n (Looking 1 (listing (choosing_files u3)) False) u3"
  have u1: "?a u = u1" unfolding u1_def by (rule advance_early(4)) (simp_all add: u)
  have u2: "?a u1 = u2" unfolding u2_def by (rule advance_early(5)) (simp_all add: u1_def)
  have u3: "?a u2 = u3" unfolding u3_def by (rule advance_early(6)) (simp_all add: u2_def u1_def u)
  have u4: "?a u3 = u4" unfolding u4_def by (rule advance_early(7)) (simp add: u3_def)
  have c4: "clear_for same_host n u4"
    unfolding u4 [symmetric] u3 [symmetric] u2 [symmetric] u1 [symmetric] by (intro advance_clear u(2))
  have "phase_of u4 n = Looking 1 (listing (choosing_files u3)) False"
    "ticket u4 n = Some (Whole 1)" "choosing u4 n = None"
    by (simp_all add: u4_def u3_def u2_def u1_def)
  then obtain v where v: "leads same_host n u4 v" "clear_for same_host n v" "phase_of v n = Looking 1 [] False"
    "ticket v n = Some (Whole 1)"
    using look_all [OF c4] by blast
  have av: "phase_of (?a v) n = Comparing 1 False (listing (ticket_files v)) []" "ticket (?a v) n = Some (Whole 1)"
    using v(3,4) by (simp_all add: advance_def)
  have "n \<in> set (listing (ticket_files v))" using v(4) by simp
  then obtain x seen where x: "leads same_host n (?a v) x" "phase_of x n = Comparing 1 False [] seen"
    "set seen = {Turn 1 n}"
    using compare_all [OF advance_clear [OF v(2)] av(1,2)] by auto
  have "phase_of (?a x) n = Holding 1" using x(2,3) by (simp add: advance_def)
  moreover have "leads same_host n s (?a x)"
  proof -
    have "leads same_host n x (?a x)" by (rule leads_step [OF leads_refl])
    then have "leads same_host n v (?a x)" using leads_trans [OF x(1)] by (blast intro: leads_step)
    then have "leads same_host n u4 (?a x)" by (rule leads_trans [OF v(1)])
    then have "leads same_host n u (?a x)"
      using leads_step [of same_host n] unfolding u4 [symmetric] u3 [symmetric] u2 [symmetric] u1 [symmetric] by blast
    then have "leads same_host n s3 (?a x)" by (rule leads_trans [OF u(1)])
    then show ?thesis
      using leads_step [of same_host n] unfolding s3 [symmetric] s2 [symmetric] s1 [symmetric] by blast
  qed
  ultimately show ?thesis unfolding leads_def by metis
qed

section \<open>The guard as a mutex\<close>

text \<open>What the operations that run under the guard rely on: at most one attempt holds it, and an
  attempt that comes to hold it was under way before.\<close>

locale mutex =
  fixes step :: "'g \<Rightarrow> 'g \<Rightarrow> bool" and start :: 'g
    and holds :: "'g \<Rightarrow> string \<Rightarrow> bool" and waits :: "'g \<Rightarrow> string \<Rightarrow> bool"
  assumes alone: "step\<^sup>*\<^sup>* start g \<Longrightarrow> holds g p \<Longrightarrow> holds g q \<Longrightarrow> p = q"
    and entered: "step g g' \<Longrightarrow> holds g' n \<Longrightarrow> holds g n \<or> waits g n"
    and waited: "step g g' \<Longrightarrow> waits g' n \<Longrightarrow> waits g n"
begin

lemma only_holder: "step\<^sup>*\<^sup>* start g \<Longrightarrow> holds g p \<Longrightarrow> P p \<Longrightarrow> \<forall>n. holds g n \<longrightarrow> P n"
  using alone by blast

lemma assertions_step:
  assumes "step g g'" "\<forall>n. waits g n \<longrightarrow> E n" "\<forall>n. holds g n \<longrightarrow> H n" "\<And>n. E n \<Longrightarrow> H n"
  shows "(\<forall>n. waits g' n \<longrightarrow> E n) \<and> (\<forall>n. holds g' n \<longrightarrow> H n)"
  using assms entered waited by blast

end

definition holding :: "guard_state \<Rightarrow> string \<Rightarrow> bool" where
  "holding s n \<longleftrightarrow> (\<exists>t. phase_of s n = Holding t)"

definition under_way :: "guard_state \<Rightarrow> string \<Rightarrow> bool" where
  "under_way s n \<longleftrightarrow> running (phase_of s n)"

lemma guard_step_phase:
  assumes "guard_step same_host s s'"
  shows "running (phase_of s' n) \<Longrightarrow> running (phase_of s n)"
    and "phase_of s' n = Holding t \<Longrightarrow> phase_of s n = Holding t \<or> running (phase_of s n)"
proof -
  have "phase_of s' n = phase_of s n \<or> running (phase_of s n) \<or> phase_of s' n \<in> {Gone, Dead}"
    using assms
  proof (cases rule: guard_step.cases)
    case (advances m)
    then show ?thesis by (cases "m = n") (auto simp: advance_removes(1))
  next
    case (leaves m t)
    then show ?thesis by (cases "m = n") (auto simp: leave_def go_def split: option.splits entry.splits)
  qed (auto simp: quit_def quit_cancelled_def leave_cancelled_def go_def Let_def split: option.splits entry.splits)
  then show "running (phase_of s' n) \<Longrightarrow> running (phase_of s n)"
    and "phase_of s' n = Holding t \<Longrightarrow> phase_of s n = Holding t \<or> running (phase_of s n)"
    by (auto simp: running_def)
qed

interpretation guard: mutex "guard_step same_host" fresh_guard holding under_way
proof
  show "p = q" if "(guard_step same_host)\<^sup>*\<^sup>* fresh_guard g" "holding g p" "holding g q" for g p q
    using that at_most_one_holder unfolding holding_def by blast
qed (use guard_step_phase in \<open>unfold holding_def under_way_def, blast+\<close>)

section \<open>Examples\<close>

definition example_guard :: guard_state where
  "example_guard = (advance (\<lambda>_ _. True) ''a'' ^^ 10) fresh_guard"

lemma example_guard_reached: "(guard_step (\<lambda>_ _. True))\<^sup>*\<^sup>* fresh_guard ((advance (\<lambda>_ _. True) n ^^ k) fresh_guard)"
proof (induction k)
  case (Suc k)
  let ?s = "(advance (\<lambda>_ _. True) n ^^ k) fresh_guard"
  have "advance (\<lambda>_ _. True) n ?s = ?s" if "\<not> running (phase_of ?s n)"
    using that by (auto simp: running_def advance_def split: phase.splits)
  then show ?case
    using Suc guard_step.advances [of ?s n "\<lambda>_ _. True"]
    by (cases "running (phase_of ?s n)") (auto intro: rtranclp.rtrancl_into_rtrancl)
qed simp

lemma example_guard_is:
  "example_guard = \<lparr>choosing_files = [], ticket_files = [(''a'', Whole 1)], cancelled_choosing = [],
     cancelled_tickets = [], phase_of = (\<lambda>_. Outside)(''a'' := Holding 1)\<rparr>"
  by (simp add: example_guard_def fresh_guard_def eval_nat_numeral advance_early advance_late
      listing_def create_choosing_def create_ticket_def unlink_choosing_def unlink_ticket_def go_def)

lemma example_guard_held: "phase_of example_guard ''a'' = Holding 1"
  by (simp add: example_guard_is)

theorem guard_exclusive_witness: "{q. \<exists>u. phase_of example_guard q = Holding u} = {''a''}"
  using guard_exclusive [OF example_guard_reached] example_guard_held
  unfolding example_guard_def by blast

theorem guard_obtained_witness:
  "\<exists>k. phase_of ((advance (\<lambda>_ _. True) ''b'' ^^ k) (go ''a'' Dead example_guard)) ''b'' = Holding 1"
proof (rule guard_obtained)
  show "clear_for (\<lambda>_ _. True) ''b'' (go ''a'' Dead example_guard)"
    by (simp add: clear_for_def read_entry_def go_def example_guard_is)
qed (simp_all add: example_guard_is)

end
