(* ===== verification/ContextLock.thy ===== *)
theory ContextLock
  imports Intent GuardLaws
begin

text \<open>
  The context lock (\<open>ContextLock\<close> of \<open>adapters/filesystem/lock.py\<close>): the owner record in
  \<open>98_state/lock.json\<close>, how a session acquires, refreshes and releases it, and how it takes over the
  lock of a session that is gone. The body of each operation runs while the session holds the
  mutation guard; here it is a sequence of system calls that the calls of other sessions may
  interleave with, and the guard's own steps (\<open>MutationGuard\<close>) are part of the run.

  What the calls are told from outside is an argument of each step: the clock, whether a process is
  alive, fresh random nonces, inode numbers. A date is the number of microseconds since the epoch in
  UTC; \<open>read_utc\<close> and \<open>show_utc\<close> stand for \<open>datetime.fromisoformat\<close> with the conversion to UTC
  (\<open>None\<close> when it raises or the text has no time zone) and for \<open>isoformat\<close>.
\<close>

section \<open>Owner metadata\<close>

record date_text =
  read_utc :: "string \<Rightarrow> int option"
  show_utc :: "int \<Rightarrow> string"

record lock_metadata =
  lm_pid :: int
  lm_hostname :: string
  lm_session_id :: string
  lm_tool_version :: string
  lm_acquired_at :: int
  lm_heartbeat_at :: int
  lm_nonce :: string

definition lock_fields :: "string list" where
  "lock_fields = [''pid'', ''hostname'', ''session_id'', ''tool_version'', ''acquired_at'',
     ''heartbeat_at'', ''nonce'']"

definition lock_to_dict :: "date_text \<Rightarrow> lock_metadata \<Rightarrow> json" where
  "lock_to_dict d m = JObj
     [(''pid'', JInt (lm_pid m)),
      (''hostname'', JStr (lm_hostname m)),
      (''session_id'', JStr (lm_session_id m)),
      (''tool_version'', JStr (lm_tool_version m)),
      (''acquired_at'', JStr (show_utc d (lm_acquired_at m))),
      (''heartbeat_at'', JStr (show_utc d (lm_heartbeat_at m))),
      (''nonce'', JStr (lm_nonce m))]"

definition lock_string :: "json option \<Rightarrow> exn + string" where
  "lock_string v =
     (case v of Some (JStr s) \<Rightarrow> if s = [] then Inl Value_error else Inr s | _ \<Rightarrow> Inl Value_error)"

definition parse_utc :: "date_text \<Rightarrow> json option \<Rightarrow> exn + int" where
  "parse_utc d v =
     bind_result (lock_string v) (\<lambda>raw.
       case read_utc d raw of None \<Rightarrow> Inl Value_error | Some t \<Rightarrow> Inr t)"

text \<open>\<open>json.loads\<close> keeps the last of the pairs with one key.\<close>

definition lock_from_dict :: "date_text \<Rightarrow> json \<Rightarrow> exn + lock_metadata" where
  "lock_from_dict d v =
     (case v of
        JObj ps \<Rightarrow>
          (let f = map_of (rev ps) in
           if set (map fst ps) \<noteq> set lock_fields then Inl Value_error
           else case f ''pid'' of
             Some (JInt pid) \<Rightarrow>
               if pid \<le> 0 then Inl Value_error
               else bind_result (lock_string (f ''hostname'')) (\<lambda>hostname.
                 bind_result (lock_string (f ''session_id'')) (\<lambda>session_id.
                 bind_result (lock_string (f ''tool_version'')) (\<lambda>tool_version.
                 bind_result (parse_utc d (f ''acquired_at'')) (\<lambda>acquired_at.
                 bind_result (parse_utc d (f ''heartbeat_at'')) (\<lambda>heartbeat_at.
                 bind_result (lock_string (f ''nonce'')) (\<lambda>nonce.
                   if \<not> is_nonce nonce then Inl Value_error
                   else Inr \<lparr>lm_pid = pid, lm_hostname = hostname, lm_session_id = session_id,
                     lm_tool_version = tool_version, lm_acquired_at = acquired_at,
                     lm_heartbeat_at = heartbeat_at, lm_nonce = nonce\<rparr>))))))
           | _ \<Rightarrow> Inl Value_error)
      | _ \<Rightarrow> Inl Value_error)"

section \<open>Snapshots\<close>

text \<open>What a read of a file returns. The payload is \<open>None\<close> when it is not a JSON text, as in a file
  that was created and not yet written.\<close>

record snapshot =
  sn_payload :: "json option"
  sn_mtime :: int
  sn_file_id :: nat

definition decode_metadata :: "date_text \<Rightarrow> json option \<Rightarrow> exn + lock_metadata" where
  "decode_metadata d p = (case p of None \<Rightarrow> Inl Value_error | Some j \<Rightarrow> lock_from_dict d j)"

text \<open>\<open>_verify_lock_fence_at_path\<close>, on what the lock path holds.\<close>

definition fence_at_path :: "date_text \<Rightarrow> snapshot option \<Rightarrow> string \<Rightarrow> exn + lock_metadata" where
  "fence_at_path d file expected =
     (case file of
        None \<Rightarrow> Inl Lock_fence
      | Some s \<Rightarrow>
          (case decode_metadata d (sn_payload s) of
             Inl e \<Rightarrow> Inl Lock_fence
           | Inr m \<Rightarrow> if lm_nonce m \<noteq> expected then Inl Lock_fence else Inr m))"

datatype lock_reason =
    Absent_lock
  | Unparseable_expired
  | Unparseable_recent
  | Heartbeat_expired
  | Pid_missing
  | Active_lock

record inspection =
  in_exists :: bool
  in_stale :: bool
  in_reason :: lock_reason
  in_metadata :: "lock_metadata option"

text \<open>What a process sees around it: the clock, its host and pid, which pids are alive, and the
  random or file-system values its next calls obtain.\<close>

record surroundings =
  sr_now :: int
  sr_pid :: int
  sr_host :: string
  sr_alive :: "int \<Rightarrow> bool"
  sr_session :: string
  sr_version :: string
  sr_stamp :: string
  sr_nonce :: string
  sr_inode :: nat

definition inspect_snapshot :: "date_text \<Rightarrow> int \<Rightarrow> surroundings \<Rightarrow> snapshot \<Rightarrow> inspection" where
  "inspect_snapshot d stale_after e s =
     (case decode_metadata d (sn_payload s) of
        Inl err \<Rightarrow>
          (let stale = sr_now e - sn_mtime s > stale_after in
           \<lparr>in_exists = True, in_stale = stale,
            in_reason = (if stale then Unparseable_expired else Unparseable_recent), in_metadata = None\<rparr>)
      | Inr m \<Rightarrow>
          if sr_now e - lm_heartbeat_at m > stale_after then
            \<lparr>in_exists = True, in_stale = True, in_reason = Heartbeat_expired, in_metadata = Some m\<rparr>
          else if lm_hostname m = sr_host e \<and> \<not> sr_alive e (lm_pid m) then
            \<lparr>in_exists = True, in_stale = True, in_reason = Pid_missing, in_metadata = Some m\<rparr>
          else \<lparr>in_exists = True, in_stale = False, in_reason = Active_lock, in_metadata = Some m\<rparr>)"

definition inspect_context_lock ::
  "date_text \<Rightarrow> int \<Rightarrow> surroundings \<Rightarrow> snapshot option \<Rightarrow> inspection" where
  "inspect_context_lock d stale_after e file =
     (case file of
        None \<Rightarrow> \<lparr>in_exists = False, in_stale = False, in_reason = Absent_lock, in_metadata = None\<rparr>
      | Some s \<Rightarrow> inspect_snapshot d stale_after e s)"

section \<open>Operations under the guard\<close>

datatype job = Acquire | Heartbeat lock_metadata | Release string

datatype lock_outcome =
    Acquired lock_metadata
  | Refreshed lock_metadata
  | Released string
  | Failed

text \<open>Where the body of an operation is; each constructor names the system call that comes next. The
  number counts the attempts of \<open>acquire\<close> that are left.\<close>

datatype site =
    Entry
  | Attempt nat
  | Filling lock_metadata nat
  | Filled lock_metadata
  | Found nat
  | Confirming nat snapshot
  | Linking nat snapshot string nat
  | Checking nat snapshot string
  | Rechecking nat snapshot string "snapshot option"
  | Dropping nat string snapshot
  | Dropped nat string
  | Unlinking nat
  | Truncating lock_metadata
  | Refilling lock_metadata
  | Beating lock_metadata
  | Replacing lock_metadata
  | Removing string
  | Finished lock_outcome

record lock_world =
  lk_guard :: guard_state
  lk_file :: "snapshot option"
  lk_tmp :: "snapshot option"
  lk_archives :: "(string \<times> snapshot) list"
  lk_drawn :: "string list"
  lk_job :: "string \<Rightarrow> job"
  lk_site :: "string \<Rightarrow> site"

definition at_site :: "string \<Rightarrow> site \<Rightarrow> lock_world \<Rightarrow> lock_world" where
  "at_site n x w = w\<lparr>lk_site := (lk_site w)(n := x)\<rparr>"

definition archive_name :: "string \<Rightarrow> nat \<Rightarrow> string" where
  "archive_name stamp i =
     ''lock.stale-'' @ stamp @ (if i = 0 then [] else ''-'' @ digits i) @ ''.json''"

definition new_lease :: "surroundings \<Rightarrow> lock_metadata" where
  "new_lease e = \<lparr>lm_pid = sr_pid e, lm_hostname = sr_host e, lm_session_id = sr_session e,
     lm_tool_version = sr_version e, lm_acquired_at = sr_now e, lm_heartbeat_at = sr_now e,
     lm_nonce = sr_nonce e\<rparr>"

text \<open>\<open>_write_exclusive\<close> of the lock file: the exclusive creation, then the write through the
  descriptor, which reaches the path only while the path still has that file.\<close>

definition create_lock :: "surroundings \<Rightarrow> lock_world \<Rightarrow> lock_world" where
  "create_lock e w =
     w\<lparr>lk_file := Some \<lparr>sn_payload = None, sn_mtime = sr_now e, sn_file_id = sr_inode e\<rparr>\<rparr>"

definition fill_lock :: "date_text \<Rightarrow> surroundings \<Rightarrow> lock_metadata \<Rightarrow> nat \<Rightarrow> lock_world \<Rightarrow> lock_world" where
  "fill_lock d e m i w =
     (case lk_file w of
        Some s \<Rightarrow>
          if sn_file_id s = i
          then w\<lparr>lk_file := Some (s\<lparr>sn_payload := Some (lock_to_dict d m), sn_mtime := sr_now e\<rparr>)\<rparr>
          else w
      | None \<Rightarrow> w)"

text \<open>The loop of \<open>acquire\<close> and \<open>_archive_if_unchanged\<close>.\<close>

definition acquire_step ::
  "date_text \<Rightarrow> int \<Rightarrow> surroundings \<Rightarrow> string \<Rightarrow> site \<Rightarrow> lock_world \<Rightarrow> lock_world" where
  "acquire_step d stale_after e n x w =
     (case x of
        Attempt 0 \<Rightarrow> at_site n (Finished Failed) w
      | Attempt (Suc k) \<Rightarrow>
          (let w1 = w\<lparr>lk_drawn := sr_nonce e # lk_drawn w\<rparr> in
           case lk_file w of
             None \<Rightarrow> at_site n (Filling (new_lease e) (sr_inode e)) (create_lock e w1)
           | Some _ \<Rightarrow> at_site n (Found k) w1)
      | Filling m i \<Rightarrow> at_site n (Filled m) (fill_lock d e m i w)
      | Filled m \<Rightarrow> at_site n (Finished (Acquired m)) w
      | Found k \<Rightarrow>
          (case lk_file w of
             None \<Rightarrow> at_site n (Attempt k) w
           | Some s \<Rightarrow>
               if in_stale (inspect_snapshot d stale_after e s) then at_site n (Confirming k s) w
               else at_site n (Finished Failed) w)
      | Confirming k s \<Rightarrow>
          (if lk_file w = Some s \<and> in_stale (inspect_snapshot d stale_after e s)
           then at_site n (Linking k s (sr_stamp e) 0) w
           else at_site n (Attempt k) w)
      | Linking k s stamp i \<Rightarrow>
          (if i \<ge> 1000 then at_site n (Finished Failed) w
           else case lk_file w of
             None \<Rightarrow> at_site n (Attempt k) w
           | Some f \<Rightarrow>
               let name = archive_name stamp i in
               if name \<in> fst ` set (lk_archives w) then at_site n (Linking k s stamp (i + 1)) w
               else at_site n (Checking k s name) (w\<lparr>lk_archives := (name, f) # lk_archives w\<rparr>))
      | Checking k s name \<Rightarrow> at_site n (Rechecking k s name (map_of (lk_archives w) name)) w
      | Rechecking k s name archived \<Rightarrow>
          (if archived = Some s \<and> lk_file w = Some s then at_site n (Unlinking k) w
           else case archived of
             None \<Rightarrow> at_site n (Attempt k) w
           | Some a \<Rightarrow> at_site n (Dropping k name a) w)
      | Dropping k name a \<Rightarrow>
          (if map_of (lk_archives w) name = Some a then at_site n (Dropped k name) w
           else at_site n (Attempt k) w)
      | Dropped k name \<Rightarrow>
          at_site n (Attempt k) (w\<lparr>lk_archives := AList.delete name (lk_archives w)\<rparr>)
      | Unlinking k \<Rightarrow>
          (case lk_file w of
             None \<Rightarrow> at_site n (Finished Failed) w
           | Some s \<Rightarrow> at_site n (Attempt k) (w\<lparr>lk_file := None\<rparr>))
      | _ \<Rightarrow> w)"

text \<open>\<open>heartbeat\<close>: the record is written to \<open>lock.json.tmp\<close>, the fence checked again and the file
  moved over the lock.\<close>

definition heartbeat_step ::
  "date_text \<Rightarrow> surroundings \<Rightarrow> string \<Rightarrow> site \<Rightarrow> lock_world \<Rightarrow> lock_world" where
  "heartbeat_step d e n x w =
     (case x of
        Truncating r \<Rightarrow>
          at_site n (Refilling r)
            (w\<lparr>lk_tmp := Some \<lparr>sn_payload = None, sn_mtime = sr_now e,
               sn_file_id = (case lk_tmp w of None \<Rightarrow> sr_inode e | Some s \<Rightarrow> sn_file_id s)\<rparr>\<rparr>)
      | Refilling r \<Rightarrow>
          at_site n (Beating r)
            (w\<lparr>lk_tmp := map_option (sn_payload_update (\<lambda>_. Some (lock_to_dict d r))) (lk_tmp w)\<rparr>)
      | Beating r \<Rightarrow>
          (case fence_at_path d (lk_file w) (lm_nonce r) of
             Inl err \<Rightarrow> at_site n (Finished Failed) w
           | Inr m \<Rightarrow> at_site n (Replacing r) w)
      | Replacing r \<Rightarrow>
          (case lk_tmp w of
             None \<Rightarrow> at_site n (Finished Failed) w
           | Some s \<Rightarrow> at_site n (Finished (Refreshed r)) (w\<lparr>lk_file := Some s, lk_tmp := None\<rparr>))
      | _ \<Rightarrow> w)"

definition release_step :: "string \<Rightarrow> site \<Rightarrow> lock_world \<Rightarrow> lock_world" where
  "release_step n x w =
     (case x of
        Removing nonce \<Rightarrow>
          (case lk_file w of
             None \<Rightarrow> at_site n (Finished Failed) w
           | Some s \<Rightarrow> at_site n (Finished (Released nonce)) (w\<lparr>lk_file := None\<rparr>))
      | _ \<Rightarrow> w)"

text \<open>The first statement of each body.\<close>

definition enter_body :: "date_text \<Rightarrow> surroundings \<Rightarrow> string \<Rightarrow> lock_world \<Rightarrow> lock_world" where
  "enter_body d e n w =
     (case lk_job w n of
        Acquire \<Rightarrow> at_site n (Attempt 32) w
      | Heartbeat m \<Rightarrow>
          (case fence_at_path d (lk_file w) (lm_nonce m) of
             Inl err \<Rightarrow> at_site n (Finished Failed) w
           | Inr _ \<Rightarrow> at_site n (Truncating (m\<lparr>lm_heartbeat_at := sr_now e\<rparr>)) w)
      | Release nonce \<Rightarrow>
          (case fence_at_path d (lk_file w) nonce of
             Inl err \<Rightarrow> at_site n (Finished Failed) w
           | Inr _ \<Rightarrow> at_site n (Removing nonce) w))"

definition body_step ::
  "date_text \<Rightarrow> int \<Rightarrow> surroundings \<Rightarrow> string \<Rightarrow> lock_world \<Rightarrow> lock_world" where
  "body_step d stale_after e n w =
     (case lk_site w n of
        Entry \<Rightarrow> enter_body d e n w
      | Finished r \<Rightarrow> w
      | x \<Rightarrow>
          (case lk_job w n of
             Acquire \<Rightarrow> acquire_step d stale_after e n x w
           | Heartbeat m \<Rightarrow> heartbeat_step d e n x w
           | Release nonce \<Rightarrow> release_step n x w))"

section \<open>Runs\<close>

text \<open>A host has a name and a process a pid; \<open>acquire\<close> refuses an empty session or version.\<close>

definition surroundings_ok :: "surroundings \<Rightarrow> bool" where
  "surroundings_ok e \<longleftrightarrow> 0 < sr_pid e \<and> sr_host e \<noteq> [] \<and> sr_session e \<noteq> [] \<and> sr_version e \<noteq> []
     \<and> is_nonce (sr_nonce e)"

definition is_finished :: "site \<Rightarrow> bool" where
  "is_finished x \<longleftrightarrow> (case x of Finished r \<Rightarrow> True | _ \<Rightarrow> False)"

definition is_creating :: "site \<Rightarrow> bool" where
  "is_creating x \<longleftrightarrow> (case x of Filling m i \<Rightarrow> True | Filled m \<Rightarrow> True | _ \<Rightarrow> False)"

text \<open>
  A step of the whole: one of the guard, where an attempt leaves a held guard only when its body is
  over; one of the body of the attempt that holds the guard; a refused move of the heartbeat, which
  checks the fence again; an exception in a body, after which a lock file that was being created is
  removed, unless that fails as well. The nonces a body draws have not been drawn before.
\<close>

inductive lock_step ::
  "(string \<Rightarrow> string \<Rightarrow> bool) \<Rightarrow> date_text \<Rightarrow> int \<Rightarrow> lock_world \<Rightarrow> lock_world \<Rightarrow> bool"
  for same_host d stale_after where
  guards: "guard_step same_host (lk_guard w) g \<Longrightarrow>
    \<forall>n t. phase_of (lk_guard w) n = Holding t \<and> phase_of g n = Gone \<longrightarrow> is_finished (lk_site w n) \<Longrightarrow>
    lock_step same_host d stale_after w (w\<lparr>lk_guard := g\<rparr>)"
| works: "phase_of (lk_guard w) n = Holding t \<Longrightarrow> surroundings_ok e \<Longrightarrow> sr_nonce e \<notin> set (lk_drawn w) \<Longrightarrow>
    lock_step same_host d stale_after w (body_step d stale_after e n w)"
| denied: "phase_of (lk_guard w) n = Holding t \<Longrightarrow> lk_site w n = Replacing r \<Longrightarrow>
    lock_step same_host d stale_after w (at_site n (Beating r) w)"
| raises: "phase_of (lk_guard w) n = Holding t \<Longrightarrow> \<not> is_finished (lk_site w n) \<Longrightarrow>
    lock_step same_host d stale_after w (at_site n (Finished Failed) w)"
| cleans: "phase_of (lk_guard w) n = Holding t \<Longrightarrow> is_creating (lk_site w n) \<Longrightarrow>
    lock_step same_host d stale_after w (at_site n (Finished Failed) (w\<lparr>lk_file := None\<rparr>))"

definition lease_ok :: "lock_metadata \<Rightarrow> bool" where
  "lease_ok m \<longleftrightarrow> 0 < lm_pid m \<and> lm_hostname m \<noteq> [] \<and> lm_session_id m \<noteq> [] \<and> lm_tool_version m \<noteq> []
     \<and> is_nonce (lm_nonce m)"

text \<open>A context without a lock, and the operations that will be tried.\<close>

definition fresh_lock :: "(string \<Rightarrow> job) \<Rightarrow> lock_world" where
  "fresh_lock jobs = \<lparr>lk_guard = fresh_guard, lk_file = None, lk_tmp = None, lk_archives = [],
     lk_drawn = [], lk_job = jobs, lk_site = (\<lambda>_. Entry)\<rparr>"

end
