(* ===== verification/LockLaws.thy ===== *)
theory LockLaws
  imports ContextLock
begin

text \<open>
  The context lock under concurrent sessions: what holds at every point of an operation that runs
  under the mutation guard, and from it that a lease which has lost the lock never gets it back, and
  that a lock which was taken over is kept in an archive.
\<close>

section \<open>Whose lock it is\<close>

definition carries :: "date_text \<Rightarrow> string \<Rightarrow> snapshot option \<Rightarrow> bool" where
  "carries d x file \<longleftrightarrow> (\<exists>m. fence_at_path d file x = Inr m)"

lemma carries_None [simp]: "\<not> carries d x None"
  by (simp add: carries_def fence_at_path_def)

lemma carries_Some:
  "carries d x (Some s) \<longleftrightarrow> (\<exists>m. decode_metadata d (sn_payload s) = Inr m \<and> lm_nonce m = x)"
  by (auto simp: carries_def fence_at_path_def split: sum.splits)

lemma fence_carries: "fence_at_path d file x = Inr m \<Longrightarrow> carries d x file"
  by (auto simp: carries_def)

lemma fence_nonce: "fence_at_path d file x = Inr m \<Longrightarrow> lm_nonce m = x"
  by (auto simp: fence_at_path_def split: option.splits sum.splits if_splits)

lemma carries_unpayloaded [simp]: "sn_payload s = None \<Longrightarrow> \<not> carries d x (Some s)"
  by (simp add: carries_Some decode_metadata_def)

lemma carries_one: "carries d x file \<Longrightarrow> carries d y file \<Longrightarrow> x = y"
  by (cases "file") (auto simp: carries_Some)

lemma lock_dict_nonce:
  "lock_from_dict d (lock_to_dict d r) = Inr m \<Longrightarrow> lm_nonce m = lm_nonce r"
  by (auto simp: lock_from_dict_def lock_to_dict_def lock_string_def lock_fields_def result_simps Let_def
      split: if_splits)

lemma carries_written: "sn_payload s = Some (lock_to_dict d r) \<Longrightarrow> carries d x (Some s) \<Longrightarrow> x = lm_nonce r"
  by (auto simp: carries_Some decode_metadata_def dest: lock_dict_nonce)

definition dates_ok :: "date_text \<Rightarrow> bool" where
  "dates_ok d \<longleftrightarrow> (\<forall>t. show_utc d t \<noteq> [] \<and> read_utc d (show_utc d t) = Some t)"

lemma lock_dict_roundtrip:
  assumes "dates_ok d" "lease_ok m"
  shows "lock_from_dict d (lock_to_dict d m) = Inr m"
proof -
  have "lm_nonce m \<noteq> []" using assms(2) by (auto simp: lease_ok_def is_nonce_def)
  then show ?thesis
    using assms by (auto simp: lock_from_dict_def lock_to_dict_def lock_string_def lock_fields_def
        parse_utc_def dates_ok_def lease_ok_def Let_def)
qed

lemma writer_carries:
  "dates_ok d \<Longrightarrow> lease_ok r \<Longrightarrow> sn_payload s = Some (lock_to_dict d r) \<Longrightarrow> carries d (lm_nonce r) (Some s)"
  by (simp add: carries_Some decode_metadata_def lock_dict_roundtrip)

section \<open>At each point of a body\<close>

definition site_ok :: "date_text \<Rightarrow> lock_world \<Rightarrow> site \<Rightarrow> bool" where
  "site_ok d w x \<longleftrightarrow>
     (case x of
        Filling m i \<Rightarrow> \<exists>s. lk_file w = Some s \<and> sn_payload s = None \<and> sn_file_id s = i
      | Filled m \<Rightarrow> \<exists>s. lk_file w = Some s \<and> sn_payload s = Some (lock_to_dict d m)
      | Linking k s stamp i \<Rightarrow> lk_file w = Some s
      | Checking k s name \<Rightarrow> lk_file w = Some s \<and> map_of (lk_archives w) name = Some s
      | Rechecking k s name a \<Rightarrow> lk_file w = Some s \<and> map_of (lk_archives w) name = Some s \<and> a = Some s
      | Dropping k name a \<Rightarrow> False
      | Dropped k name \<Rightarrow> False
      | Unlinking k \<Rightarrow> \<exists>s name. lk_file w = Some s \<and> map_of (lk_archives w) name = Some s
      | Truncating r \<Rightarrow> carries d (lm_nonce r) (lk_file w)
      | Refilling r \<Rightarrow> carries d (lm_nonce r) (lk_file w) \<and> lk_tmp w \<noteq> None
      | Beating r \<Rightarrow> carries d (lm_nonce r) (lk_file w)
          \<and> (\<exists>s. lk_tmp w = Some s \<and> sn_payload s = Some (lock_to_dict d r))
      | Replacing r \<Rightarrow> carries d (lm_nonce r) (lk_file w)
          \<and> (\<exists>s. lk_tmp w = Some s \<and> sn_payload s = Some (lock_to_dict d r))
      | Removing nonce \<Rightarrow> carries d nonce (lk_file w)
      | _ \<Rightarrow> True)"

lemma at_site_simps [simp]:
  "lk_site (at_site n x w) = (lk_site w)(n := x)" "lk_file (at_site n x w) = lk_file w"
  "lk_tmp (at_site n x w) = lk_tmp w" "lk_archives (at_site n x w) = lk_archives w"
  "lk_drawn (at_site n x w) = lk_drawn w" "lk_job (at_site n x w) = lk_job w"
  "lk_guard (at_site n x w) = lk_guard w"
  by (simp_all add: at_site_def)

lemma create_lock_simps [simp]:
  "lk_site (create_lock e w) = lk_site w" "lk_archives (create_lock e w) = lk_archives w"
  "lk_drawn (create_lock e w) = lk_drawn w" "lk_job (create_lock e w) = lk_job w"
  "lk_guard (create_lock e w) = lk_guard w" "lk_tmp (create_lock e w) = lk_tmp w"
  by (simp_all add: create_lock_def)

lemma fill_lock_simps [simp]:
  "lk_site (fill_lock d e m i w) = lk_site w" "lk_archives (fill_lock d e m i w) = lk_archives w"
  "lk_drawn (fill_lock d e m i w) = lk_drawn w" "lk_job (fill_lock d e m i w) = lk_job w"
  "lk_guard (fill_lock d e m i w) = lk_guard w" "lk_tmp (fill_lock d e m i w) = lk_tmp w"
  by (simp_all add: fill_lock_def split: option.splits)

lemma acquire_site_ok:
  assumes "site_ok d w x" "lk_site w n = x"
  shows "site_ok d (acquire_step d a e n x w) (lk_site (acquire_step d a e n x w) n)"
proof (cases x)
  case (Attempt k)
  then show ?thesis
    using assms by (cases k) (auto simp: acquire_step_def site_ok_def create_lock_def Let_def split: option.splits)
qed (use assms in \<open>auto simp: acquire_step_def site_ok_def fill_lock_def Let_def split: option.splits\<close>)

lemma heartbeat_site_ok:
  assumes "site_ok d w x" "lk_site w n = x"
  shows "site_ok d (heartbeat_step d e n x w) (lk_site (heartbeat_step d e n x w) n)"
  using assms by (cases x) (auto simp: heartbeat_step_def site_ok_def fence_carries split: sum.splits)

lemma release_site_ok:
  assumes "site_ok d w x" "lk_site w n = x"
  shows "site_ok d (release_step n x w) (lk_site (release_step n x w) n)"
  using assms by (cases x) (auto simp: release_step_def site_ok_def split: option.splits)

lemma enter_site_ok: "site_ok d (enter_body d e n w) (lk_site (enter_body d e n w) n)"
  by (auto simp: enter_body_def site_ok_def split: job.splits sum.splits dest!: fence_carries)

lemma body_cases:
  obtains "body_step d a e n w = w" | "body_step d a e n w = enter_body d e n w"
  | "body_step d a e n w = acquire_step d a e n (lk_site w n) w"
  | "body_step d a e n w = heartbeat_step d e n (lk_site w n) w"
  | "body_step d a e n w = release_step n (lk_site w n) w"
  by (cases "lk_site w n"; cases "lk_job w n") (simp_all add: body_step_def)

lemma body_site_ok:
  assumes "site_ok d w (lk_site w n)"
  shows "site_ok d (body_step d a e n w) (lk_site (body_step d a e n w) n)"
  by (rule body_cases [of d a e n w])
    (use assms acquire_site_ok [OF assms refl] heartbeat_site_ok [OF assms refl] release_site_ok [OF assms refl]
      enter_site_ok in simp_all)

lemma site_ok_guard [simp]: "site_ok d (w\<lparr>lk_guard := g\<rparr>) x = site_ok d w x"
  by (simp add: site_ok_def split: site.splits)

section \<open>Frames\<close>

lemma body_frame:
  "lk_guard (body_step d a e n w) = lk_guard w" "lk_job (body_step d a e n w) = lk_job w"
  "m \<noteq> n \<Longrightarrow> lk_site (body_step d a e n w) m = lk_site w m"
  "set (lk_drawn w) \<subseteq> set (lk_drawn (body_step d a e n w))"
proof -
  have "lk_guard (acquire_step d a e n x w) = lk_guard w \<and> lk_job (acquire_step d a e n x w) = lk_job w
      \<and> (m \<noteq> n \<longrightarrow> lk_site (acquire_step d a e n x w) m = lk_site w m)
      \<and> set (lk_drawn w) \<subseteq> set (lk_drawn (acquire_step d a e n x w))" for x
    by (auto simp: acquire_step_def Let_def split: site.splits nat.splits option.splits)
  moreover have "lk_guard (heartbeat_step d e n x w) = lk_guard w \<and> lk_job (heartbeat_step d e n x w) = lk_job w
      \<and> (m \<noteq> n \<longrightarrow> lk_site (heartbeat_step d e n x w) m = lk_site w m)
      \<and> lk_drawn (heartbeat_step d e n x w) = lk_drawn w" for x
    by (auto simp: heartbeat_step_def split: site.splits sum.splits option.splits)
  moreover have "lk_guard (release_step n x w) = lk_guard w \<and> lk_job (release_step n x w) = lk_job w
      \<and> (m \<noteq> n \<longrightarrow> lk_site (release_step n x w) m = lk_site w m)
      \<and> lk_drawn (release_step n x w) = lk_drawn w" for x
    by (auto simp: release_step_def split: site.splits option.splits)
  moreover have "lk_guard (enter_body d e n w) = lk_guard w \<and> lk_job (enter_body d e n w) = lk_job w
      \<and> (m \<noteq> n \<longrightarrow> lk_site (enter_body d e n w) m = lk_site w m)
      \<and> lk_drawn (enter_body d e n w) = lk_drawn w"
    by (auto simp: enter_body_def split: job.splits sum.splits)
  ultimately show "lk_guard (body_step d a e n w) = lk_guard w" "lk_job (body_step d a e n w) = lk_job w"
    "m \<noteq> n \<Longrightarrow> lk_site (body_step d a e n w) m = lk_site w m"
    "set (lk_drawn w) \<subseteq> set (lk_drawn (body_step d a e n w))"
    by (rule_tac [!] body_cases [of d a e n w]) simp_all
qed

section \<open>The invariant\<close>

text \<open>The nonce of a lease that an attempt has created or is creating.\<close>

definition mints :: "site \<Rightarrow> string option" where
  "mints x =
     (case x of
        Filling m i \<Rightarrow> Some (lm_nonce m)
      | Filled m \<Rightarrow> Some (lm_nonce m)
      | Finished r \<Rightarrow> (case r of Acquired m \<Rightarrow> Some (lm_nonce m) | _ \<Rightarrow> None)
      | _ \<Rightarrow> None)"

definition lock_inv :: "(string \<Rightarrow> string \<Rightarrow> bool) \<Rightarrow> date_text \<Rightarrow> lock_world \<Rightarrow> bool" where
  "lock_inv same_host d w \<longleftrightarrow>
     (guard_step same_host)\<^sup>*\<^sup>* fresh_guard (lk_guard w)
     \<and> (\<forall>n. under_way (lk_guard w) n \<longrightarrow> lk_site w n = Entry)
     \<and> (\<forall>n. holding (lk_guard w) n \<longrightarrow> site_ok d w (lk_site w n))
     \<and> (\<forall>n x. mints (lk_site w n) = Some x \<longrightarrow> x \<in> set (lk_drawn w))
     \<and> (\<forall>n m x. mints (lk_site w n) = Some x \<and> mints (lk_site w m) = Some x \<longrightarrow> n = m)"

lemma body_mints:
  "mints (lk_site (body_step d a e n w) n) \<in> {None, mints (lk_site w n)}
   \<or> mints (lk_site (body_step d a e n w) n) = Some (sr_nonce e) \<and> sr_nonce e \<in> set (lk_drawn (body_step d a e n w))"
proof -
  have "mints (lk_site (acquire_step d a e n x w) n) \<in> {None, mints x}
      \<or> mints (lk_site (acquire_step d a e n x w) n) = Some (sr_nonce e)
        \<and> sr_nonce e \<in> set (lk_drawn (acquire_step d a e n x w))" if "lk_site w n = x" for x
    using that by (auto simp: acquire_step_def mints_def Let_def new_lease_def
        split: site.splits nat.splits option.splits)
  moreover have "mints (lk_site (heartbeat_step d e n x w) n) \<in> {None, mints x}" if "lk_site w n = x" for x
    using that by (auto simp: heartbeat_step_def mints_def split: site.splits sum.splits option.splits)
  moreover have "mints (lk_site (release_step n x w) n) \<in> {None, mints x}" if "lk_site w n = x" for x
    using that by (auto simp: release_step_def mints_def split: site.splits option.splits)
  moreover have "mints (lk_site (enter_body d e n w) n) = None"
    by (auto simp: enter_body_def mints_def split: job.splits sum.splits)
  ultimately show ?thesis
    by (rule_tac body_cases [of d a e n w]) auto
qed

lemma holding_site:
  assumes "lock_inv same_host d w" "phase_of (lk_guard w) n = Holding t"
  shows "site_ok d w (lk_site w n)" "\<not> under_way (lk_guard w) n"
    "holding (lk_guard w) m \<Longrightarrow> m = n"
  using assms guard.alone [of same_host "lk_guard w" m n]
  by (auto simp: lock_inv_def holding_def under_way_def running_def)

text \<open>A step of the body of the holder: the others are where they were, and none of them holds.\<close>

lemma inv_body:
  assumes "lock_inv same_host d w" "phase_of (lk_guard w) n = Holding t"
    and "lk_guard w' = lk_guard w" "\<And>m. m \<noteq> n \<Longrightarrow> lk_site w' m = lk_site w m"
    and "site_ok d w' (lk_site w' n)" "set (lk_drawn w) \<subseteq> set (lk_drawn w')"
    and "mints (lk_site w' n) \<in> {None, mints (lk_site w n)}
      \<or> (\<exists>x. mints (lk_site w' n) = Some x \<and> x \<in> set (lk_drawn w') - set (lk_drawn w))"
  shows "lock_inv same_host d w'"
proof -
  note h = holding_site [OF assms(1,2)]
  have inv: "(guard_step same_host)\<^sup>*\<^sup>* fresh_guard (lk_guard w)"
    "\<And>m. under_way (lk_guard w) m \<Longrightarrow> lk_site w m = Entry"
    "\<And>m x. mints (lk_site w m) = Some x \<Longrightarrow> x \<in> set (lk_drawn w)"
    "\<And>p m x. mints (lk_site w p) = Some x \<Longrightarrow> mints (lk_site w m) = Some x \<Longrightarrow> p = m"
    using assms(1) by (auto simp: lock_inv_def)
  have uw: "lk_site w' m = Entry" if "under_way (lk_guard w') m" for m
    using that h(2) inv(2) assms(3,4) by (cases "m = n") auto
  have ok: "site_ok d w' (lk_site w' m)" if "holding (lk_guard w') m" for m
    using h(3) [of m] that assms(3,5) by simp
  have dr: "x \<in> set (lk_drawn w')" if "mints (lk_site w' m) = Some x" for m x
    using that inv(3) assms(4,6,7) by (cases "m = n") auto
  have old: "mints (lk_site w p) = Some x" if "mints (lk_site w' p) = Some x" "x \<in> set (lk_drawn w)" for p x
    using that assms(4,7) by (cases "p = n") auto
  have un: "p = m" if "mints (lk_site w' p) = Some x" "mints (lk_site w' m) = Some x" for p m x
  proof (cases "x \<in> set (lk_drawn w)")
    case True
    then show ?thesis using old that inv(4) by blast
  next
    case False
    then have "p = n" "m = n" using that assms(4) inv(3) by metis+
    then show ?thesis by simp
  qed
  show ?thesis
    unfolding lock_inv_def using inv(1) uw ok dr un assms(3) by auto
qed

lemma inv_step:
  assumes "lock_inv same_host d w" "lock_step same_host d a w w'"
  shows "lock_inv same_host d w'"
  using assms(2)
proof (cases rule: lock_step.cases)
  case (guards g)
  have "(guard_step same_host)\<^sup>*\<^sup>* fresh_guard g"
    using assms(1) guards(2) by (auto simp: lock_inv_def intro: rtranclp.rtrancl_into_rtrancl)
  moreover have "(\<forall>n. under_way g n \<longrightarrow> lk_site w n = Entry) \<and> (\<forall>n. holding g n \<longrightarrow> site_ok d w (lk_site w n))"
    using assms(1) by (intro guard.assertions_step [OF guards(2)]) (auto simp: lock_inv_def site_ok_def)
  ultimately show ?thesis using assms(1) by (simp add: guards(1) lock_inv_def)
next
  case (works n t e)
  show ?thesis
    unfolding works(1)
    by (rule inv_body [OF assms(1) works(2)])
      (use body_frame(1,2) [of d a e n w] body_frame(4) [of w d a e n] body_frame(3) [of _ n d a e w] body_mints [of d a e n w] body_site_ok [OF holding_site(1) [OF assms(1) works(2)]]
        works(4) in auto)
next
  case (denied n t r)
  show ?thesis
    unfolding denied(1)
    by (rule inv_body [OF assms(1) denied(2)])
      (use holding_site(1) [OF assms(1) denied(2)] denied(3) in \<open>auto simp: site_ok_def mints_def\<close>)
next
  case (raises n t)
  show ?thesis
    unfolding raises(1) by (rule inv_body [OF assms(1) raises(2)]) (auto simp: site_ok_def mints_def)
next
  case (cleans n t)
  show ?thesis
    unfolding cleans(1) by (rule inv_body [OF assms(1) cleans(2)]) (auto simp: site_ok_def mints_def)
qed

lemma lock_reachable_inv:
  assumes "(lock_step same_host d a)\<^sup>*\<^sup>* (fresh_lock jobs) w"
  shows "lock_inv same_host d w"
  using assms
proof (induction rule: rtranclp_induct)
  case base
  show ?case by (simp add: lock_inv_def fresh_lock_def mints_def site_ok_def)
qed (rule inv_step)

section \<open>A lost lock stays lost\<close>

text \<open>An operation changes the lock only where it creates, refreshes or removes it.\<close>

definition acquired :: "lock_world \<Rightarrow> string \<Rightarrow> bool" where
  "acquired w x \<longleftrightarrow> (\<exists>n m. lk_site w n = Finished (Acquired m) \<and> lm_nonce m = x)"

lemma finished_stays:
  assumes "lock_step same_host d a w w'" "lk_site w n = Finished r"
  shows "lk_site w' n = Finished r"
  using assms(1)
proof (cases rule: lock_step.cases)
  case (works m t e)
  then show ?thesis
    using assms(2) body_frame(3) [of n m d a e w] by (cases "m = n") (auto simp: body_step_def)
qed (use assms(2) in \<open>auto simp: is_finished_def is_creating_def\<close>)

definition writes :: "date_text \<Rightarrow> lock_world \<Rightarrow> site \<Rightarrow> snapshot option \<Rightarrow> bool" where
  "writes d w x new \<longleftrightarrow>
     new = lk_file w \<or> new = None \<or> (\<exists>s. new = Some s \<and> sn_payload s = None)
     \<or> (\<exists>m i s. x = Filling m i \<and> new = Some s \<and> sn_payload s = Some (lock_to_dict d m))
     \<or> (\<exists>r s. x = Replacing r \<and> carries d (lm_nonce r) (lk_file w) \<and> new = Some s
          \<and> sn_payload s = Some (lock_to_dict d r))"

lemma body_file:
  assumes "site_ok d w (lk_site w n)"
  shows "writes d w (lk_site w n) (lk_file (body_step d a e n w))"
proof -
  have "writes d w x (lk_file (acquire_step d a e n x w))" for x
    by (cases x) (auto simp: writes_def acquire_step_def Let_def create_lock_def fill_lock_def
        split: nat.splits option.splits)
  moreover have "writes d w x (lk_file (heartbeat_step d e n x w))" if "site_ok d w x" for x
    using that by (cases x) (auto simp: writes_def heartbeat_step_def site_ok_def split: sum.splits option.splits)
  moreover have "writes d w x (lk_file (release_step n x w))" for x
    by (cases x) (auto simp: writes_def release_step_def split: option.splits)
  moreover have "writes d w x (lk_file (enter_body d e n w))" for x
    by (auto simp: writes_def enter_body_def split: job.splits sum.splits)
  moreover have "writes d w x (lk_file w)" for x by (simp add: writes_def)
  ultimately show ?thesis
    using assms by (rule_tac body_cases [of d a e n w]) simp_all
qed

lemma lost_step:
  assumes "lock_inv same_host d w" "acquired w x" "\<not> carries d x (lk_file w)" "lock_step same_host d a w w'"
  shows "\<not> carries d x (lk_file w')"
  using assms(4)
proof (cases rule: lock_step.cases)
  case (works n t e)
  have ok: "site_ok d w (lk_site w n)" by (rule holding_site(1) [OF assms(1) works(2)])
  have mint: "lm_nonce m \<noteq> x" if "lk_site w n = Filling m i" for m i
  proof
    assume "lm_nonce m = x"
    then have "mints (lk_site w n) = Some x" using that by (simp add: mints_def)
    moreover obtain p r where p: "lk_site w p = Finished (Acquired r)" "lm_nonce r = x"
      using assms(2) by (auto simp: acquired_def)
    then have "mints (lk_site w p) = Some x" by (simp add: mints_def)
    ultimately have "n = p" using assms(1) unfolding lock_inv_def by blast
    then show False using that p(1) by simp
  qed
  show ?thesis
    using body_file [OF ok, of a e] assms(3) mint unfolding works(1) writes_def
    by (auto dest: carries_written)
qed (use assms(3) in auto)

lemma acquired_step: "lock_step same_host d a w w' \<Longrightarrow> acquired w x \<Longrightarrow> acquired w' x"
  unfolding acquired_def using finished_stays by blast

text \<open>
  C4: Fencing. Once the lock no longer carries the nonce of a lease that was acquired, it never does
  again: however the operations of all sessions interleave, fail or die, whatever the clocks say
  about staleness, every later check of that lease's fence raises \<open>LockFenceError\<close>.
\<close>

theorem lost_lease_stays_lost:
  assumes "(lock_step same_host d stale_after)\<^sup>*\<^sup>* (fresh_lock jobs) w" "acquired w x"
    and "fence_at_path d (lk_file w) x = Inl Lock_fence"
    and "(lock_step same_host d stale_after)\<^sup>*\<^sup>* w w'"
  shows "fence_at_path d (lk_file w') x = Inl Lock_fence"
proof -
  have "lock_inv same_host d w' \<and> acquired w' x \<and> \<not> carries d x (lk_file w')"
    using assms(4)
  proof (induction rule: rtranclp_induct)
    case base
    show ?case using lock_reachable_inv [OF assms(1)] assms(2,3) by (simp add: carries_def)
  next
    case (step u v)
    then show ?case using inv_step acquired_step lost_step by blast
  qed
  then show ?thesis
    by (auto simp: carries_def fence_at_path_def split: option.splits sum.splits if_splits)
qed

section \<open>A lock that was taken over is kept\<close>

text \<open>The metadata an operation is about to write.\<close>

definition site_lease :: "site \<Rightarrow> lock_metadata option" where
  "site_lease x =
     (case x of
        Filling m i \<Rightarrow> Some m
      | Filled m \<Rightarrow> Some m
      | Truncating m \<Rightarrow> Some m
      | Refilling m \<Rightarrow> Some m
      | Beating m \<Rightarrow> Some m
      | Replacing m \<Rightarrow> Some m
      | _ \<Rightarrow> None)"

definition leases_ok :: "lock_world \<Rightarrow> bool" where
  "leases_ok w \<longleftrightarrow>
     (\<forall>n m. lk_job w n = Heartbeat m \<longrightarrow> lease_ok m) \<and> (\<forall>n m. site_lease (lk_site w n) = Some m \<longrightarrow> lease_ok m)"

lemma body_lease:
  assumes "surroundings_ok e" "leases_ok w" "site_lease (lk_site (body_step d a e n w) n) = Some m"
  shows "lease_ok m"
proof -
  have old: "lease_ok m" if "site_lease (lk_site w n) = Some m" for m
    using that assms(2) by (auto simp: leases_ok_def)
  have new: "lease_ok (new_lease e)" using assms(1) by (simp add: surroundings_ok_def lease_ok_def new_lease_def)
  have beat: "lease_ok (r\<lparr>lm_heartbeat_at := t\<rparr>)" if "lk_job w n = Heartbeat r" for r t
    using that assms(2) by (auto simp: leases_ok_def lease_ok_def)
  have "lease_ok m" if "site_lease (lk_site (acquire_step d a e n (lk_site w n) w) n) = Some m"
    using that old new by (cases "lk_site w n")
      (auto simp: acquire_step_def site_lease_def Let_def split: nat.splits option.splits if_splits)
  moreover have "lease_ok m" if "site_lease (lk_site (heartbeat_step d e n (lk_site w n) w) n) = Some m"
    using that old by (cases "lk_site w n")
      (auto simp: heartbeat_step_def site_lease_def split: sum.splits option.splits)
  moreover have "lease_ok m" if "site_lease (lk_site (release_step n (lk_site w n) w) n) = Some m"
    using that old by (cases "lk_site w n") (auto simp: release_step_def site_lease_def split: option.splits)
  moreover have "lease_ok m" if "site_lease (lk_site (enter_body d e n w) n) = Some m"
    using that beat by (auto simp: enter_body_def site_lease_def split: job.splits sum.splits)
  ultimately show ?thesis
    using assms(3) old by (rule_tac body_cases [of d a e n w]) simp_all
qed

lemma leases_ok_step:
  assumes "leases_ok w" "lock_step same_host d a w w'"
  shows "leases_ok w'"
  using assms(2)
proof (cases rule: lock_step.cases)
  case (works n t e)
  have "lease_ok m" if "site_lease (lk_site w' p) = Some m" for p m
  proof (cases "p = n")
    case True
    then show ?thesis using body_lease [OF works(3) assms(1)] that works(1) by simp
  next
    case False
    then have "lk_site w' p = lk_site w p" using body_frame(3) works(1) by simp
    then show ?thesis using that assms(1) by (auto simp: leases_ok_def)
  qed
  moreover have "lk_job w' = lk_job w" by (simp add: works(1) body_frame)
  ultimately show ?thesis using assms(1) by (simp add: leases_ok_def)
next
  case (denied n t r)
  then have "site_lease (lk_site w n) = Some r" by (simp add: site_lease_def)
  then have "lease_ok r" using assms(1) unfolding leases_ok_def by blast
  then show ?thesis using assms(1) denied(1) by (simp add: leases_ok_def site_lease_def)
qed (use assms(1) in \<open>auto simp: leases_ok_def site_lease_def\<close>)

definition evident :: "date_text \<Rightarrow> lock_world \<Rightarrow> string \<Rightarrow> bool" where
  "evident d w x \<longleftrightarrow>
     carries d x (lk_file w) \<or> (\<exists>n. lk_site w n = Finished (Released x))
     \<or> (\<exists>name s. map_of (lk_archives w) name = Some s \<and> carries d x (Some s))"

lemma evident_keep:
  assumes "evident d w x" "lk_archives w' = lk_archives w"
    and "carries d x (lk_file w) \<Longrightarrow> carries d x (lk_file w')"
    and "\<And>n. lk_site w n = Finished (Released x) \<Longrightarrow> lk_site w' n = Finished (Released x)"
  shows "evident d w' x"
  using assms unfolding evident_def by metis

lemma body_archives:
  assumes "site_ok d w (lk_site w n)" "map_of (lk_archives w) name = Some s"
  shows "map_of (lk_archives (body_step d a e n w)) name = Some s"
proof -
  have ne: "key \<noteq> name" if "key \<notin> fst ` set (lk_archives w)" for key
    using that assms(2) by (metis map_of_SomeD fst_conv image_eqI)
  have "map_of (lk_archives (acquire_step d a e n (lk_site w n) w)) name = Some s"
    using assms by (cases "lk_site w n")
      (auto simp: acquire_step_def site_ok_def Let_def dest: ne split: nat.splits option.splits)
  moreover have "lk_archives (heartbeat_step d e n x w) = lk_archives w" for x
    by (cases x) (auto simp: heartbeat_step_def split: sum.splits option.splits)
  moreover have "lk_archives (release_step n x w) = lk_archives w" for x
    by (cases x) (auto simp: release_step_def split: option.splits)
  moreover have "lk_archives (enter_body d e n w) = lk_archives w"
    by (auto simp: enter_body_def split: job.splits sum.splits)
  ultimately show ?thesis
    using assms(2) by (rule_tac body_cases [of d a e n w]) simp_all
qed

lemma body_carried:
  assumes "dates_ok d" "site_ok d w (lk_site w n)" "leases_ok w" "carries d x (lk_file w)"
  shows "carries d x (lk_file (body_step d a e n w)) \<or> lk_site (body_step d a e n w) n = Finished (Released x)
    \<or> (\<exists>name s. map_of (lk_archives w) name = Some s \<and> carries d x (Some s))"
proof -
  let ?safe = "\<lambda>w'. carries d x (lk_file w') \<or> lk_site w' n = Finished (Released x)
    \<or> (\<exists>name s. map_of (lk_archives w) name = Some s \<and> carries d x (Some s))"
  have lease: "lease_ok m" if "site_lease (lk_site w n) = Some m" for m
    using that assms(3) by (auto simp: leases_ok_def)
  have "?safe (acquire_step d a e n (lk_site w n) w)"
  proof (cases "lk_site w n")
    case (Unlinking k)
    then obtain s name where "lk_file w = Some s" "map_of (lk_archives w) name = Some s"
      using assms(2) by (auto simp: site_ok_def)
    then show ?thesis using assms(4) by auto
  qed (use assms(2,4) in
      \<open>auto simp: acquire_step_def site_ok_def fill_lock_def Let_def split: nat.splits option.splits\<close>)
  moreover have "?safe (heartbeat_step d e n (lk_site w n) w)"
  proof (cases "lk_site w n")
    case (Replacing r)
    then obtain s where s: "lk_tmp w = Some s" "sn_payload s = Some (lock_to_dict d r)" "carries d (lm_nonce r) (lk_file w)"
      using assms(2) by (auto simp: site_ok_def)
    have "lease_ok r" using lease Replacing by (simp add: site_lease_def)
    then have "carries d (lm_nonce r) (Some s)" using writer_carries [OF assms(1)] s(2) by blast
    then show ?thesis
      using s(1) carries_one [OF assms(4) s(3)] by (simp add: Replacing heartbeat_step_def)
  qed (use assms(4) in \<open>auto simp: heartbeat_step_def split: sum.splits option.splits\<close>)
  moreover have "?safe (release_step n (lk_site w n) w)"
  proof (cases "lk_site w n")
    case (Removing y)
    then have "carries d y (lk_file w)" using assms(2) by (simp add: site_ok_def)
    then show ?thesis
      using carries_one [OF assms(4)] by (auto simp: Removing release_step_def split: option.splits)
  qed (use assms(4) in \<open>auto simp: release_step_def split: option.splits\<close>)
  moreover have "?safe (enter_body d e n w)"
    using assms(4) by (auto simp: enter_body_def split: job.splits sum.splits)
  ultimately show ?thesis
    using assms(4) by (rule_tac body_cases [of d a e n w]) simp_all
qed

lemma body_evident:
  assumes "dates_ok d" "site_ok d w (lk_site w n)" "leases_ok w" "evident d w x"
  shows "evident d (body_step d a e n w) x"
proof -
  have fin: "lk_site (body_step d a e n w) p = Finished r" if "lk_site w p = Finished r" for p r
    using that body_frame(3) [of p n d a e w] by (cases "p = n") (auto simp: body_step_def)
  show ?thesis
    using assms(4) body_carried [OF assms(1-3)] body_archives [OF assms(2)] fin unfolding evident_def by metis
qed

lemma newly_acquired:
  assumes "lk_site (body_step d a e n w) n = Finished (Acquired m)" "\<And>r. lk_site w n \<noteq> Finished r"
  shows "lk_site w n = Filled m \<and> body_step d a e n w = at_site n (Finished (Acquired m)) w"
proof -
  have "lk_site w n = Filled m \<and> acquire_step d a e n (lk_site w n) w = at_site n (Finished (Acquired m)) w"
    if "lk_site (acquire_step d a e n (lk_site w n) w) n = Finished (Acquired m)"
    using that assms(2) by (cases "lk_site w n")
      (auto simp: acquire_step_def Let_def split: nat.splits option.splits if_splits)
  moreover have "lk_site (heartbeat_step d e n (lk_site w n) w) n \<noteq> Finished (Acquired m)"
    using assms(2) by (cases "lk_site w n") (auto simp: heartbeat_step_def split: sum.splits option.splits)
  moreover have "lk_site (release_step n (lk_site w n) w) n \<noteq> Finished (Acquired m)"
    using assms(2) by (cases "lk_site w n") (auto simp: release_step_def split: option.splits)
  moreover have "lk_site (enter_body d e n w) n \<noteq> Finished (Acquired m)"
    by (auto simp: enter_body_def split: job.splits sum.splits)
  ultimately show ?thesis
    using assms by (rule_tac body_cases [of d a e n w]) auto
qed

definition evidence_inv :: "date_text \<Rightarrow> lock_world \<Rightarrow> bool" where
  "evidence_inv d w \<longleftrightarrow> leases_ok w \<and> (\<forall>x. acquired w x \<longrightarrow> evident d w x)"

lemma evidence_step:
  assumes "dates_ok d" "lock_inv same_host d w" "evidence_inv d w" "lock_step same_host d a w w'"
  shows "evidence_inv d w'"
proof -
  have l: "leases_ok w" and ev: "\<And>x. acquired w x \<Longrightarrow> evident d w x"
    using assms(3) by (auto simp: evidence_inv_def)
  have "evident d w' x" if acq: "acquired w' x" for x
    using assms(4)
  proof (cases rule: lock_step.cases)
    case (guards g)
    then show ?thesis using acq ev [of x] by (simp add: acquired_def evident_def)
  next
    case (works n t e)
    have ok: "site_ok d w (lk_site w n)" by (rule holding_site(1) [OF assms(2) works(2)])
    show ?thesis
    proof (cases "acquired w x")
      case True
      then show ?thesis using body_evident [OF assms(1) ok l ev] works(1) by simp
    next
      case False
      obtain p m where p: "lk_site w' p = Finished (Acquired m)" "lm_nonce m = x"
        using acq unfolding acquired_def by blast
      have "lk_site w p = Finished (Acquired m)" if "p \<noteq> n"
        using p(1) body_frame(3) [OF that] works(1) by simp
      then have "p = n" using False p(2) unfolding acquired_def by blast
      moreover have "lk_site w n \<noteq> Finished q" for q
      proof
        assume f: "lk_site w n = Finished q"
        then have "body_step d a e n w = w" by (simp add: body_step_def)
        then show False using p False works(1) by (auto simp: acquired_def)
      qed
      ultimately have n: "lk_site w n = Filled m" "w' = at_site n (Finished (Acquired m)) w"
        using newly_acquired [of d a e n w m] p(1) works(1) by auto
      have "site_lease (lk_site w n) = Some m" using n(1) by (simp add: site_lease_def)
      then have "lease_ok m" using l unfolding leases_ok_def by blast
      then have "carries d x (lk_file w)"
        using ok n(1) p(2) writer_carries [OF assms(1)] by (auto simp: site_ok_def)
      then show ?thesis by (simp add: evident_def n(2))
    qed
  next
    case (denied n t r)
    have "acquired w x" using acq denied(1,3) by (auto simp: acquired_def split: if_splits)
    from ev [OF this] show ?thesis
      by (rule evident_keep) (use denied(1) finished_stays [OF assms(4)] in simp_all)
  next
    case (raises n t)
    have "acquired w x" using acq raises(1) by (auto simp: acquired_def split: if_splits)
    from ev [OF this] show ?thesis
      by (rule evident_keep) (use raises(1) finished_stays [OF assms(4)] in simp_all)
  next
    case (cleans n t)
    have a: "acquired w x" using acq cleans(1) by (auto simp: acquired_def split: if_splits)
    have "\<not> carries d x (lk_file w)"
    proof
      assume c: "carries d x (lk_file w)"
      then obtain m where m: "lk_site w n = Filled m" "x = lm_nonce m"
        using cleans(3) holding_site(1) [OF assms(2) cleans(2)]
        by (auto simp: is_creating_def site_ok_def dest: carries_written split: site.splits)
      obtain p r where p: "lk_site w p = Finished (Acquired r)" "lm_nonce r = x"
        using a by (auto simp: acquired_def)
      have "mints (lk_site w n) = Some x" "mints (lk_site w p) = Some x" using m p by (simp_all add: mints_def)
      then have "n = p" using assms(2) unfolding lock_inv_def by blast
      then show False using m(1) p(1) by simp
    qed
    then show ?thesis
      by (intro evident_keep [OF ev [OF a]]) (use cleans(1) finished_stays [OF assms(4)] in simp_all)
  qed
  then show ?thesis using leases_ok_step [OF l assms(4)] by (simp add: evidence_inv_def)
qed

text \<open>
  C5: No takeover without evidence. At every point of every run, a lease that was acquired is in the
  lock file, or was released by an operation on that very lease, or the lock file that carried it is
  preserved under an archive name.
\<close>

theorem takeover_leaves_evidence:
  assumes "dates_ok d" "\<forall>n m. jobs n = Heartbeat m \<longrightarrow> lease_ok m"
    and "(lock_step same_host d stale_after)\<^sup>*\<^sup>* (fresh_lock jobs) w" "acquired w x"
  shows "fence_at_path d (lk_file w) x \<noteq> Inl Lock_fence
    \<or> (\<exists>n. lk_site w n = Finished (Released x))
    \<or> (\<exists>name s. map_of (lk_archives w) name = Some s \<and> fence_at_path d (Some s) x \<noteq> Inl Lock_fence)"
proof -
  have "lock_inv same_host d w \<and> evidence_inv d w"
    using assms(3)
  proof (induction rule: rtranclp_induct)
    case base
    show ?case
      using lock_reachable_inv [of same_host d stale_after jobs "fresh_lock jobs"] assms(2)
      by (simp add: evidence_inv_def leases_ok_def acquired_def fresh_lock_def site_lease_def)
  next
    case (step u v)
    then show ?case using inv_step evidence_step [OF assms(1)] by blast
  qed
  then show ?thesis using assms(4) unfolding evidence_inv_def evident_def carries_def by force
qed

end
