(* ===== verification/LockRuns.thy ===== *)
theory LockRuns
  imports LockLaws
begin

text \<open>
  Undisturbed runs of the context lock: how long a session that finds a stale lock takes to take it
  over, and a run of two sessions, the second of which takes over the lock of the first.
\<close>

section \<open>Runs of one body\<close>

definition body_run :: "date_text \<Rightarrow> int \<Rightarrow> string \<Rightarrow> surroundings list \<Rightarrow> lock_world \<Rightarrow> lock_world" where
  "body_run d a n es w = fold (\<lambda>e. body_step d a e n) es w"

lemma body_run_simps [simp]:
  "body_run d a n [] w = w" "body_run d a n (e # es) w = body_run d a n es (body_step d a e n w)"
  by (simp_all add: body_run_def)

lemma at_site_at_site [simp]: "at_site n x (at_site n y w) = at_site n x w"
  by (simp add: at_site_def)

lemma at_site_updates:
  "(at_site n x w)\<lparr>lk_file := f\<rparr> = at_site n x (w\<lparr>lk_file := f\<rparr>)"
  "(at_site n x w)\<lparr>lk_drawn := g\<rparr> = at_site n x (w\<lparr>lk_drawn := g\<rparr>)"
  "(at_site n x w)\<lparr>lk_archives := h\<rparr> = at_site n x (w\<lparr>lk_archives := h\<rparr>)"
  by (simp_all add: at_site_def)

definition new_lock :: "date_text \<Rightarrow> surroundings \<Rightarrow> surroundings \<Rightarrow> snapshot" where
  "new_lock d e e' = \<lparr>sn_payload = Some (lock_to_dict d (new_lease e)), sn_mtime = sr_now e', sn_file_id = sr_inode e\<rparr>"

lemma attempt_absent:
  assumes "lk_site w n = Attempt (Suc k)" "lk_job w n = Acquire" "lk_file w = None"
  shows "body_run d a n [e1, e2, e3] w =
    at_site n (Finished (Acquired (new_lease e1)))
      (w\<lparr>lk_drawn := sr_nonce e1 # lk_drawn w, lk_file := Some (new_lock d e1 e2)\<rparr>)"
  using assms
  by (simp add: body_step_def acquire_step_def create_lock_def fill_lock_def new_lock_def at_site_updates)

lemma attempt_stale:
  assumes "lk_site w n = Attempt (Suc k)" "lk_job w n = Acquire" "lk_file w = Some s"
    and "in_stale (inspect_snapshot d a e2 s)" "in_stale (inspect_snapshot d a e3 s)"
    and "archive_name (sr_stamp e3) 0 \<notin> fst ` set (lk_archives w)"
  shows "body_run d a n [e1, e2, e3, e4, e5, e6, e7] w =
    at_site n (Attempt k)
      (w\<lparr>lk_drawn := sr_nonce e1 # lk_drawn w, lk_file := None,
         lk_archives := (archive_name (sr_stamp e3) 0, s) # lk_archives w\<rparr>)"
proof -
  let ?name = "archive_name (sr_stamp e3) 0"
  define u where "u = w\<lparr>lk_drawn := sr_nonce e1 # lk_drawn w\<rparr>"
  define v where "v = u\<lparr>lk_archives := (?name, s) # lk_archives u\<rparr>"
  have u: "lk_job u n = Acquire" "lk_file u = Some s" "?name \<notin> fst ` set (lk_archives u)"
    using assms(2,3,6) by (simp_all add: u_def)
  have v: "lk_job v n = Acquire" "lk_file v = Some s" "map_of (lk_archives v) ?name = Some s"
    using u by (simp_all add: v_def)
  have 1: "body_step d a e1 n w = at_site n (Found k) u"
    using assms(1-3) by (simp add: body_step_def acquire_step_def u_def)
  have 2: "body_step d a e2 n (at_site n (Found k) u) = at_site n (Confirming k s) u"
    using assms(4) u(1,2) by (simp add: body_step_def acquire_step_def)
  have 3: "body_step d a e3 n (at_site n (Confirming k s) u) = at_site n (Linking k s (sr_stamp e3) 0) u"
    using assms(5) u(1,2) by (simp add: body_step_def acquire_step_def)
  have 4: "body_step d a e4 n (at_site n (Linking k s (sr_stamp e3) 0) u) = at_site n (Checking k s ?name) v"
    using u by (simp add: body_step_def acquire_step_def at_site_updates v_def Let_def)
  have 5: "body_step d a e5 n (at_site n (Checking k s ?name) v) = at_site n (Rechecking k s ?name (Some s)) v"
    using v by (simp add: body_step_def acquire_step_def)
  have 6: "body_step d a e6 n (at_site n (Rechecking k s ?name (Some s)) v) = at_site n (Unlinking k) v"
    using v by (simp add: body_step_def acquire_step_def)
  have 7: "body_step d a e7 n (at_site n (Unlinking k) v) = at_site n (Attempt k) (v\<lparr>lk_file := None\<rparr>)"
    using v by (simp add: body_step_def acquire_step_def at_site_updates)
  show ?thesis
    by (simp only: body_run_simps 1 2 3 4 5 6 7) (simp add: v_def u_def)
qed

lemma entry_acquire:
  assumes "lk_site w n = Entry" "lk_job w n = Acquire"
  shows "body_step d a e n w = at_site n (Attempt 32) w"
  using assms by (simp add: body_step_def enter_body_def)

lemma body_run_append: "body_run d a n (es @ fs) w = body_run d a n fs (body_run d a n es w)"
  by (simp add: body_run_def)

lemma stale_run:
  assumes "lk_site w n = Entry" "lk_job w n = Acquire" "lk_file w = Some s" "length es = 11"
    and "\<And>e. e \<in> set es \<Longrightarrow> in_stale (inspect_snapshot d stale_after e s)"
    and "archive_name (sr_stamp (es ! 3)) 0 \<notin> fst ` set (lk_archives w)"
  shows "body_run d stale_after n es w =
    at_site n (Finished (Acquired (new_lease (es ! 8))))
      (w\<lparr>lk_drawn := sr_nonce (es ! 8) # sr_nonce (es ! 1) # lk_drawn w,
         lk_file := Some (new_lock d (es ! 8) (es ! 9)),
         lk_archives := (archive_name (sr_stamp (es ! 3)) 0, s) # lk_archives w\<rparr>)"
proof -
  obtain e0 e1 e2 e3 e4 e5 e6 e7 e8 e9 e10 where es: "es = [e0, e1, e2, e3, e4, e5, e6, e7, e8, e9, e10]"
    using assms(4) by (auto simp: length_Suc_conv eval_nat_numeral)
  define u where "u = at_site n (Attempt (Suc 31)) w"
  have u: "body_step d stale_after e0 n w = u"
    using entry_acquire [OF assms(1,2)] by (simp add: u_def)
  define v where "v = body_run d stale_after n [e1, e2, e3, e4, e5, e6, e7] u"
  have v: "v = at_site n (Attempt (Suc 30))
      (u\<lparr>lk_drawn := sr_nonce e1 # lk_drawn u, lk_file := None,
         lk_archives := (archive_name (sr_stamp e3) 0, s) # lk_archives u\<rparr>)"
    unfolding v_def by (subst attempt_stale [where k = 31]) (use assms es in \<open>simp_all add: u_def\<close>)
  have "body_run d stale_after n es w = body_run d stale_after n [e8, e9, e10] v"
    unfolding v_def u [symmetric] es by simp
  also have "\<dots> = at_site n (Finished (Acquired (new_lease e8)))
      (v\<lparr>lk_drawn := sr_nonce e8 # lk_drawn v, lk_file := Some (new_lock d e8 e9)\<rparr>)"
    by (rule attempt_absent [where k = 30]) (use assms(2) in \<open>simp_all add: v u_def\<close>)
  finally show ?thesis
    by (simp add: v u_def es at_site_updates)
qed

text \<open>
  C22: A stale lock is taken over. A session that finds a lock it judges stale, when it reads it and
  when it looks again, and that nobody disturbs, holds the lock after eleven system calls: the lock
  file has its record, and the file it found stands under the archive name, beside the archives that
  were there.
\<close>

theorem stale_lock_taken_over:
  assumes "lk_site w n = Entry" "lk_job w n = Acquire" "lk_file w = Some s" "length es = 11"
    and "\<And>e. e \<in> set es \<Longrightarrow> in_stale (inspect_snapshot d stale_after e s)"
    and "archive_name (sr_stamp (es ! 3)) 0 \<notin> fst ` set (lk_archives w)"
  shows "\<exists>m f. lk_site (body_run d stale_after n es w) n = Finished (Acquired m)
    \<and> lk_file (body_run d stale_after n es w) = Some f \<and> sn_payload f = Some (lock_to_dict d m)
    \<and> lk_archives (body_run d stale_after n es w) = (archive_name (sr_stamp (es ! 3)) 0, s) # lk_archives w"
  using stale_run [OF assms] by (simp add: new_lock_def)

section \<open>A run of two sessions\<close>

lemma body_drawn: "set (lk_drawn (body_step d a e n w)) \<subseteq> insert (sr_nonce e) (set (lk_drawn w))"
proof -
  have "set (lk_drawn (acquire_step d a e n x w)) \<subseteq> insert (sr_nonce e) (set (lk_drawn w))" for x
    by (cases x) (auto simp: acquire_step_def Let_def split: nat.splits option.splits)
  moreover have "lk_drawn (heartbeat_step d e n x w) = lk_drawn w" for x
    by (cases x) (auto simp: heartbeat_step_def split: sum.splits option.splits)
  moreover have "lk_drawn (release_step n x w) = lk_drawn w" for x
    by (cases x) (auto simp: release_step_def split: option.splits)
  moreover have "lk_drawn (enter_body d e n w) = lk_drawn w"
    by (auto simp: enter_body_def split: job.splits sum.splits)
  ultimately show ?thesis
    by (rule_tac body_cases [of d a e n w]) auto
qed

lemma body_run_steps:
  assumes "phase_of (lk_guard w) n = Holding t" "\<forall>e\<in>set es. surroundings_ok e"
    and "distinct (map sr_nonce es)" "set (map sr_nonce es) \<inter> set (lk_drawn w) = {}"
  shows "(lock_step same_host d a)\<^sup>*\<^sup>* w (body_run d a n es w)"
  using assms
proof (induction es arbitrary: w)
  case (Cons e es)
  have "lock_step same_host d a w (body_step d a e n w)"
    by (rule lock_step.works) (use Cons.prems in auto)
  moreover have "(lock_step same_host d a)\<^sup>*\<^sup>* (body_step d a e n w) (body_run d a n es (body_step d a e n w))"
  proof (rule Cons.IH)
    show "set (map sr_nonce es) \<inter> set (lk_drawn (body_step d a e n w)) = {}"
    proof -
      have "set (map sr_nonce es) \<inter> insert (sr_nonce e) (set (lk_drawn w)) = {}"
        using Cons.prems(3,4) by auto
      then show ?thesis using body_drawn [of d a e n w] by blast
    qed
  qed (use Cons.prems body_frame(1) [of d a e n w] in auto)
  ultimately show ?case by simp
qed simp

lemma guard_run_steps:
  "(lock_step same_host d a)\<^sup>*\<^sup>* w (w\<lparr>lk_guard := (advance same_host n ^^ k) (lk_guard w)\<rparr>)"
proof (induction k)
  case (Suc k)
  let ?g = "(advance same_host n ^^ k) (lk_guard w)"
  have idle: "advance same_host n ?g = ?g" if "\<not> running (phase_of ?g n)"
    using that by (auto simp: running_def advance_def split: phase.splits)
  have "lock_step same_host d a (w\<lparr>lk_guard := ?g\<rparr>) (w\<lparr>lk_guard := ?g, lk_guard := advance same_host n ?g\<rparr>)"
    if "running (phase_of ?g n)"
  proof (rule lock_step.guards)
    show "guard_step same_host (lk_guard (w\<lparr>lk_guard := ?g\<rparr>)) (advance same_host n ?g)"
      using guard_step.advances [OF that] by simp
    show "\<forall>m t. phase_of (lk_guard (w\<lparr>lk_guard := ?g\<rparr>)) m = Holding t \<and> phase_of (advance same_host n ?g) m = Gone
        \<longrightarrow> is_finished (lk_site (w\<lparr>lk_guard := ?g\<rparr>) m)"
    proof (intro allI impI)
      fix m t
      assume h: "phase_of (lk_guard (w\<lparr>lk_guard := ?g\<rparr>)) m = Holding t \<and> phase_of (advance same_host n ?g) m = Gone"
      then have "m \<noteq> n" using that by (auto simp: running_def)
      then show "is_finished (lk_site (w\<lparr>lk_guard := ?g\<rparr>) m)"
        using h advance_removes(1) [of m n same_host ?g] by auto
    qed
  qed
  then show ?case using Suc idle by (cases "running (phase_of ?g n)") (auto intro: rtranclp.rtrancl_into_rtrancl)
qed simp

text \<open>Session \<open>a\<close> acquires the lock; much later session \<open>b\<close> on another host does.\<close>

definition example_dates :: date_text where
  "example_dates = \<lparr>read_utc = (\<lambda>s. case s of [] \<Rightarrow> None
     | c # r \<Rightarrow> Some (if c = CHR ''-'' then - int (length r) else int (length r))),
     show_utc = (\<lambda>t. if t < 0 then ''-'' @ replicate (nat (- t)) (CHR ''0'')
       else ''+'' @ replicate (nat t) (CHR ''0''))\<rparr>"

lemma example_dates_ok: "dates_ok example_dates"
  by (auto simp: dates_ok_def example_dates_def)

definition seen_by :: "string \<Rightarrow> int \<Rightarrow> char \<Rightarrow> surroundings" where
  "seen_by host now c = \<lparr>sr_now = now, sr_pid = 7, sr_host = host, sr_alive = (\<lambda>_. True),
     sr_session = ''s'', sr_version = ''1'', sr_stamp = ''t'', sr_nonce = replicate 32 c, sr_inode = 1\<rparr>"

lemma seen_by_ok: "is_lower_hex c \<Longrightarrow> host \<noteq> [] \<Longrightarrow> surroundings_ok (seen_by host now c)"
  by (simp add: seen_by_def surroundings_ok_def is_nonce_def list_all_iff)

definition first_views :: "surroundings list" where
  "first_views = map (seen_by ''x'' 0) ''0123''"

definition later_views :: "surroundings list" where
  "later_views = map (seen_by ''y'' 9) ''456789abcde''"

definition first_lease :: lock_metadata where
  "first_lease = new_lease (seen_by ''x'' 0 (CHR ''1''))"

definition first_holds :: lock_world where
  "first_holds = body_run example_dates 5 ''a'' first_views
     ((fresh_lock (\<lambda>_. Acquire))\<lparr>lk_guard := example_guard\<rparr>)"

definition guard_handed :: guard_state where
  "guard_handed = (advance (\<lambda>_ _. True) ''b'' ^^ 10) (leave ''a'' example_guard)"

definition second_starts :: lock_world where
  "second_starts = first_holds\<lparr>lk_guard := guard_handed\<rparr>"

definition second_holds :: lock_world where
  "second_holds = body_run example_dates 5 ''b'' later_views second_starts"

lemma first_holds_is:
  "first_holds = at_site ''a'' (Finished (Acquired first_lease))
     ((fresh_lock (\<lambda>_. Acquire))\<lparr>lk_guard := example_guard, lk_drawn := [replicate 32 (CHR ''1'')],
        lk_file := Some (new_lock example_dates (seen_by ''x'' 0 (CHR ''1'')) (seen_by ''x'' 0 (CHR ''2'')))\<rparr>)"
proof -
  let ?w = "(fresh_lock (\<lambda>_. Acquire))\<lparr>lk_guard := example_guard\<rparr>"
  have "first_holds = body_run example_dates 5 ''a'' (map (seen_by ''x'' 0) ''123'') (at_site ''a'' (Attempt (Suc 31)) ?w)"
    by (simp add: first_holds_def first_views_def entry_acquire fresh_lock_def)
  also have "\<dots> = at_site ''a'' (Finished (Acquired first_lease)) (?w\<lparr>lk_drawn := [replicate 32 (CHR ''1'')],
        lk_file := Some (new_lock example_dates (seen_by ''x'' 0 (CHR ''1'')) (seen_by ''x'' 0 (CHR ''2'')))\<rparr>)"
    using attempt_absent [where k = 31 and n = "''a''" and w = "at_site ''a'' (Attempt (Suc 31)) ?w"]
    by (simp add: fresh_lock_def first_lease_def at_site_updates seen_by_def)
  finally show ?thesis by (simp add: at_site_def)
qed

lemma guard_handed_is: "phase_of guard_handed ''b'' = Holding 1"
  by (simp add: guard_handed_def example_guard_is leave_def eval_nat_numeral advance_early advance_late
      listing_def create_choosing_def create_ticket_def unlink_choosing_def unlink_ticket_def go_def)

lemma first_run: "(lock_step (\<lambda>_ _. True) example_dates 5)\<^sup>*\<^sup>* (fresh_lock (\<lambda>_. Acquire)) first_holds"
proof -
  let ?w = "(fresh_lock (\<lambda>_. Acquire))\<lparr>lk_guard := example_guard\<rparr>"
  have "(lock_step (\<lambda>_ _. True) example_dates 5)\<^sup>*\<^sup>* (fresh_lock (\<lambda>_. Acquire)) ?w"
    using guard_run_steps [where n = "''a''" and k = 10 and w = "fresh_lock (\<lambda>_. Acquire)"]
    by (simp add: example_guard_def fresh_lock_def)
  moreover have "(lock_step (\<lambda>_ _. True) example_dates 5)\<^sup>*\<^sup>* ?w first_holds"
    unfolding first_holds_def
  proof (rule body_run_steps)
    show "phase_of (lk_guard ?w) ''a'' = Holding 1" by (simp add: example_guard_is)
    show "\<forall>e\<in>set first_views. surroundings_ok e"
      by (auto simp: first_views_def is_lower_hex_def is_digit_def intro!: seen_by_ok)
  qed (simp_all add: first_views_def seen_by_def fresh_lock_def eval_nat_numeral)
  ultimately show ?thesis by simp
qed

lemma second_starts_run: "(lock_step (\<lambda>_ _. True) example_dates 5)\<^sup>*\<^sup>* first_holds second_starts"
proof -
  let ?w = "first_holds\<lparr>lk_guard := leave ''a'' example_guard\<rparr>"
  have g: "lk_guard first_holds = example_guard" by (simp add: first_holds_is)
  have "lock_step (\<lambda>_ _. True) example_dates 5 first_holds ?w"
  proof (rule lock_step.guards)
    show "guard_step (\<lambda>_ _. True) (lk_guard first_holds) (leave ''a'' example_guard)"
      unfolding g by (rule guard_step.leaves) (simp add: example_guard_is)
    show "\<forall>n t. phase_of (lk_guard first_holds) n = Holding t \<and> phase_of (leave ''a'' example_guard) n = Gone
        \<longrightarrow> is_finished (lk_site first_holds n)"
      by (auto simp: g example_guard_is first_holds_is is_finished_def split: if_splits)
  qed
  then show ?thesis
    using guard_run_steps [where n = "''b''" and k = 10 and w = ?w]
    by (auto simp: second_starts_def guard_handed_def intro: converse_rtranclp_into_rtranclp)
qed

lemma second_run: "(lock_step (\<lambda>_ _. True) example_dates 5)\<^sup>*\<^sup>* second_starts second_holds"
  unfolding second_holds_def
proof (rule body_run_steps)
  show "phase_of (lk_guard second_starts) ''b'' = Holding 1" by (simp add: second_starts_def guard_handed_is)
  show "\<forall>e\<in>set later_views. surroundings_ok e"
    by (auto simp: later_views_def is_lower_hex_def is_digit_def intro!: seen_by_ok)
qed (simp_all add: later_views_def seen_by_def second_starts_def first_holds_is eval_nat_numeral)

lemma first_lease_stale:
  assumes "e \<in> set later_views"
  shows "in_stale (inspect_snapshot example_dates 5 e
    (new_lock example_dates (seen_by ''x'' 0 (CHR ''1'')) (seen_by ''x'' 0 (CHR ''2''))))"
proof -
  have ok: "lease_ok first_lease"
    by (simp add: first_lease_def new_lease_def seen_by_def lease_ok_def is_nonce_def list_all_iff
        is_lower_hex_def is_digit_def)
  have "lm_heartbeat_at first_lease = 0" by (simp add: first_lease_def new_lease_def seen_by_def)
  moreover have "sr_now e = 9" using assms by (auto simp: later_views_def seen_by_def)
  ultimately show ?thesis
    using lock_dict_roundtrip [OF example_dates_ok ok]
    by (simp add: inspect_snapshot_def new_lock_def decode_metadata_def first_lease_def)
qed

lemma second_starts_simps [simp]:
  "lk_site second_starts ''b'' = Entry" "lk_job second_starts ''b'' = Acquire"
  "lk_file second_starts =
     Some (new_lock example_dates (seen_by ''x'' 0 (CHR ''1'')) (seen_by ''x'' 0 (CHR ''2'')))"
  "lk_archives second_starts = []" "lk_site second_starts ''a'' = Finished (Acquired first_lease)"
  by (simp_all add: second_starts_def first_holds_is fresh_lock_def)

lemma second_holds_is:
  "second_holds = at_site ''b'' (Finished (Acquired (new_lease (later_views ! 8))))
     (second_starts\<lparr>lk_drawn := sr_nonce (later_views ! 8) # sr_nonce (later_views ! 1) # lk_drawn second_starts,
        lk_file := Some (new_lock example_dates (later_views ! 8) (later_views ! 9)),
        lk_archives := [(archive_name (sr_stamp (later_views ! 3)) 0,
          new_lock example_dates (seen_by ''x'' 0 (CHR ''1'')) (seen_by ''x'' 0 (CHR ''2'')))]\<rparr>)"
proof -
  have "length later_views = 11" by (simp add: later_views_def)
  from stale_run [of second_starts "''b''", OF _ _ _ this first_lease_stale]
  show ?thesis unfolding second_holds_def by simp
qed

lemma second_holds_file:
  "lk_file second_holds =
     Some (new_lock example_dates (seen_by ''y'' 9 (CHR ''c'')) (seen_by ''y'' 9 (CHR ''d'')))"
  "lk_site second_holds ''a'' = Finished (Acquired first_lease)"
  by (simp_all add: second_holds_is) (simp add: later_views_def)

theorem stale_lock_taken_over_witness:
  "\<exists>m f. lk_site second_holds ''b'' = Finished (Acquired m)
    \<and> lk_file second_holds = Some f \<and> sn_payload f = Some (lock_to_dict example_dates m)
    \<and> lk_archives second_holds = [(archive_name ''t'' 0,
        new_lock example_dates (seen_by ''x'' 0 (CHR ''1'')) (seen_by ''x'' 0 (CHR ''2'')))]"
  using stale_lock_taken_over [of second_starts "''b''" _ later_views example_dates 5]
  by (simp add: first_lease_stale second_holds_def [symmetric]) (simp add: later_views_def seen_by_def)

lemma first_acquired: "acquired second_holds (lm_nonce first_lease)"
  using second_holds_file(2) unfolding acquired_def by blast

lemma first_lost: "fence_at_path example_dates (lk_file second_holds) (lm_nonce first_lease) = Inl Lock_fence"
proof -
  have "\<not> carries example_dates (lm_nonce first_lease) (lk_file second_holds)"
    using carries_written [of "new_lock example_dates (seen_by ''y'' 9 (CHR ''c'')) (seen_by ''y'' 9 (CHR ''d''))"
        example_dates "new_lease (seen_by ''y'' 9 (CHR ''c''))" "lm_nonce first_lease"]
    by (auto simp: second_holds_file(1) new_lock_def first_lease_def new_lease_def seen_by_def eval_nat_numeral)
  then show ?thesis
    by (auto simp: carries_def fence_at_path_def split: option.splits sum.splits if_splits)
qed

lemma both_run: "(lock_step (\<lambda>_ _. True) example_dates 5)\<^sup>*\<^sup>* (fresh_lock (\<lambda>_. Acquire)) second_holds"
  using first_run second_starts_run second_run by (meson rtranclp_trans)

lemma second_leaves:
  "lock_step (\<lambda>_ _. True) example_dates 5 second_holds (second_holds\<lparr>lk_guard := leave ''b'' guard_handed\<rparr>)"
proof (rule lock_step.guards)
  have g: "lk_guard second_holds = guard_handed" by (simp add: second_holds_is second_starts_def)
  show "guard_step (\<lambda>_ _. True) (lk_guard second_holds) (leave ''b'' guard_handed)"
    unfolding g by (rule guard_step.leaves) (rule guard_handed_is)
  show "\<forall>n t. phase_of (lk_guard second_holds) n = Holding t \<and> phase_of (leave ''b'' guard_handed) n = Gone
      \<longrightarrow> is_finished (lk_site second_holds n)"
    unfolding g by (auto simp: second_holds_is is_finished_def leave_def split: if_splits option.splits entry.splits)
qed

theorem lost_lease_stays_lost_witness:
  "fence_at_path example_dates (lk_file (second_holds\<lparr>lk_guard := leave ''b'' guard_handed\<rparr>))
     (lm_nonce first_lease) = Inl Lock_fence"
  by (rule lost_lease_stays_lost [OF both_run first_acquired first_lost]) (use second_leaves in blast)

theorem takeover_leaves_evidence_witness:
  "\<exists>name s. map_of (lk_archives second_holds) name = Some s
     \<and> fence_at_path example_dates (Some s) (lm_nonce first_lease) \<noteq> Inl Lock_fence"
proof -
  have "\<nexists>n. lk_site second_holds n = Finished (Released (lm_nonce first_lease))"
    by (auto simp: second_holds_is second_starts_def first_holds_is fresh_lock_def)
  then show ?thesis
    using takeover_leaves_evidence [OF example_dates_ok _ both_run first_acquired] first_lost by auto
qed

end
