(* ===== verification/Compile.thy ===== *)
theory Compile
  imports Engine StagingLayout "HOL-Library.AList"
begin

text \<open>
  The analysis of a proposal (\<open>TransactionEngine._analyze\<close> and what it calls in
  \<open>transactions/engine.py\<close>): each operation is compiled against the files of the workspace into a
  staged operation, an effect and an audit operation; the contents that the paths will have are
  collected in a dictionary, and conditions, references and record identities are judged on the
  overlay of that dictionary and the workspace.

  The engine's cache only repeats reads of a state that does not change meanwhile, so it is left
  out. Parameters are the schema library's parsing and rendering of documents, directory listings,
  the projection and the scanner for secrets.
\<close>

section \<open>Environment\<close>

text \<open>What the typed loaders make of a narrative file; an entity may carry observations.\<close>

datatype narrative =
    Narrative_entity entity "observation list"
  | Narrative_task task "observation list"
  | Narrative_claim claim
  | Narrative_observation observation

record acknowledgment =
  ack_path :: string
  ack_hash :: hash
  ack_at :: stamp
  ack_note :: "string option"

record compile_env =
  ce_context :: string
  ce_hash :: "content \<Rightarrow> hash"
  ce_hostok :: "string \<Rightarrow> bool"
  ce_render :: "bool \<Rightarrow> payload \<Rightarrow> content"
  ce_narrative :: "content \<Rightarrow> narrative option"
  ce_manifest :: "bool \<Rightarrow> content \<Rightarrow> artifact_manifest option"
  ce_loaded_identity :: "payload \<Rightarrow> content \<Rightarrow> string option"
  ce_hand_edits :: "payload \<Rightarrow> content \<Rightarrow> bool"
  ce_extras :: "payload \<Rightarrow> (string \<times> json) list"
  ce_observation :: "json \<Rightarrow> observation option"
  ce_listing :: "string \<Rightarrow> world \<Rightarrow> string list"
  ce_record :: "string \<Rightarrow> string option"
  ce_record_current :: bool
  ce_ready :: bool
  ce_casefold :: "string \<Rightarrow> string"
  ce_secret_text :: "content \<Rightarrow> bool option"
  ce_possible_secret :: "string \<Rightarrow> bool"
  ce_dump :: "proposal \<Rightarrow> json"
  ce_load_acks :: "content \<Rightarrow> acknowledgment list option"
  ce_dump_acks :: "acknowledgment list \<Rightarrow> content"
  ce_acks_ok :: "acknowledgment list \<Rightarrow> bool"
  ce_now :: stamp
  ce_body_references :: "string \<Rightarrow> string list"

definition problem :: "string \<Rightarrow> string \<Rightarrow> string \<Rightarrow> diagnostic" where
  "problem tag message path =
     \<lparr>dg_severity = Sev_error, dg_code = tag, dg_message = message, dg_path = Some path\<rparr>"

definition at_index :: "string \<Rightarrow> nat \<Rightarrow> string" where
  "at_index field i = field @ ''['' @ digits i @ '']''"

section \<open>Paths and files\<close>

definition suffix_lower :: "string \<Rightarrow> string" where
  "suffix_lower s = map lower_char (path_suffix s)"

definition resolve_operation_path :: "string \<Rightarrow> fpath reader" where
  "resolve_operation_path raw w =
     bind_result (resolve_context_path canonical_zones [] raw w) (\<lambda>p.
     bind_result (resolve_context_path [''99_meta''] [] ledger_path w) (\<lambda>ledger.
       if path_exists w ledger \<and> path_exists w p \<and> p = ledger then Inl Value_error else Inr p))"

text \<open>\<open>_read_optional_regular_file\<close>\<close>

definition read_operation_file :: "fpath \<Rightarrow> content option reader" where
  "read_operation_file p w =
     (case nodes w p of None \<Rightarrow> Inr None | Some (File c) \<Rightarrow> Inr (Some c) | Some Dir \<Rightarrow> Inl Value_error)"

definition document_path :: "string list \<Rightarrow> string list \<Rightarrow> string \<Rightarrow> fpath reader" where
  "document_path zones endings raw w =
     bind_result (resolve_context_path zones [] raw w) (\<lambda>p.
       if suffix_lower (as_posix p) \<notin> set endings then Inl Context_boundary else Inr p)"

section \<open>Identities\<close>

definition local_uri :: "compile_env \<Rightarrow> string \<Rightarrow> string \<Rightarrow> string" where
  "local_uri E t i = print_uri \<lparr>uri_context = ce_context E, uri_entity_type = t, uri_entity_id = i\<rparr>"

text \<open>The observations of an entity; those of evidence carry its identifier.\<close>

fun embedded_identities ::
  "compile_env \<Rightarrow> string option \<Rightarrow> string list \<Rightarrow> observation list \<Rightarrow> string list option" where
  "embedded_identities E owner seen [] = Some seen"
| "embedded_identities E owner seen (x # xs) =
     (if (case owner of None \<Rightarrow> False | Some i \<Rightarrow> \<not> prefix (i @ ''#OBS-'') (obs_id x)) then None
      else let identity = local_uri E ''observation'' (obs_id x) in
        if identity \<in> set seen then None
        else embedded_identities E owner (seen @ [identity]) xs)"

definition evidence_owner :: "'a entity_scheme \<Rightarrow> string option" where
  "evidence_owner e = (if ent_type e = ''evidence'' then Some (ent_id e) else None)"

definition markdown_identities :: "compile_env \<Rightarrow> content \<Rightarrow> exn + string list" where
  "markdown_identities E c =
     (case ce_narrative E c of
        None \<Rightarrow> Inl Value_error
      | Some (Narrative_entity e xs) \<Rightarrow>
          (case embedded_identities E (evidence_owner e) [ent_uri e] xs of
             None \<Rightarrow> Inl Value_error | Some ids \<Rightarrow> Inr ids)
      | Some (Narrative_task t xs) \<Rightarrow>
          (case embedded_identities E (evidence_owner t) [ent_uri t] xs of
             None \<Rightarrow> Inl Value_error | Some ids \<Rightarrow> Inr ids)
      | Some (Narrative_claim k) \<Rightarrow> Inr [local_uri E ''claim'' (claim_id k)]
      | Some (Narrative_observation x) \<Rightarrow> Inr [local_uri E ''observation'' (obs_id x)])"

definition operation_identities :: "compile_env \<Rightarrow> fpath \<Rightarrow> string list reader" where
  "operation_identities E p w =
     bind_result (read_operation_file p w) (\<lambda>c.
       case c of None \<Rightarrow> Inr [] | Some x \<Rightarrow> markdown_identities E x)"

definition payload_identity :: "compile_env \<Rightarrow> payload \<Rightarrow> string option" where
  "payload_identity E p =
     (case p of
        Entity_doc e _ \<Rightarrow> Some (ent_uri e)
      | Task_doc t _ \<Rightarrow> Some (ent_uri t)
      | Claim_doc c _ \<Rightarrow> Some (local_uri E ''claim'' (claim_id c))
      | Observation_doc x _ \<Rightarrow> Some (local_uri E ''observation'' (obs_id x))
      | _ \<Rightarrow> None)"

text \<open>The fields of an entity beyond its model; Python keeps them as JSON values.\<close>

definition embedded_observations :: "compile_env \<Rightarrow> payload \<Rightarrow> (nat \<times> observation) list" where
  "embedded_observations E p =
     (case p of
        Entity_doc e body \<Rightarrow>
          (case map_of (ce_extras E p) ''observations'' of
             Some (JList vs) \<Rightarrow>
               concat (map (\<lambda>(i, v). case ce_observation E v of None \<Rightarrow> [] | Some x \<Rightarrow> [(i, x)]) (enumerate 0 vs))
           | _ \<Rightarrow> [])
      | _ \<Rightarrow> [])"

text \<open>One pass over the embedded observations with the identifiers seen so far.\<close>

fun observation_problems ::
  "compile_env \<Rightarrow> string \<Rightarrow> entity \<Rightarrow> nat \<Rightarrow> string list \<Rightarrow> json list \<Rightarrow> diagnostic list" where
  "observation_problems E path e i seen [] = []"
| "observation_problems E path e i seen (v # vs) =
     (let location = at_index (path @ ''.document.observations'') i in
      case ce_observation E v of
        None \<Rightarrow> problem ''TXN-DOCUMENT-INVALID''
            ''An embedded observation does not satisfy the Observation model.'' location
          # observation_problems E path e (Suc i) seen vs
      | Some x \<Rightarrow>
          (if obs_id x \<in> set seen
           then [problem ''TXN-IDENTITY-COLLISION''
             ''An embedded observation identity occurs more than once.'' (location @ ''.id'')] else [])
          @ (if ent_type e = ''evidence'' \<and> \<not> prefix (ent_id e @ ''#OBS-'') (obs_id x)
             then [problem ''TXN-DOCUMENT-INVALID''
               ''An embedded observation must belong to its evidence identity.'' (location @ ''.id'')] else [])
          @ observation_problems E path e (Suc i) (obs_id x # seen) vs)"

definition structure_problems :: "compile_env \<Rightarrow> string \<Rightarrow> payload \<Rightarrow> diagnostic list" where
  "structure_problems E path p =
     (case p of
        Entity_doc e body \<Rightarrow>
          (case map_of (ce_extras E p) ''artifact_ref'' of
             None \<Rightarrow> []
           | Some v \<Rightarrow>
               if (case v of JStr s \<Rightarrow> parse_artifact s \<noteq> None | _ \<Rightarrow> False) then []
               else [problem ''TXN-REFERENCE-INVALID''
                 ''The evidence artifact reference is not a canonical artifact URI.''
                 (path @ ''.document.artifact_ref'')])
          @ (case map_of (ce_extras E p) ''observations'' of
               None \<Rightarrow> []
             | Some (JList vs) \<Rightarrow> observation_problems E path e 0 [] vs
             | Some _ \<Rightarrow> [problem ''TXN-DOCUMENT-INVALID''
                 ''Embedded observations must be a list of typed observations.''
                 (path @ ''.document.observations'')])
      | _ \<Rightarrow> [])"

definition payload_identities :: "compile_env \<Rightarrow> payload \<Rightarrow> (string \<times> string) list" where
  "payload_identities E p =
     (case payload_identity E p of None \<Rightarrow> [] | Some i \<Rightarrow> [(i, ''.document.id'')])
     @ map (\<lambda>(k, x). (local_uri E ''observation'' (obs_id x),
         at_index ''.document.observations'' k @ ''.id'')) (embedded_observations E p)"

definition narrative_zones :: "string list" where
  "narrative_zones = [''02_knowledge'', ''03_work'', ''05_outbox'']"

definition is_narrative_path :: "string \<Rightarrow> bool" where
  "is_narrative_path s \<longleftrightarrow>
     (let parts = path_of s in
      1 < length parts \<and> hd parts \<in> set narrative_zones \<and> suffix_lower s = ''.md'')"

section \<open>Preparing documents\<close>

definition require_entity_context :: "compile_env \<Rightarrow> string \<Rightarrow> exn + unit" where
  "require_entity_context E uri =
     (case parse_uri (ce_hostok E) uri of
        None \<Rightarrow> Inl Context_boundary
      | Some u \<Rightarrow> require (uri_in_context (ce_context E) u) Context_boundary)"

definition artifact_content_zones :: "string list" where
  "artifact_content_zones = [''00_inbox'', ''01_processed'']"

definition validate_artifact_paths :: "artifact_manifest \<Rightarrow> unit reader" where
  "validate_artifact_paths m w =
     bind_result (resolve_context_path artifact_content_zones [] (art_preserved_path m) w) (\<lambda>_.
     bind_result (map_results (\<lambda>s. resolve_context_path artifact_content_zones [] s w) (art_sidecars m)) (\<lambda>_.
       Inr ()))"

definition entity_zones :: "string list" where
  "entity_zones = [''02_knowledge'', ''03_work'', ''05_outbox'']"

definition manifest_suffixes :: "string list" where
  "manifest_suffixes = [''.yaml'', ''.yml'', ''.json'']"

text \<open>\<open>CanonicalStore.prepare_entity\<close>, \<open>prepare_task\<close> and \<open>prepare_artifact_manifest\<close>: the target as it
  will be written, and the bytes.\<close>

definition prepare_entity :: "compile_env \<Rightarrow> string \<Rightarrow> entity \<Rightarrow> string \<Rightarrow> (string \<times> content) reader" where
  "prepare_entity E target e body w =
     bind_result (document_path entity_zones [''.md''] target w) (\<lambda>p.
     bind_result (require (ent_type e \<noteq> ''task'') Context_boundary) (\<lambda>_.
     bind_result (require_entity_context E (ent_uri e)) (\<lambda>_.
       Inr (as_posix p, ce_render E False (Entity_doc e body)))))"

definition prepare_task :: "compile_env \<Rightarrow> string \<Rightarrow> task \<Rightarrow> string \<Rightarrow> (string \<times> content) reader" where
  "prepare_task E target t body w =
     bind_result (document_path [''03_work''] [''.md''] target w) (\<lambda>p.
     bind_result (require_entity_context E (ent_uri t)) (\<lambda>_.
       Inr (as_posix p, ce_render E False (Task_doc t body))))"

definition prepare_artifact_manifest ::
  "compile_env \<Rightarrow> string \<Rightarrow> artifact_manifest \<Rightarrow> (string \<times> content) reader" where
  "prepare_artifact_manifest E target m w =
     bind_result (document_path [''00_inbox/manifests''] manifest_suffixes target w) (\<lambda>p.
     bind_result (validate_artifact_paths m w) (\<lambda>_.
       Inr (as_posix p, ce_render E (suffix_lower (as_posix p) = ''.json'') (Artifact_doc m))))"

definition prepare_document :: "compile_env \<Rightarrow> string \<Rightarrow> payload \<Rightarrow> (string \<times> content) reader" where
  "prepare_document E target p w =
     (case p of
        Entity_doc e body \<Rightarrow> prepare_entity E target e body w
      | Task_doc t body \<Rightarrow> prepare_task E target t body w
      | Artifact_doc m \<Rightarrow> prepare_artifact_manifest E target m w
      | Claim_doc c body \<Rightarrow>
          bind_result (resolve_operation_path target w) (\<lambda>_. Inr (target, ce_render E False p))
      | Observation_doc x body \<Rightarrow>
          bind_result (resolve_operation_path target w) (\<lambda>_. Inr (target, ce_render E False p))
      | _ \<Rightarrow> Inl Value_error)"

definition require_stable_identity :: "compile_env \<Rightarrow> payload \<Rightarrow> content \<Rightarrow> exn + unit" where
  "require_stable_identity E p current =
     (case ce_loaded_identity E p current of
        None \<Rightarrow> Inl Value_error
      | Some i \<Rightarrow>
          require (Some i = (case p of Artifact_doc m \<Rightarrow> Some (art_id m) | _ \<Rightarrow> payload_identity E p)) Value_error)"

fun narrative_id :: "narrative \<Rightarrow> string" where
  "narrative_id (Narrative_entity e xs) = ent_id e"
| "narrative_id (Narrative_task t xs) = ent_id t"
| "narrative_id (Narrative_claim c) = claim_id c"
| "narrative_id (Narrative_observation x) = obs_id x"

definition validate_move_destination :: "compile_env \<Rightarrow> string \<Rightarrow> string \<Rightarrow> content \<Rightarrow> exn + unit" where
  "validate_move_destination E source destination c =
     (let source_zone = hd (path_of source); zone = hd (path_of destination) in
      if source_zone \<notin> set narrative_zones \<and> zone \<notin> set narrative_zones then Inr ()
      else if zone \<notin> set narrative_zones \<or> suffix_lower destination \<noteq> ''.md'' then Inl Value_error
      else case ce_narrative E c of
        None \<Rightarrow> Inl Value_error
      | Some n \<Rightarrow>
          if (case n of Narrative_task t xs \<Rightarrow> zone \<noteq> ''03_work'' | _ \<Rightarrow> False) then Inl Value_error
          else require (path_stem destination \<in> {narrative_id n, quote ''-._~'' (narrative_id n)}) Value_error)"

section \<open>Compiling operations\<close>

record progress =
  pg_writes :: "staged_op list"
  pg_effects :: "operation_effect list"
  pg_audit :: "audit_operation list"
  pg_final :: "(string \<times> content option) list"
  pg_identities :: "(string \<times> string) list"
  pg_locations :: "(string \<times> string) list"
  pg_diagnostics :: "diagnostic list"

definition no_progress :: progress where
  "no_progress = \<lparr>pg_writes = [], pg_effects = [], pg_audit = [], pg_final = [], pg_identities = [],
     pg_locations = [], pg_diagnostics = []\<rparr>"

definition add_identity :: "string \<Rightarrow> string \<Rightarrow> string \<times> string \<Rightarrow> progress \<Rightarrow> progress" where
  "add_identity target payload_path = (\<lambda>(identity, location) s.
     let identity_path = payload_path @ location in
     if identity \<in> fst ` set (pg_identities s)
     then s\<lparr>pg_diagnostics := pg_diagnostics s @
       [problem ''TXN-IDENTITY-COLLISION'' ''A staged document identity occurs more than once.'' identity_path]\<rparr>
     else s\<lparr>pg_identities := AList.update identity target (pg_identities s),
            pg_locations := AList.update identity identity_path (pg_locations s)\<rparr>)"

definition record_operation ::
  "staged_op \<Rightarrow> operation_effect \<Rightarrow> audit_operation \<Rightarrow> (string \<times> content option) list \<Rightarrow> progress \<Rightarrow> progress" where
  "record_operation write effect audit final s =
     s\<lparr>pg_writes := pg_writes s @ [write], pg_effects := pg_effects s @ [effect],
       pg_audit := pg_audit s @ [audit],
       pg_final := fold (\<lambda>(p, c). AList.update p c) final (pg_final s)\<rparr>"

definition hand_edit_warning :: "nat \<Rightarrow> diagnostic" where
  "hand_edit_warning order =
     \<lparr>dg_severity = Sev_warning, dg_code = ''TXN-HAND-EDITS'',
      dg_message = ''The update will canonicalize a hand-edited document.'',
      dg_path = Some (at_index ''operations'' order @ ''.target'')\<rparr>"

text \<open>What a create or update finds at its target: the preimage hash, whether the document was edited
  by hand, and the audit operation.\<close>

definition check_target ::
  "compile_env \<Rightarrow> operation \<Rightarrow> content \<Rightarrow> (hash option \<times> bool \<times> audit_operation) reader" where
  "check_target E op c w =
     (case op of
        Create target p \<Rightarrow>
          bind_result (resolve_operation_path target w) (\<lambda>path.
          bind_result (read_operation_file path w) (\<lambda>current.
          bind_result (require (current = None) Value_error) (\<lambda>_.
          bind_result (require (is_dir w (butlast path)) Value_error) (\<lambda>_.
            Inr (None, False, Audit_create target (ce_hash E c))))))
      | Update target p expected \<Rightarrow>
          bind_result (resolve_operation_path target w) (\<lambda>path.
          bind_result (read_operation_file path w) (\<lambda>current.
            case current of
              None \<Rightarrow> Inl Value_error
            | Some old \<Rightarrow>
                bind_result (require (ce_hash E old = expected) Value_error) (\<lambda>_.
                bind_result (require_stable_identity E p old) (\<lambda>_.
                  Inr (Some (ce_hash E old), ce_hand_edits E p old,
                       Audit_update target (ce_hash E old) (ce_hash E c))))))
      | _ \<Rightarrow> Inl Value_error)"

definition compile_document ::
  "compile_env \<Rightarrow> nat \<Rightarrow> operation \<Rightarrow> string \<Rightarrow> payload \<Rightarrow> effect_kind \<Rightarrow> progress \<Rightarrow> progress reader" where
  "compile_document E order op target p kind s w =
     (let payload_path = at_index ''operations'' order @ ''.payload'';
          s1 = s\<lparr>pg_diagnostics := pg_diagnostics s @ structure_problems E payload_path p\<rparr> in
      bind_result (prepare_document E target p w) (\<lambda>(written, c).
      bind_result (check_target E op c w) (\<lambda>(preimage, edited, audit).
        let s2 = s1\<lparr>pg_diagnostics := pg_diagnostics s1 @ (if edited then [hand_edit_warning order] else [])\<rparr>;
            s3 = fold (add_identity target payload_path) (payload_identities E p) s2 in
        Inr (record_operation (Staged_write written c)
          \<lparr>eff_order = order, eff_op = kind, eff_target = target, eff_destination = None,
           eff_preimage = preimage, eff_postimage = Some (ce_hash E c), eff_hand_edits = edited\<rparr>
          audit [(target, Some c)] s3))))"

definition compile_move ::
  "compile_env \<Rightarrow> nat \<Rightarrow> string \<Rightarrow> string \<Rightarrow> hash \<Rightarrow> progress \<Rightarrow> progress reader" where
  "compile_move E order source destination expected s w =
     bind_result (resolve_operation_path source w) (\<lambda>source_path.
     bind_result (resolve_operation_path destination w) (\<lambda>destination_path.
     bind_result (read_operation_file source_path w) (\<lambda>current.
     case current of
       None \<Rightarrow> Inl Value_error
     | Some c \<Rightarrow>
         bind_result (require (ce_hash E c = expected) Value_error) (\<lambda>_.
         bind_result (read_operation_file destination_path w) (\<lambda>existing.
         bind_result (require (existing = None) Value_error) (\<lambda>_.
         bind_result (require (is_dir w (butlast destination_path)) Value_error) (\<lambda>_.
         bind_result (validate_move_destination E source destination c) (\<lambda>_.
           Inr (record_operation (Staged_move source destination)
             \<lparr>eff_order = order, eff_op = Effect_move, eff_target = source,
              eff_destination = Some destination, eff_preimage = Some expected,
              eff_postimage = Some expected, eff_hand_edits = False\<rparr>
             (Audit_move source destination expected)
             [(source, None), (destination, Some c)] s))))))))) "

definition compile_delete :: "compile_env \<Rightarrow> nat \<Rightarrow> string \<Rightarrow> hash \<Rightarrow> progress \<Rightarrow> progress reader" where
  "compile_delete E order target expected s w =
     bind_result (resolve_operation_path target w) (\<lambda>path.
     bind_result (read_operation_file path w) (\<lambda>current.
     bind_result (require (map_option (ce_hash E) current = Some expected) Value_error) (\<lambda>_.
       Inr (record_operation (Staged_delete target)
         \<lparr>eff_order = order, eff_op = Effect_delete, eff_target = target, eff_destination = None,
          eff_preimage = Some expected, eff_postimage = None, eff_hand_edits = False\<rparr>
         (Audit_delete_generated target expected) [(target, None)] s))))"

definition compile_operation :: "compile_env \<Rightarrow> nat \<Rightarrow> operation \<Rightarrow> progress \<Rightarrow> progress reader" where
  "compile_operation E order op s w =
     (case op of
        Create target p \<Rightarrow> compile_document E order op target p Effect_create s w
      | Update target p expected \<Rightarrow> compile_document E order op target p Effect_update s w
      | Move source destination expected \<Rightarrow> compile_move E order source destination expected s w
      | Delete_generated target expected \<Rightarrow> compile_delete E order target expected s w)"

fun compile_operations :: "compile_env \<Rightarrow> nat \<Rightarrow> operation list \<Rightarrow> progress \<Rightarrow> progress reader" where
  "compile_operations E order [] s w = Inr s"
| "compile_operations E order (op # ops) s w =
     bind_result (compile_operation E order op s w) (\<lambda>s'. compile_operations E (order + 1) ops s' w)"

end
