(* ===== verification/Analysis.thy ===== *)
theory Analysis
  imports Compile
begin

text \<open>
  The second half of the analysis: artifact manifests and record identities of the overlay, the
  acknowledgment of possible secrets, conditions, references, and \<open>_analyze\<close> itself.
\<close>

section \<open>Artifact manifests\<close>

definition load_manifest :: "compile_env \<Rightarrow> string \<Rightarrow> content \<Rightarrow> artifact_manifest option" where
  "load_manifest E path c = ce_manifest E (suffix_lower path = ''.json'') c"

definition manifest_directory :: string where
  "manifest_directory = ''00_inbox/manifests''"

fun final_manifests :: "compile_env \<Rightarrow> (string \<times> content option) list \<Rightarrow> (string \<times> artifact_manifest) list option" where
  "final_manifests E [] = Some []"
| "final_manifests E ((path, c) # rest) =
     (if c = None \<or> butlast (path_of path) \<noteq> path_of manifest_directory
         \<or> suffix_lower path \<notin> set manifest_suffixes
      then final_manifests E rest
      else case load_manifest E path (the c) of
             None \<Rightarrow> None
           | Some m \<Rightarrow> map_option ((#) (path, m)) (final_manifests E rest))"

text \<open>\<open>CanonicalStore.read_artifact_manifest\<close>\<close>

definition read_manifest :: "compile_env \<Rightarrow> string \<Rightarrow> artifact_manifest reader" where
  "read_manifest E path w =
     bind_result (document_path [manifest_directory] manifest_suffixes path w) (\<lambda>p.
     bind_result (read_file p w) (\<lambda>c.
     case load_manifest E path c of
       None \<Rightarrow> Inl Value_error
     | Some m \<Rightarrow> bind_result (validate_artifact_paths m w) (\<lambda>_. Inr m)))"

definition canonical_manifests :: "compile_env \<Rightarrow> world \<Rightarrow> (string \<times> artifact_manifest) list" where
  "canonical_manifests E w =
     concat (map (\<lambda>path. case read_manifest E path w of Inr m \<Rightarrow> [(path, m)] | Inl _ \<Rightarrow> [])
       (filter (\<lambda>path. suffix_lower path \<in> set manifest_suffixes) (ce_listing E manifest_directory w)))"

definition manifest_paths_by_id :: "compile_env \<Rightarrow> string \<Rightarrow> string list \<Rightarrow> world \<Rightarrow> string list" where
  "manifest_paths_by_id E i excluded w =
     map fst (filter (\<lambda>(path, m). path \<notin> set excluded \<and> art_id m = i) (canonical_manifests E w))"

definition manifest_paths_by_digest :: "compile_env \<Rightarrow> string \<Rightarrow> string list \<Rightarrow> world \<Rightarrow> string list" where
  "manifest_paths_by_digest E digest excluded w =
     map fst (filter (\<lambda>(path, m). path \<notin> set excluded \<and> art_content_hash m = ''sha256:'' @ digest)
       (canonical_manifests E w))"

definition artifact_problems ::
  "compile_env \<Rightarrow> (string \<times> content option) list \<Rightarrow> string list \<Rightarrow> string \<times> artifact_manifest \<Rightarrow> world \<Rightarrow> diagnostic list"
where
  "artifact_problems E final seen = (\<lambda>(path, m) w.
     (if art_id m \<in> set seen
      then [problem ''TXN-ARTIFACT-IDENTITY-COLLISION''
        ''A final artifact identity has more than one manifest owner.'' path] else [])
     @ (if manifest_paths_by_id E (art_id m) (map fst final) w \<noteq> []
        then [problem ''TXN-ARTIFACT-IDENTITY-COLLISION''
          ''A final artifact identity already has an untouched manifest owner.'' path] else []))"

fun all_artifact_problems ::
  "compile_env \<Rightarrow> (string \<times> content option) list \<Rightarrow> string list \<Rightarrow> (string \<times> artifact_manifest) list \<Rightarrow> world \<Rightarrow> diagnostic list"
where
  "all_artifact_problems E final seen [] w = []"
| "all_artifact_problems E final seen (x # xs) w =
     artifact_problems E final seen x w @ all_artifact_problems E final (art_id (snd x) # seen) xs w"

section \<open>Record identities\<close>

definition readme :: "compile_env \<Rightarrow> string \<Rightarrow> bool" where
  "readme E path \<longleftrightarrow> ce_casefold E (last (path_of path)) = ''readme.md''"

definition zone_documents :: "compile_env \<Rightarrow> string \<Rightarrow> world \<Rightarrow> string list" where
  "zone_documents E zone w = filter (\<lambda>path. \<not> readme E path) (ce_listing E zone w)"

definition zone_identities :: "compile_env \<Rightarrow> string list \<Rightarrow> string \<Rightarrow> string list reader" where
  "zone_identities E zones path w =
     bind_result (resolve_context_path zones [] path w) (\<lambda>p. operation_identities E p w)"

definition outbox_identity_paths :: "compile_env \<Rightarrow> string \<Rightarrow> world \<Rightarrow> string list" where
  "outbox_identity_paths E identity w =
     filter (\<lambda>path. case zone_identities E [''05_outbox''] path w of
         Inr ids \<Rightarrow> identity \<in> set ids | Inl _ \<Rightarrow> False)
       (zone_documents E ''05_outbox'' w)"

definition indexed_identities :: "compile_env \<Rightarrow> (string \<times> string) list reader" where
  "indexed_identities E w =
     bind_result (map_results (\<lambda>(zone, path).
         bind_result (zone_identities E [zone] path w) (\<lambda>ids. Inr (map (\<lambda>i. (i, path)) ids)))
       (concat (map (\<lambda>zone. map (Pair zone) (zone_documents E zone w)) [''02_knowledge'', ''03_work''])))
     (\<lambda>xs. Inr (concat xs))"

definition projection_matches :: "compile_env \<Rightarrow> bool reader" where
  "projection_matches E w =
     (if ce_record_current E then Inr True
      else bind_result (indexed_identities E w) (\<lambda>xs.
        Inr (list_all (\<lambda>(identity, path). ce_record E identity = Some path) xs)))"

definition record_is_current :: "compile_env \<Rightarrow> string \<Rightarrow> string \<Rightarrow> world \<Rightarrow> bool" where
  "record_is_current E identity path w =
     (case zone_identities E [''02_knowledge'', ''03_work''] path w of
        Inr ids \<Rightarrow> identity \<in> set ids | Inl _ \<Rightarrow> False)"

definition narrative_finals :: "(string \<times> content option) list \<Rightarrow> (string \<times> content) list" where
  "narrative_finals final =
     map (\<lambda>(path, c). (path, the c)) (filter (\<lambda>(path, c). c \<noteq> None \<and> is_narrative_path path) final)"

text \<open>Who owns each identity among the staged files.\<close>

definition overlay_owners :: "compile_env \<Rightarrow> (string \<times> content) list \<Rightarrow> (string \<times> string) list" where
  "overlay_owners E files =
     concat (map (\<lambda>(path, c).
       case markdown_identities E c of Inl _ \<Rightarrow> [] | Inr ids \<Rightarrow> map (\<lambda>i. (i, path)) ids) files)"

definition invalid_documents :: "compile_env \<Rightarrow> (string \<times> content) list \<Rightarrow> diagnostic list" where
  "invalid_documents E files =
     concat (map (\<lambda>(path, c).
       case markdown_identities E c of
         Inl _ \<Rightarrow> [problem ''TXN-DOCUMENT-INVALID''
           ''A staged narrative document has invalid record identities.'' path]
       | Inr _ \<Rightarrow> []) files)"

definition owners_of :: "(string \<times> string) list \<Rightarrow> string \<Rightarrow> string list" where
  "owners_of owners identity = map snd (filter (\<lambda>(i, path). i = identity) owners)"

definition current_owners :: "compile_env \<Rightarrow> string \<Rightarrow> world \<Rightarrow> string list" where
  "current_owners E identity w =
     outbox_identity_paths E identity w
     @ (case ce_record E identity of
          None \<Rightarrow> []
        | Some path \<Rightarrow> if record_is_current E identity path w then [path] else [])"

definition identity_problems ::
  "compile_env \<Rightarrow> (string \<times> content option) list \<Rightarrow> (string \<times> string) list \<Rightarrow> (string \<times> string) list
    \<Rightarrow> string \<Rightarrow> world \<Rightarrow> diagnostic list"
where
  "identity_problems E final locations owners identity w =
     (let staged = owners_of owners identity;
          path = (case map_of locations identity of Some l \<Rightarrow> l | None \<Rightarrow> Min (set staged)) in
      (if 1 < card (set staged)
       then [problem ''TXN-IDENTITY-COLLISION''
         ''A final staged identity has more than one document owner.'' path] else [])
      @ (if set (current_owners E identity w) - fst ` set final \<noteq> {}
         then [problem ''TXN-IDENTITY-COLLISION''
           ''A final staged identity already has an untouched canonical owner.'' path] else []))"

definition overlay_problems ::
  "compile_env \<Rightarrow> (string \<times> content option) list \<Rightarrow> (string \<times> string) list \<Rightarrow> world \<Rightarrow> diagnostic list"
where
  "overlay_problems E final locations w =
     (let files = narrative_finals final; owners = overlay_owners E files in
      invalid_documents E files
      @ concat (map (\<lambda>i. identity_problems E final locations owners i w) (sort (remdups (map fst owners)))))"

text \<open>\<open>_compile\<close>\<close>

definition compile_proposal :: "compile_env \<Rightarrow> proposal \<Rightarrow> (compiled \<times> diagnostic list) reader" where
  "compile_proposal E p w =
     bind_result (compile_operations E 0 (prop_operations p) no_progress w) (\<lambda>s.
     case final_manifests E (sort_key fst (pg_final s)) of
       None \<Rightarrow> Inl Value_error
     | Some ms \<Rightarrow>
         Inr (\<lparr>cp_writes = pg_writes s, cp_effects = pg_effects s, cp_audit = pg_audit s,
               cp_final = pg_final s, cp_identities = map fst (pg_identities s),
               cp_artifact_ids = map (art_id \<circ> snd) ms,
               cp_artifact_digests = map (\<lambda>(path, m). drop 7 (art_content_hash m)) ms,
               cp_acknowledged = []\<rparr>,
              pg_diagnostics s @ all_artifact_problems E (pg_final s) [] ms w
                @ overlay_problems E (pg_final s) (pg_locations s) w))"

section \<open>Acknowledged secrets\<close>

definition acknowledgments_path :: string where
  "acknowledgments_path = ''99_meta/secret-scan-acknowledgments.yaml''"

definition ack_problem :: "string \<Rightarrow> string \<Rightarrow> diagnostic" where
  "ack_problem path message = problem ''CTX-SECRET-ACKNOWLEDGMENT-INVALID'' message path"

definition check_requested ::
  "compile_env \<Rightarrow> compiled \<Rightarrow> nat \<Rightarrow> string \<Rightarrow> string list \<Rightarrow> string + content" where
  "check_requested E c index candidate seen =
     (if ce_casefold E candidate \<in> set seen
      then Inl ''Each requested acknowledgment path must be unique.''
      else case map_of (cp_final c) candidate of
        None \<Rightarrow> Inl ''An acknowledgment path is not a written transaction postimage.''
      | Some None \<Rightarrow> Inl ''An acknowledgment path is not a written transaction postimage.''
      | Some (Some x) \<Rightarrow>
          (case ce_secret_text E x of
             None \<Rightarrow> Inl ''An acknowledgment path does not contain UTF-8 text.''
           | Some False \<Rightarrow> Inl ''A written acknowledgment path has no possible-secret finding.''
           | Some True \<Rightarrow> Inr x))"

fun check_all_requested ::
  "compile_env \<Rightarrow> compiled \<Rightarrow> nat \<Rightarrow> string list \<Rightarrow> string list \<Rightarrow> diagnostic list \<times> (string \<times> content) list" where
  "check_all_requested E c index seen [] = ([], [])"
| "check_all_requested E c index seen (x # xs) =
     (let (ds, ok) = check_all_requested E c (index + 1) (ce_casefold E x # seen) xs in
      case check_requested E c index x seen of
        Inl message \<Rightarrow> (ack_problem (at_index ''acknowledge_possible_secret'' index) message # ds, ok)
      | Inr content \<Rightarrow> (ds, (x, content) # ok))"

definition add_acknowledgment ::
  "compile_env \<Rightarrow> string \<times> content \<Rightarrow> (string \<times> acknowledgment) list \<Rightarrow> (string \<times> acknowledgment) list" where
  "add_acknowledgment E = (\<lambda>(path, c) entries.
     let k = ce_casefold E path in
     AList.update k \<lparr>ack_path = path, ack_hash = ce_hash E c, ack_at = ce_now E,
       ack_note = (case map_of entries k of None \<Rightarrow> None | Some a \<Rightarrow> ack_note a)\<rparr> entries)"

definition acknowledged_record ::
  "compile_env \<Rightarrow> acknowledgment list \<Rightarrow> (string \<times> content) list \<Rightarrow> acknowledgment list" where
  "acknowledged_record E existing eligible =
     (let entries = fold (add_acknowledgment E) eligible
        (fold (\<lambda>a. AList.update (ce_casefold E (ack_path a)) a) existing []) in
      sort_key (\<lambda>a. (ce_casefold E (ack_path a), ack_path a)) (map snd entries))"

definition with_acknowledgments :: "compile_env \<Rightarrow> content option \<Rightarrow> content \<Rightarrow> string list \<Rightarrow> compiled \<Rightarrow> compiled" where
  "with_acknowledgments E current new paths c =
     (let h = ce_hash E new; before_hash = map_option (ce_hash E) current in
      c\<lparr>cp_writes := cp_writes c @ [Staged_write acknowledgments_path new],
        cp_effects := cp_effects c @
          [\<lparr>eff_order = length (cp_effects c),
            eff_op = (if current = None then Effect_create else Effect_update),
            eff_target = acknowledgments_path, eff_destination = None, eff_preimage = before_hash,
            eff_postimage = Some h, eff_hand_edits = False\<rparr>],
        cp_audit := cp_audit c @
          [case before_hash of
             None \<Rightarrow> Audit_create acknowledgments_path h
           | Some b \<Rightarrow> Audit_update acknowledgments_path b h],
        cp_final := AList.update acknowledgments_path (Some new) (cp_final c),
        cp_acknowledged := sort_key (\<lambda>p. (ce_casefold E p, p)) paths\<rparr>)"

definition current_acknowledgments :: "compile_env \<Rightarrow> (content option \<times> acknowledgment list) option reader" where
  "current_acknowledgments E w =
     bind_result (resolve_operation_path acknowledgments_path w) (\<lambda>path.
     bind_result (read_operation_file path w) (\<lambda>current.
       Inr (case current of
          None \<Rightarrow> Some (None, [])
        | Some x \<Rightarrow> map_option (Pair (Some x)) (ce_load_acks E x))))"

definition compile_acknowledgments ::
  "compile_env \<Rightarrow> compiled \<Rightarrow> string list \<Rightarrow> world \<Rightarrow> compiled \<times> diagnostic list" where
  "compile_acknowledgments E c asked w =
     (if ce_casefold E acknowledgments_path \<in> ce_casefold E ` fst ` set (cp_final c)
      then (c, [ack_problem acknowledgments_path
        ''The proposal cannot write or move the acknowledgment file directly.''])
      else if asked = [] then (c, [])
      else let (ds, eligible) = check_all_requested E c 0 [] asked in
        if ds \<noteq> [] then (c, ds)
        else case current_acknowledgments E w of
          Inl err \<Rightarrow> (c, [ack_problem acknowledgments_path
            ''The canonical secret-scan acknowledgment path is not a readable regular file.''])
        | Inr None \<Rightarrow> (c, [ack_problem acknowledgments_path
            ''The canonical secret-scan acknowledgment file is invalid.''])
        | Inr (Some (current, existing)) \<Rightarrow>
            let acks = acknowledged_record E existing eligible in
            if \<not> ce_acks_ok E acks
            then (c, [ack_problem ''acknowledge_possible_secret''
              ''A requested acknowledgment path is invalid.''])
            else (with_acknowledgments E current (ce_dump_acks E acks) (map fst eligible) c, []))"

definition secret_keys :: "string list" where
  "secret_keys = [''access_token'', ''api_key'', ''authorization'', ''client_secret'', ''password'',
     ''private_key'', ''secret'', ''secret_access_key'', ''token'']"

definition nonempty_secret_value :: "json \<Rightarrow> bool" where
  "nonempty_secret_value v \<longleftrightarrow> v \<noteq> JNull \<and> v \<noteq> JStr [] \<and> v \<noteq> JBool False"

lemma in_enumerate: "(i, v) \<in> set (enumerate n vs) \<Longrightarrow> v \<in> set vs"
  by (auto simp: enumerate_eq_zip dest: set_zip_rightD)

lemma size_member: "(key, v) \<in> set members \<Longrightarrow> size v < Suc (size_list (size_prod f size) members)"
  by (induction members) auto

text \<open>Where the JSON form of the proposal holds a value that looks like a secret.\<close>

function secret_locations :: "compile_env \<Rightarrow> string \<Rightarrow> json \<Rightarrow> string list" where
  "secret_locations E path (JObj members) =
     concat (map (\<lambda>(key, child).
       if ce_casefold E key \<in> set secret_keys \<and> nonempty_secret_value child then [path @ ''.'' @ key]
       else secret_locations E (path @ ''.'' @ key) child) members)"
| "secret_locations E path (JList vs) =
     concat (map (\<lambda>(i, v). secret_locations E (at_index path i) v) (enumerate 0 vs))"
| "secret_locations E path (JStr s) = (if ce_possible_secret E s then [path] else [])"
| "secret_locations E path (JInt n) = []"
| "secret_locations E path (JBool b) = []"
| "secret_locations E path JNull = []"
  by pat_completeness auto

termination
  by (relation "measure (\<lambda>(E, path, v). size v)")
    (auto simp: size_member less_Suc_eq_le dest!: in_enumerate intro: size_list_estimation')

text \<open>Locations inside the payload of an operation whose target was acknowledged are ignored.\<close>

definition secret_ignored :: "string list \<Rightarrow> proposal \<Rightarrow> string \<Rightarrow> bool" where
  "secret_ignored acknowledged p location \<longleftrightarrow>
     (\<exists>(i, op)\<in>set (enumerate 0 (prop_operations p)).
        (case op of Create t x \<Rightarrow> t \<in> set acknowledged | Update t x h \<Rightarrow> t \<in> set acknowledged | _ \<Rightarrow> False)
        \<and> (let pre = at_index ''$.operations'' i @ ''.payload'' in
           location = pre \<or> prefix (pre @ ''.'') location \<or> prefix (pre @ ''['') location))"

definition secret_problems :: "compile_env \<Rightarrow> proposal \<Rightarrow> string list \<Rightarrow> diagnostic list" where
  "secret_problems E p acknowledged =
     map (problem ''TXN-POSSIBLE-SECRET'' ''The proposal contains a secret-looking value.'')
       (filter (\<lambda>l. \<not> secret_ignored acknowledged p l) (secret_locations E ''$'' (ce_dump E p)))"

section \<open>Conditions\<close>

definition reference_exists :: "compile_env \<Rightarrow> string \<Rightarrow> compiled \<Rightarrow> bool \<Rightarrow> bool reader" where
  "reference_exists E reference c overlay w =
     (let excluded = (if overlay then map fst (cp_final c) else []) in
      case parse_durable_reference (ce_hostok E) reference of
        None \<Rightarrow> Inl Value_error
      | Some (Workctx_ref u) \<Rightarrow>
          if uri_entity_type u = ''artifact''
          then Inr ((overlay \<and> uri_entity_id u \<in> set (cp_artifact_ids c))
                 \<or> manifest_paths_by_id E (uri_entity_id u) excluded w \<noteq> [])
          else let identity = print_uri u in
            Inr ((overlay \<and> identity \<in> fst ` set (overlay_owners E (narrative_finals (cp_final c))))
               \<or> (case ce_record E identity of
                    None \<Rightarrow> False
                  | Some path \<Rightarrow> path \<notin> set excluded \<and> record_is_current E identity path w)
               \<or> (\<exists>path\<in>set (outbox_identity_paths E identity w). path \<notin> set excluded))
      | Some (Artifact_ref digest) \<Rightarrow>
          Inr ((overlay \<and> digest \<in> set (cp_artifact_digests c))
             \<or> manifest_paths_by_digest E digest excluded w \<noteq> [])
      | Some _ \<Rightarrow> Inr False)"

definition condition_content :: "compile_env \<Rightarrow> string \<Rightarrow> compiled \<Rightarrow> bool \<Rightarrow> content option reader" where
  "condition_content E path c final_state w =
     (if final_state \<and> path \<in> fst ` set (cp_final c) then Inr (the (map_of (cp_final c) path))
      else bind_result (resolve_operation_path path w) (\<lambda>p. read_operation_file p w))"

definition content_condition :: "compile_env \<Rightarrow> condition \<Rightarrow> content option \<Rightarrow> bool" where
  "content_condition E cond x \<longleftrightarrow>
     (case cond of
        Path_exists _ \<Rightarrow> x \<noteq> None
      | Path_absent _ \<Rightarrow> x = None
      | Path_hash _ h \<Rightarrow> map_option (ce_hash E) x = Some h
      | Reference_exists _ \<Rightarrow> False)"

fun condition_path :: "condition \<Rightarrow> string option" where
  "condition_path (Path_exists p) = Some p"
| "condition_path (Path_absent p) = Some p"
| "condition_path (Path_hash p h) = Some p"
| "condition_path (Reference_exists r) = None"

definition condition_satisfied :: "compile_env \<Rightarrow> condition \<Rightarrow> compiled \<Rightarrow> bool \<Rightarrow> bool reader" where
  "condition_satisfied E cond c final_state w =
     (case cond of
        Reference_exists r \<Rightarrow> reference_exists E r c final_state w
      | _ \<Rightarrow> bind_result (condition_content E (the (condition_path cond)) c final_state w) (\<lambda>x.
          Inr (content_condition E cond x)))"

definition condition_problems ::
  "compile_env \<Rightarrow> condition list \<Rightarrow> compiled \<Rightarrow> bool \<Rightarrow> string \<Rightarrow> world \<Rightarrow> diagnostic list" where
  "condition_problems E conditions c final_state field w =
     concat (map (\<lambda>(i, cond).
       case condition_satisfied E cond c final_state w of
         Inl _ \<Rightarrow> [problem ''TXN-CONDITION-INVALID''
           ''A transaction condition does not address a safe regular file.'' (at_index field i)]
       | Inr True \<Rightarrow> []
       | Inr False \<Rightarrow> [problem ''TXN-CONDITION-FAILED''
           ''A transaction condition is not satisfied.'' (at_index field i)])
       (enumerate 0 conditions))"

text \<open>The same conditions on the live workspace, after the files were replaced.\<close>

definition live_reference_exists :: "compile_env \<Rightarrow> string \<Rightarrow> bool reader" where
  "live_reference_exists E reference w =
     (case parse_durable_reference (ce_hostok E) reference of
        None \<Rightarrow> Inl Value_error
      | Some (Workctx_ref u) \<Rightarrow>
          if uri_entity_type u = ''artifact'' then Inr (manifest_paths_by_id E (uri_entity_id u) [] w \<noteq> [])
          else bind_result (map_results (\<lambda>(zone, path). zone_identities E [zone] path w)
              (concat (map (\<lambda>zone. map (Pair zone) (zone_documents E zone w)) entity_zones))) (\<lambda>xs.
            Inr (\<exists>ids\<in>set xs. print_uri u \<in> set ids))
      | Some (Artifact_ref digest) \<Rightarrow> Inr (manifest_paths_by_digest E digest [] w \<noteq> [])
      | Some _ \<Rightarrow> Inr False)"

definition live_condition :: "compile_env \<Rightarrow> condition \<Rightarrow> bool reader" where
  "live_condition E cond w =
     (case cond of
        Reference_exists r \<Rightarrow> live_reference_exists E r w
      | _ \<Rightarrow>
          bind_result (resolve_operation_path (the (condition_path cond)) w) (\<lambda>p.
          bind_result (read_operation_file p w) (\<lambda>x.
            Inr (content_condition E cond x))))"

definition live_condition_problems :: "compile_env \<Rightarrow> condition list \<Rightarrow> string \<Rightarrow> world \<Rightarrow> diagnostic list" where
  "live_condition_problems E conditions field w =
     concat (map (\<lambda>(i, cond).
       case live_condition E cond w of
         Inl _ \<Rightarrow> [problem ''TXN-CONDITION-INVALID''
           ''A transaction condition does not address safe canonical state.'' (at_index field i)]
       | Inr True \<Rightarrow> []
       | Inr False \<Rightarrow> [problem ''TXN-CONDITION-FAILED''
           ''A transaction condition is not satisfied after apply.'' (at_index field i)])
       (enumerate 0 conditions))"

section \<open>References\<close>

definition at_all :: "string \<Rightarrow> string list \<Rightarrow> (string \<times> string) list" where
  "at_all field refs = map (\<lambda>(i, r). (r, at_index field i)) (enumerate 0 refs)"

definition typed_references :: "string \<Rightarrow> typed_reference list \<Rightarrow> (string \<times> string) list" where
  "typed_references field refs =
     concat (map (\<lambda>(i, r). (ref_target r, at_index field i @ ''.target'')
         # at_all (at_index field i @ ''.source_observations'')
             (case ref_observations r of None \<Rightarrow> [] | Some os \<Rightarrow> os)) (enumerate 0 refs))"

definition observation_references :: "string \<Rightarrow> observation \<Rightarrow> (string \<times> string) list" where
  "observation_references pre x =
     (obs_source_ref x, pre @ ''.source.ref'') # at_all (pre @ ''.derived_from'') (obs_derived_from x)
     @ typed_references (pre @ ''.related'') (obs_related x)"

definition body_references :: "compile_env \<Rightarrow> string \<Rightarrow> (string \<times> string) list" where
  "body_references E body = map (\<lambda>r. (r, ''.body'')) (ce_body_references E body)"

definition is_url :: "string \<Rightarrow> bool" where
  "is_url s \<longleftrightarrow> sublist ''://'' s"

definition task_references :: "task \<Rightarrow> (string \<times> string) list" where
  "task_references t =
     filter (\<lambda>(r, location). is_url r) (at_all ''.document.waiting_on'' (task_waiting_on t))
     @ at_all ''.document.source_observations'' (task_observations t)
     @ (case task_owner t of Some v \<Rightarrow> if is_url v then [(v, ''.document.owner'')] else [] | None \<Rightarrow> [])
     @ (case task_requester t of Some v \<Rightarrow> if is_url v then [(v, ''.document.requester'')] else [] | None \<Rightarrow> [])"

definition payload_references :: "compile_env \<Rightarrow> payload \<Rightarrow> (string \<times> string) list" where
  "payload_references E p =
     (case p of
        Entity_doc e body \<Rightarrow>
          typed_references ''.document.references'' (ent_references e)
          @ (case map_of (ce_extras E p) ''artifact_ref'' of
               Some (JStr r) \<Rightarrow> [(r, ''.document.artifact_ref'')] | _ \<Rightarrow> [])
          @ concat (map (\<lambda>(k, x). observation_references (at_index ''.document.observations'' k) x)
              (embedded_observations E p))
          @ body_references E body
      | Task_doc t body \<Rightarrow>
          typed_references ''.document.references'' (ent_references t) @ task_references t
          @ body_references E body
      | Claim_doc c body \<Rightarrow>
          (claim_subject c, ''.document.subject'')
          # at_all ''.document.source_observations'' (claim_observations c) @ body_references E body
      | Observation_doc x body \<Rightarrow> observation_references ''.document'' x @ body_references E body
      | _ \<Rightarrow> [])"

definition missing_typed :: "string \<Rightarrow> diagnostic" where
  "missing_typed = problem ''TXN-REFERENCE-MISSING'' ''A typed document relation points to a missing local document.''"

definition invalid_relation :: "string \<Rightarrow> diagnostic" where
  "invalid_relation = problem ''TXN-TASK-RELATION-INVALID''
     ''A task dependency or blocker is not a local task ID or task URI.''"

text \<open>A dependency or blocker is a task identifier or the URI of a task of this context.\<close>

definition relation_target :: "compile_env \<Rightarrow> string \<Rightarrow> string option" where
  "relation_target E v =
     (if family_ok Task_id v \<or> family_ok Subtask_id v then Some (local_uri E ''task'' v)
      else case parse_durable_reference (ce_hostok E) v of
        Some (Workctx_ref u) \<Rightarrow>
          if uri_context u = ce_context E \<and> uri_entity_type u = ''task'' then Some (print_uri u) else None
      | _ \<Rightarrow> None)"

definition target_problems :: "compile_env \<Rightarrow> compiled \<Rightarrow> string \<Rightarrow> string \<Rightarrow> diagnostic list reader" where
  "target_problems E c uri location w =
     bind_result (reference_exists E uri c True w) (\<lambda>found.
       Inr (if found then [] else [missing_typed location]))"

definition relation_problems :: "compile_env \<Rightarrow> compiled \<Rightarrow> string \<times> string \<Rightarrow> diagnostic list reader" where
  "relation_problems E c = (\<lambda>(v, location) w.
     case relation_target E v of
       None \<Rightarrow> Inr [invalid_relation location]
     | Some uri \<Rightarrow> target_problems E c uri location w)"

definition each_problem :: "('a \<Rightarrow> diagnostic list reader) \<Rightarrow> 'a list \<Rightarrow> diagnostic list reader" where
  "each_problem f xs w = bind_result (map_results (\<lambda>x. f x w) xs) (\<lambda>dss. Inr (concat dss))"

definition special_problems :: "compile_env \<Rightarrow> compiled \<Rightarrow> payload \<Rightarrow> string \<Rightarrow> diagnostic list reader" where
  "special_problems E c p path w =
     (case p of
        Task_doc t _ \<Rightarrow>
          bind_result (case (task_type t, parent_task t) of
              (Subtask, Some parent) \<Rightarrow>
                target_problems E c (local_uri E ''task'' parent) (path @ ''.document.parent_task'') w
            | _ \<Rightarrow> Inr []) (\<lambda>parents.
          bind_result (each_problem (relation_problems E c)
              (at_all (path @ ''.document.dependencies'') (task_dependencies t)
               @ at_all (path @ ''.document.blockers'') (task_blockers t)) w) (\<lambda>relations.
            Inr (parents @ relations)))
      | Claim_doc k _ \<Rightarrow>
          each_problem (\<lambda>(i, location). target_problems E c (local_uri E ''claim'' i) location)
            ((case claim_supersedes k of None \<Rightarrow> [] | Some i \<Rightarrow> [(i, path @ ''.document.supersedes'')])
             @ (case claim_superseded_by k of None \<Rightarrow> [] | Some i \<Rightarrow> [(i, path @ ''.document.superseded_by'')])) w
      | _ \<Rightarrow> Inr [])"

definition reference_problem :: "compile_env \<Rightarrow> compiled \<Rightarrow> string \<times> string \<Rightarrow> diagnostic list reader" where
  "reference_problem E c = (\<lambda>(r, location) w.
     case parse_durable_reference (ce_hostok E) r of
       None \<Rightarrow> Inr [problem ''TXN-REFERENCE-INVALID'' ''A reference is not a canonical durable URI.'' location]
     | Some d \<Rightarrow>
         if (case d of Workctx_ref u \<Rightarrow> uri_context u \<noteq> ce_context E | _ \<Rightarrow> False)
         then Inr [problem ''TXN-REFERENCE-CONTEXT-MISMATCH'' ''A local reference belongs to another context.'' location]
         else if (case d of Workctx_ref u \<Rightarrow> False | Artifact_ref x \<Rightarrow> False | _ \<Rightarrow> True) then Inr []
         else bind_result (reference_exists E r c True w) (\<lambda>found.
           Inr (if found then []
                else [problem ''TXN-REFERENCE-MISSING''
                  ''A referenced local document or artifact does not exist.'' location])))"

definition operation_payload :: "operation \<Rightarrow> payload option" where
  "operation_payload op = (case op of Create t p \<Rightarrow> Some p | Update t p h \<Rightarrow> Some p | _ \<Rightarrow> None)"

definition staged_payloads :: "proposal \<Rightarrow> (string \<times> payload) list" where
  "staged_payloads p =
     concat (map (\<lambda>(i, op). case operation_payload op of
         None \<Rightarrow> [] | Some x \<Rightarrow> [(at_index ''operations'' i @ ''.payload'', x)])
       (enumerate 0 (prop_operations p)))"

definition proposal_references :: "compile_env \<Rightarrow> proposal \<Rightarrow> (string \<times> string) list" where
  "proposal_references E p =
     at_all ''source_refs'' (prop_source_refs p)
     @ concat (map (\<lambda>(path, x). map (\<lambda>(r, l). (r, path @ l)) (payload_references E x)) (staged_payloads p))"

definition reference_problems :: "compile_env \<Rightarrow> proposal \<Rightarrow> compiled \<Rightarrow> diagnostic list reader" where
  "reference_problems E p c w =
     bind_result (each_problem (\<lambda>(path, x). special_problems E c x path) (staged_payloads p) w) (\<lambda>special.
     bind_result (each_problem (reference_problem E c) (proposal_references E p) w) (\<lambda>refs.
       Inr (special @ refs)))"

section \<open>The analysis\<close>

definition early_problems :: "compile_env \<Rightarrow> proposal \<Rightarrow> bool \<Rightarrow> string \<Rightarrow> nat option \<Rightarrow> diagnostic list" where
  "early_problems E p duplicate head skipped =
     (if prop_context p \<noteq> ce_context E
      then [problem ''TXN-CONTEXT-MISMATCH'' ''The proposal belongs to a different context.'' ''context_id''] else [])
     @ (if duplicate
        then [problem ''TXN-DUPLICATE-PROPOSAL'' ''The proposal ID already has a ledger event.'' ''id''] else [])
     @ (if prop_base_revision p \<noteq> head
        then [problem ''TXN-STALE-REVISION''
          ''The proposal base revision is not the current ledger head.'' ''base_revision''] else [])
     @ (case skipped of
          None \<Rightarrow> if ce_ready E then [] else
            [\<lparr>dg_severity = Sev_error, dg_code = ''TXN-PROJECTION-NOT-READY'',
              dg_message = ''The read-only projection is not ready for reference checks.'', dg_path = None\<rparr>]
        | Some n \<Rightarrow> if n = 0 then [] else
            [\<lparr>dg_severity = Sev_error, dg_code = ''TXN-PROJECTION-INCOMPLETE'',
              dg_message = ''The projection skipped canonical documents during preflight.'', dg_path = None\<rparr>])"

definition not_consistent :: diagnostic where
  "not_consistent = \<lparr>dg_severity = Sev_error, dg_code = ''TXN-PROJECTION-NOT-READY'',
     dg_message = ''The projection does not match current canonical identities.'', dg_path = None\<rparr>"

definition not_compiled :: diagnostic where
  "not_compiled = \<lparr>dg_severity = Sev_error, dg_code = ''TXN-OPERATION-INVALID'',
     dg_message = ''An operation could not be compiled safely.'', dg_path = None\<rparr>"

definition analyze ::
  "compile_env \<Rightarrow> proposal \<Rightarrow> string list \<Rightarrow> bool \<Rightarrow> string \<Rightarrow> nat option \<Rightarrow> analysis reader" where
  "analyze E p acks duplicate head skipped w =
     (let early = early_problems E p duplicate head skipped in
      if early \<noteq> [] then Inr \<lparr>an_diagnostics = early, an_compiled = None\<rparr>
      else if projection_matches E w \<noteq> Inr True
      then Inr \<lparr>an_diagnostics = [not_consistent], an_compiled = None\<rparr>
      else case compile_proposal E p w of
        Inl err \<Rightarrow> Inr \<lparr>an_diagnostics = [not_compiled], an_compiled = None\<rparr>
      | Inr (c0, ds) \<Rightarrow>
          (let (c, acknowledged) = compile_acknowledgments E c0 acks w in
           bind_result (reference_problems E p c w) (\<lambda>refs.
             Inr \<lparr>an_diagnostics = ds @ acknowledged @ secret_problems E p (cp_acknowledged c)
                 @ condition_problems E (prop_preconditions p) c False ''preconditions'' w
                 @ condition_problems E (prop_postconditions p) c True ''postconditions'' w @ refs,
               an_compiled = Some c\<rparr>)))"

end
