(* ===== verification/AnalysisLaws.thy ===== *)
theory AnalysisLaws
  imports Analysis ProposalLaws EngineStages
begin

text \<open>
  What an analysis without errors guarantees: the staged operations, effects and audit operations
  follow the proposal one by one and fit the files they were compiled against; a postcondition that
  was judged on the overlay is the one that holds of the files after the replacement; and no record
  identity gets a second owner.
\<close>

section \<open>Dictionaries\<close>

lemma map_of_update: "map_of (AList.update k v xs) = (map_of xs)(k \<mapsto> v)"
  by (simp add: update_conv')

lemma keys_update: "fst ` set (AList.update k v xs) = insert k (fst ` set xs)"
  by (simp add: dom_update)

definition put_finals :: "(string \<times> content option) list \<Rightarrow> (string \<times> content option) list \<Rightarrow> (string \<times> content option) list" where
  "put_finals new = fold (\<lambda>(p, c). AList.update p c) new"

lemma record_operation_simps [simp]:
  "pg_writes (record_operation wr ef au fs s) = pg_writes s @ [wr]"
  "pg_effects (record_operation wr ef au fs s) = pg_effects s @ [ef]"
  "pg_audit (record_operation wr ef au fs s) = pg_audit s @ [au]"
  "pg_final (record_operation wr ef au fs s) = put_finals fs (pg_final s)"
  by (simp_all add: record_operation_def put_finals_def)

lemma put_finals_simps [simp]:
  "put_finals [] xs = xs" "put_finals ((p, c) # fs) xs = put_finals fs (AList.update p c xs)"
  by (simp_all add: put_finals_def)

lemma add_identity_simps [simp]:
  "pg_writes (add_identity t l x s) = pg_writes s" "pg_effects (add_identity t l x s) = pg_effects s"
  "pg_audit (add_identity t l x s) = pg_audit s" "pg_final (add_identity t l x s) = pg_final s"
  by (cases x; simp add: add_identity_def Let_def)+

lemma add_identities_simps [simp]:
  "pg_writes (fold (add_identity t l) xs s) = pg_writes s"
  "pg_effects (fold (add_identity t l) xs s) = pg_effects s"
  "pg_audit (fold (add_identity t l) xs s) = pg_audit s"
  "pg_final (fold (add_identity t l) xs s) = pg_final s"
  by (induction xs arbitrary: s) simp_all

section \<open>One operation\<close>

definition plain_path :: "string \<Rightarrow> bool" where
  "plain_path s \<longleftrightarrow> portable_parts s = Inr (path_of s)"

lemma path_of_inj: "path_of s = path_of t \<Longrightarrow> s = t"
  unfolding path_of_def by (metis join_split)

lemma posix_path_of [simp]: "as_posix (path_of s) = s"
  by (simp add: as_posix_def path_of_def)

text \<open>The staged operation, the effect and the audit operation of one operation of the proposal.\<close>

definition op_compiled ::
  "compile_env \<Rightarrow> world \<Rightarrow> nat \<Rightarrow> operation \<Rightarrow> staged_op \<Rightarrow> operation_effect \<Rightarrow> audit_operation \<Rightarrow> bool" where
  "op_compiled E w order op wr ef au \<longleftrightarrow>
     (case op of
        Create t p \<Rightarrow> \<exists>c. prepare_document E t p w = Inr (t, c) \<and> wr = Staged_write t c
          \<and> au = Audit_create t (ce_hash E c)
          \<and> ef = \<lparr>eff_order = order, eff_op = Effect_create, eff_target = t, eff_destination = None,
               eff_preimage = None, eff_postimage = Some (ce_hash E c), eff_hand_edits = False\<rparr>
      | Update t p h \<Rightarrow> \<exists>c e. prepare_document E t p w = Inr (t, c) \<and> wr = Staged_write t c
          \<and> au = Audit_update t h (ce_hash E c)
          \<and> ef = \<lparr>eff_order = order, eff_op = Effect_update, eff_target = t, eff_destination = None,
               eff_preimage = Some h, eff_postimage = Some (ce_hash E c), eff_hand_edits = e\<rparr>
      | Move s t h \<Rightarrow> wr = Staged_move s t \<and> au = Audit_move s t h
          \<and> ef = \<lparr>eff_order = order, eff_op = Effect_move, eff_target = s, eff_destination = Some t,
               eff_preimage = Some h, eff_postimage = Some h, eff_hand_edits = False\<rparr>
      | Delete_generated t h \<Rightarrow> wr = Staged_delete t \<and> au = Audit_delete_generated t h
          \<and> ef = \<lparr>eff_order = order, eff_op = Effect_delete, eff_target = t, eff_destination = None,
               eff_preimage = Some h, eff_postimage = None, eff_hand_edits = False\<rparr>)"

lemma resolve_operation_Inr:
  assumes "resolve_operation_path s w = Inr p"
  shows "portable_parts s = Inr p" "nested_context_free w p"
  using assms by (auto simp: resolve_operation_path_def result_simps resolve_context_path_Inr split: if_splits)

lemma read_operation_Inr:
  "read_operation_file p w = Inr x \<longleftrightarrow> nodes w p = map_option File x"
  by (cases x) (auto simp: read_operation_file_def split: option.splits node.splits)

lemma read_hash: "read_operation_file p w = Inr x \<Longrightarrow> hash_at H w p = map_option H x"
  by (cases x) (auto simp: read_operation_Inr hash_at_def)

lemma prepare_target:
  assumes "prepare_document E t p w = Inr (t', c)" "plain_path t"
  shows "t' = t"
proof -
  have "as_posix q = t" if "document_path zs es t w = Inr q" for zs es q
    using that assms(2)
    by (auto simp: document_path_def result_simps resolve_context_path_Inr plain_path_def split: if_splits)
  then show ?thesis
    using assms(1)
    by (auto simp: prepare_document_def prepare_entity_def prepare_task_def prepare_artifact_manifest_def
        result_simps split: payload.splits)
qed

text \<open>How an operation extends what was compiled so far.\<close>

definition foretold :: "compile_env \<Rightarrow> audit_operation list \<Rightarrow> (string \<times> content option) list \<Rightarrow> bool" where
  "foretold E as fs \<longleftrightarrow>
     fst ` set fs = set (audit_applied_targets as)
     \<and> (\<forall>w'. (\<forall>a\<in>set as. op_after (ce_hash E) w' a) \<longrightarrow>
          (\<forall>p x. map_of fs p = Some x \<longrightarrow> hash_at (ce_hash E) w' (path_of p) = map_option (ce_hash E) x))"

lemma foretold_extend:
  assumes "foretold E as fs" "set (audit_targets a) = fst ` set new"
    and "\<And>w' p x. op_after (ce_hash E) w' a \<Longrightarrow> map_of (rev new) p = Some x \<Longrightarrow>
        hash_at (ce_hash E) w' (path_of p) = map_option (ce_hash E) x"
  shows "foretold E (as @ [a]) (put_finals new fs)"
proof -
  have keys: "fst ` set (put_finals new fs) = fst ` set fs \<union> fst ` set new"
  proof (induction new arbitrary: fs)
    case (Cons x new)
    then show ?case by (cases x) (simp add: keys_update)
  qed simp
  have look: "map_of (put_finals new fs) p = (case map_of (rev new) p of None \<Rightarrow> map_of fs p | Some x \<Rightarrow> Some x)" for p
  proof (induction new arbitrary: fs)
    case (Cons x new)
    then show ?case by (cases x) (simp add: map_of_update map_add_def split: option.splits)
  qed simp
  show ?thesis
    using assms unfolding foretold_def
    by (auto simp: keys look audit_applied_targets_def split: option.splits)
qed

lemma foretold_one:
  assumes "foretold E as fs" "audit_targets a = [t]"
    and "\<And>w'. op_after (ce_hash E) w' a \<Longrightarrow> hash_at (ce_hash E) w' (path_of t) = map_option (ce_hash E) x"
  shows "foretold E (as @ [a]) (AList.update t x fs)"
proof -
  have "foretold E (as @ [a]) (put_finals [(t, x)] fs)"
    by (rule foretold_extend [OF assms(1)]) (use assms(2,3) in \<open>auto split: if_splits\<close>)
  then show ?thesis by simp
qed

lemma foretold_two:
  assumes "foretold E as fs" "audit_targets a = [t, u]" "t \<noteq> u"
    and "\<And>w'. op_after (ce_hash E) w' a \<Longrightarrow> hash_at (ce_hash E) w' (path_of t) = map_option (ce_hash E) x"
    and "\<And>w'. op_after (ce_hash E) w' a \<Longrightarrow> hash_at (ce_hash E) w' (path_of u) = map_option (ce_hash E) y"
  shows "foretold E (as @ [a]) (AList.update u y (AList.update t x fs))"
proof -
  have "foretold E (as @ [a]) (put_finals [(t, x), (u, y)] fs)"
    by (rule foretold_extend [OF assms(1)]) (use assms(2-5) in \<open>auto split: if_splits\<close>)
  then show ?thesis by simp
qed

lemma compile_operation_step:
  assumes run: "compile_operation E order op s w = Inr s'" and plain: "\<forall>t\<in>set (operation_paths op). plain_path t"
  shows "\<exists>wr ef au. op_compiled E w order op wr ef au \<and> op_before (ce_hash E) w au
    \<and> pg_writes s' = pg_writes s @ [wr] \<and> pg_effects s' = pg_effects s @ [ef] \<and> pg_audit s' = pg_audit s @ [au]
    \<and> (foretold E (pg_audit s) (pg_final s) \<longrightarrow> foretold E (pg_audit s') (pg_final s'))"
proof (cases op)
  case (Create t p)
  have pt: "plain_path t" using plain Create by simp
  obtain t' c path where c: "prepare_document E t p w = Inr (t', c)" "resolve_operation_path t w = Inr path"
    "read_operation_file path w = Inr None"
    "pg_writes s' = pg_writes s @ [Staged_write t' c]"
    "pg_effects s' = pg_effects s @ [\<lparr>eff_order = order, eff_op = Effect_create, eff_target = t, eff_destination = None,
               eff_preimage = None, eff_postimage = Some (ce_hash E c), eff_hand_edits = False\<rparr>]"
    "pg_audit s' = pg_audit s @ [Audit_create t (ce_hash E c)]" "pg_final s' = put_finals [(t, Some c)] (pg_final s)"
    using run unfolding Create
    by (auto simp: compile_operation_def compile_document_def check_target_def Let_def result_simps)
  have "path = path_of t" using resolve_operation_Inr(1) [OF c(2)] pt by (simp add: plain_path_def)
  then have "op_before (ce_hash E) w (Audit_create t (ce_hash E c))" using read_hash [OF c(3)] by simp
  moreover have "op_compiled E w order op (Staged_write t c) \<lparr>eff_order = order, eff_op = Effect_create,
      eff_target = t, eff_destination = None, eff_preimage = None, eff_postimage = Some (ce_hash E c),
      eff_hand_edits = False\<rparr> (Audit_create t (ce_hash E c))"
    using c(1) prepare_target [OF c(1) pt] by (simp add: op_compiled_def Create)
  ultimately show ?thesis
    using c(4-7) prepare_target [OF c(1) pt]
    by (intro exI conjI impI) (auto intro!: foretold_one)
next
  case (Update t p h)
  have pt: "plain_path t" using plain Update by simp
  obtain t' c path old e where c: "prepare_document E t p w = Inr (t', c)" "resolve_operation_path t w = Inr path"
    "read_operation_file path w = Inr (Some old)" "ce_hash E old = h"
    "pg_writes s' = pg_writes s @ [Staged_write t' c]"
    "pg_effects s' = pg_effects s @ [\<lparr>eff_order = order, eff_op = Effect_update, eff_target = t, eff_destination = None,
               eff_preimage = Some h, eff_postimage = Some (ce_hash E c), eff_hand_edits = e\<rparr>]"
    "pg_audit s' = pg_audit s @ [Audit_update t h (ce_hash E c)]" "pg_final s' = put_finals [(t, Some c)] (pg_final s)"
    using run unfolding Update
    by (auto simp: compile_operation_def compile_document_def check_target_def Let_def result_simps split: option.splits)
  have "path = path_of t" using resolve_operation_Inr(1) [OF c(2)] pt by (simp add: plain_path_def)
  then have "op_before (ce_hash E) w (Audit_update t h (ce_hash E c))" using read_hash [OF c(3)] c(4) by simp
  moreover have "op_compiled E w order op (Staged_write t c) \<lparr>eff_order = order, eff_op = Effect_update,
      eff_target = t, eff_destination = None, eff_preimage = Some h, eff_postimage = Some (ce_hash E c),
      eff_hand_edits = e\<rparr> (Audit_update t h (ce_hash E c))"
    using c(1) prepare_target [OF c(1) pt] by (simp add: op_compiled_def Update)
  ultimately show ?thesis
    using c(5-8) prepare_target [OF c(1) pt]
    by (intro exI conjI impI) (auto intro!: foretold_one)
next
  case (Move src dst h)
  have ps: "plain_path src" "plain_path dst" using plain Move by simp_all
  obtain sp dp c where c: "resolve_operation_path src w = Inr sp" "resolve_operation_path dst w = Inr dp"
    "read_operation_file sp w = Inr (Some c)" "ce_hash E c = h" "read_operation_file dp w = Inr None"
    "s' = record_operation (Staged_move src dst)
             \<lparr>eff_order = order, eff_op = Effect_move, eff_target = src,
              eff_destination = Some dst, eff_preimage = Some h,
              eff_postimage = Some h, eff_hand_edits = False\<rparr>
             (Audit_move src dst h) [(src, None), (dst, Some c)] s"
    using run unfolding Move
    by (auto simp: compile_operation_def compile_move_def result_simps split: option.splits)
  have p: "sp = path_of src" "dp = path_of dst"
    using resolve_operation_Inr(1) [OF c(1)] resolve_operation_Inr(1) [OF c(2)] ps by (simp_all add: plain_path_def)
  have dst: "src \<noteq> dst" using c(3,5) p by (auto simp: read_operation_Inr)
  have "op_before (ce_hash E) w (Audit_move src dst h)"
    using p read_hash [OF c(3)] read_hash [OF c(5)] c(4) by simp
  then show ?thesis
    using c(4,6) dst by (intro exI conjI impI) (auto simp: op_compiled_def Move intro!: foretold_two)
next
  case (Delete_generated t h)
  have pt: "plain_path t" using plain Delete_generated by simp
  obtain path x where c: "resolve_operation_path t w = Inr path" "read_operation_file path w = Inr x"
    "map_option (ce_hash E) x = Some h"
    "s' = record_operation (Staged_delete t)
         \<lparr>eff_order = order, eff_op = Effect_delete, eff_target = t, eff_destination = None,
          eff_preimage = Some h, eff_postimage = None, eff_hand_edits = False\<rparr>
         (Audit_delete_generated t h) [(t, None)] s"
    using run unfolding Delete_generated
    by (auto simp: compile_operation_def compile_delete_def result_simps)
  have "path = path_of t" using resolve_operation_Inr(1) [OF c(1)] pt by (simp add: plain_path_def)
  then have "op_before (ce_hash E) w (Audit_delete_generated t h)" using read_hash [OF c(2)] c(3) by simp
  then show ?thesis
    using c(4) by (intro exI conjI impI) (auto simp: op_compiled_def Delete_generated intro!: foretold_one)
qed

section \<open>All operations\<close>

lemma compile_operations_steps:
  assumes "compile_operations E order ops s w = Inr s'" "\<forall>op\<in>set ops. \<forall>t\<in>set (operation_paths op). plain_path t"
  shows "\<exists>wrs efs aus. length wrs = length ops \<and> length efs = length ops \<and> length aus = length ops
    \<and> (\<forall>i<length ops. op_compiled E w (order + i) (ops ! i) (wrs ! i) (efs ! i) (aus ! i))
    \<and> (\<forall>a\<in>set aus. op_before (ce_hash E) w a)
    \<and> pg_writes s' = pg_writes s @ wrs \<and> pg_effects s' = pg_effects s @ efs \<and> pg_audit s' = pg_audit s @ aus
    \<and> (foretold E (pg_audit s) (pg_final s) \<longrightarrow> foretold E (pg_audit s') (pg_final s'))"
  using assms
proof (induction ops arbitrary: order s)
  case (Cons op ops)
  obtain u where u: "compile_operation E order op s w = Inr u" "compile_operations E (order + 1) ops u w = Inr s'"
    using Cons.prems(1) by (auto simp: result_simps)
  have p: "\<forall>t\<in>set (operation_paths op). plain_path t" using Cons.prems(2) by simp
  obtain wr ef au where one: "op_compiled E w order op wr ef au" "op_before (ce_hash E) w au"
    "pg_writes u = pg_writes s @ [wr]" "pg_effects u = pg_effects s @ [ef]" "pg_audit u = pg_audit s @ [au]"
    "foretold E (pg_audit s) (pg_final s) \<longrightarrow> foretold E (pg_audit u) (pg_final u)"
    using compile_operation_step [OF u(1) p] by blast
  obtain wrs efs aus where rest: "length wrs = length ops" "length efs = length ops" "length aus = length ops"
    "\<forall>i<length ops. op_compiled E w (order + 1 + i) (ops ! i) (wrs ! i) (efs ! i) (aus ! i)"
    "\<forall>a\<in>set aus. op_before (ce_hash E) w a"
    "pg_writes s' = pg_writes u @ wrs" "pg_effects s' = pg_effects u @ efs" "pg_audit s' = pg_audit u @ aus"
    "foretold E (pg_audit u) (pg_final u) \<longrightarrow> foretold E (pg_audit s') (pg_final s')"
    using Cons.IH [OF u(2)] Cons.prems(2) by (auto simp del: add_Suc_right)
  have "\<forall>i<length (op # ops). op_compiled E w (order + i) ((op # ops) ! i) ((wr # wrs) ! i) ((ef # efs) ! i) ((au # aus) ! i)"
    using one(1) rest(4) by (auto simp: less_Suc_eq_0_disj)
  then show ?case
    using one rest by (intro exI [of _ "wr # wrs"] exI [of _ "ef # efs"] exI [of _ "au # aus"]) simp
qed simp

lemma foretold_nothing: "foretold E [] []"
  by (simp add: foretold_def audit_applied_targets_def)

text \<open>An accepted proposal.\<close>

lemma accepted_parts:
  assumes "validate_proposal nfc ck hostok q = Some p"
  shows "those_map (validate_operation nfc ck hostok) (prop_operations q) = Some (prop_operations p)"
    and "those_map (validate_condition nfc ck hostok) (prop_postconditions q) = Some (prop_postconditions p)"
proof -
  obtain refs ops pre post where parts:
    "those_map (validate_operation nfc ck hostok) (prop_operations q) = Some ops"
    "those_map (validate_condition nfc ck hostok) (prop_postconditions q) = Some post"
    "p = q\<lparr>prop_source_refs := refs, prop_operations := ops, prop_preconditions := pre, prop_postconditions := post\<rparr>"
    using assms by (auto simp: validate_proposal_def Let_def split: option.splits if_splits)
  show "those_map (validate_operation nfc ck hostok) (prop_operations q) = Some (prop_operations p)"
    and "those_map (validate_condition nfc ck hostok) (prop_postconditions q) = Some (prop_postconditions p)"
    using parts by simp_all
qed

lemma accepted_plain:
  assumes "validate_proposal nfc ck hostok q = Some p" "op \<in> set (prop_operations p)" "t \<in> set (operation_paths op)"
  shows "plain_path t"
proof -
  obtain x where "validate_operation nfc ck hostok x = Some op"
    using those_map_in [OF accepted_parts(1) [OF assms(1)] assms(2)] by blast
  from context_path_parts(1) [OF validated_operation_paths [OF this assms(3)]]
  show ?thesis by (simp add: plain_path_def path_of_def)
qed

lemma accepted_condition:
  assumes "validate_proposal nfc ck hostok q = Some p" "cond \<in> set (prop_postconditions p)"
    and "condition_path cond = Some path"
  shows "plain_path path" "outside_state (path_of path)" "path_of path \<noteq> ledger_file"
proof -
  obtain x where "validate_condition nfc ck hostok x = Some cond"
    using those_map_in [OF accepted_parts(2) [OF assms(1)] assms(2)] by blast
  then have ok: "context_path_ok nfc ck path"
    using assms(3) by (cases x) (auto split: if_splits)
  show "plain_path path" using context_path_parts(1) [OF ok] by (simp add: plain_path_def path_of_def)
  show "outside_state (path_of path)"
    using zone_outside [OF context_path_parts(2) [OF ok]] by (simp add: path_of_def)
  show "path_of path \<noteq> ledger_file"
  proof
    assume "path_of path = ledger_file"
    then have "path = as_posix ledger_file" by (metis posix_path_of)
    then have "path = ledger_path" by (simp add: ledger_file_def ledger_path_def as_posix_def)
    then show False using context_path_parts(3) [OF ok] by simp
  qed
qed

section \<open>The analysis\<close>

definition error_free :: "diagnostic list \<Rightarrow> bool" where
  "error_free ds \<longleftrightarrow> list_all (\<lambda>d. dg_severity d \<noteq> Sev_error) ds"

lemma error_free_append [simp]: "error_free (ds @ es) \<longleftrightarrow> error_free ds \<and> error_free es"
  by (simp add: error_free_def)

lemma no_problems:
  assumes "error_free ds" "\<forall>d\<in>set ds. dg_severity d = Sev_error"
  shows "ds = []"
  using assms by (cases ds) (simp_all add: error_free_def)

lemma problem_severity [simp]: "dg_severity (problem c m p) = Sev_error"
  by (simp add: problem_def)

text \<open>What is left of an analysis that compiled.\<close>

lemma analyze_Inr:
  assumes "analyze E p acks duplicate head skipped w = Inr a" "an_compiled a = Some c"
  obtains c0 ds acknowledged s ms refs where
    "compile_operations E 0 (prop_operations p) no_progress w = Inr s"
    "projection_matches E w = Inr True"
    "final_manifests E (sort_key fst (pg_final s)) = Some ms"
    "ds = pg_diagnostics s @ all_artifact_problems E (pg_final s) [] ms w
       @ overlay_problems E (pg_final s) (pg_locations s) w"
    "cp_writes c0 = pg_writes s" "cp_effects c0 = pg_effects s" "cp_audit c0 = pg_audit s" "cp_final c0 = pg_final s"
    "compile_acknowledgments E c0 acks w = (c, acknowledged)"
    "reference_problems E p c w = Inr refs"
    "an_diagnostics a = ds @ acknowledged @ secret_problems E p (cp_acknowledged c)
       @ condition_problems E (prop_preconditions p) c False ''preconditions'' w
       @ condition_problems E (prop_postconditions p) c True ''postconditions'' w @ refs"
proof -
  obtain c0 ds where c: "projection_matches E w = Inr True" "compile_proposal E p w = Inr (c0, ds)"
    "(case compile_acknowledgments E c0 acks w of (c, acknowledged) \<Rightarrow>
       bind_result (reference_problems E p c w) (\<lambda>refs.
         Inr \<lparr>an_diagnostics = ds @ acknowledged @ secret_problems E p (cp_acknowledged c)
             @ condition_problems E (prop_preconditions p) c False ''preconditions'' w
             @ condition_problems E (prop_postconditions p) c True ''postconditions'' w @ refs,
           an_compiled = Some c\<rparr>)) = Inr a"
    using assms by (auto simp: analyze_def Let_def split: if_splits sum.splits)
  obtain acknowledged refs where r: "compile_acknowledgments E c0 acks w = (c, acknowledged)"
    "reference_problems E p c w = Inr refs"
    "an_diagnostics a = ds @ acknowledged @ secret_problems E p (cp_acknowledged c)
       @ condition_problems E (prop_preconditions p) c False ''preconditions'' w
       @ condition_problems E (prop_postconditions p) c True ''postconditions'' w @ refs"
    using c(3) assms(2) by (auto simp: result_simps split: prod.splits)
  obtain s ms where s: "compile_operations E 0 (prop_operations p) no_progress w = Inr s"
    "final_manifests E (sort_key fst (pg_final s)) = Some ms"
    "ds = pg_diagnostics s @ all_artifact_problems E (pg_final s) [] ms w
       @ overlay_problems E (pg_final s) (pg_locations s) w"
    "cp_writes c0 = pg_writes s" "cp_effects c0 = pg_effects s" "cp_audit c0 = pg_audit s" "cp_final c0 = pg_final s"
    using c(2) by (auto simp: compile_proposal_def result_simps split: option.splits)
  show thesis by (rule that [OF s(1) c(1) s(2-7) r])
qed

text \<open>The acknowledgment file is one more operation.\<close>

lemma acknowledged_cases:
  assumes "compile_acknowledgments E c0 acks w = (c, ds)"
  obtains (same) "c = c0"
  | (added) current new paths where "c = with_acknowledgments E current new paths c0"
      "nodes w (path_of acknowledgments_path) = map_option File current"
      "acknowledgments_path \<notin> fst ` set (cp_final c0)"
proof -
  have plain: "portable_parts acknowledgments_path = Inr (path_of acknowledgments_path)" by code_simp
  show thesis
  proof (cases "c = c0")
    case False
    then obtain current existing eligible where e: "current_acknowledgments E w = Inr (Some (current, existing))"
      "c = with_acknowledgments E current (ce_dump_acks E (acknowledged_record E existing eligible)) (map fst eligible) c0"
      "ce_casefold E acknowledgments_path \<notin> ce_casefold E ` fst ` set (cp_final c0)"
      using assms by (auto simp: compile_acknowledgments_def Let_def split: if_splits prod.splits sum.splits option.splits)
    obtain path where "resolve_operation_path acknowledgments_path w = Inr path" "read_operation_file path w = Inr current"
      using e(1) by (auto simp: current_acknowledgments_def result_simps split: option.splits)
    then have "nodes w (path_of acknowledgments_path) = map_option File current"
      using resolve_operation_Inr(1) plain by (auto simp: read_operation_Inr)
    then show thesis using added e(2,3) by blast
  qed (rule same)
qed

lemma with_acknowledgments_facts:
  assumes "foretold E (cp_audit c) (cp_final c)"
  shows "foretold E (cp_audit (with_acknowledgments E current new paths c))
    (cp_final (with_acknowledgments E current new paths c))"
  using assms by (auto simp: with_acknowledgments_def Let_def intro!: foretold_one split: option.splits)

text \<open>
  C18: The compiled proposal is the proposal. When an accepted proposal compiles, its operations and
  the staged operations, effects and audit operations correspond one to one and in order, at most
  one write of the acknowledgment file being added; and every audit operation describes the files as
  they are: what it creates is absent, what it updates, moves or deletes has exactly the expected hash.
\<close>

theorem compile_faithful:
  assumes "validate_proposal nfc ck hostok q = Some p"
    and "analyze E p acks duplicate head skipped w = Inr a" "an_compiled a = Some c"
  shows "(\<forall>i<length (prop_operations p).
      op_compiled E w i (prop_operations p ! i) (cp_writes c ! i) (cp_effects c ! i) (cp_audit c ! i))
    \<and> length (prop_operations p) \<le> length (cp_writes c) \<and> length (cp_writes c) \<le> length (prop_operations p) + 1
    \<and> length (cp_effects c) = length (cp_writes c) \<and> length (cp_audit c) = length (cp_writes c)
    \<and> (\<forall>x\<in>set (cp_audit c). op_before (ce_hash E) w x)"
proof -
  obtain s c0 ack where s: "compile_operations E 0 (prop_operations p) no_progress w = Inr s"
    "cp_writes c0 = pg_writes s" "cp_effects c0 = pg_effects s" "cp_audit c0 = pg_audit s"
    "compile_acknowledgments E c0 acks w = (c, ack)"
    using analyze_Inr [OF assms(2,3)] by metis
  have plain: "\<forall>op\<in>set (prop_operations p). \<forall>t\<in>set (operation_paths op). plain_path t"
    using accepted_plain [OF assms(1)] by blast
  obtain wrs efs aus where l: "length wrs = length (prop_operations p)" "length efs = length (prop_operations p)"
    "length aus = length (prop_operations p)"
    "\<forall>i<length (prop_operations p). op_compiled E w (0 + i) (prop_operations p ! i) (wrs ! i) (efs ! i) (aus ! i)"
    "\<forall>a\<in>set aus. op_before (ce_hash E) w a"
    "cp_writes c0 = wrs" "cp_effects c0 = efs" "cp_audit c0 = aus"
    using compile_operations_steps [OF s(1) plain] s(2-4) by (auto simp: no_progress_def)
  from s(5) show ?thesis
  proof (cases rule: acknowledged_cases)
    case same
    then show ?thesis using l by simp
  next
    case (added current new paths)
    then show ?thesis
      using l by (auto simp: with_acknowledgments_def Let_def nth_append hash_at_def split: option.splits)
  qed
qed

section \<open>Postconditions\<close>

lemma analyze_foretold:
  assumes "validate_proposal nfc ck hostok q = Some p"
    and "analyze E p acks duplicate head skipped w = Inr a" "an_compiled a = Some c"
  shows "foretold E (cp_audit c) (cp_final c)"
proof -
  obtain s c0 ack where s: "compile_operations E 0 (prop_operations p) no_progress w = Inr s"
    "cp_audit c0 = pg_audit s" "cp_final c0 = pg_final s" "compile_acknowledgments E c0 acks w = (c, ack)"
    using analyze_Inr [OF assms(2,3)] by metis
  have plain: "\<forall>op\<in>set (prop_operations p). \<forall>t\<in>set (operation_paths op). plain_path t"
    using accepted_plain [OF assms(1)] by blast
  have f: "foretold E (cp_audit c0) (cp_final c0)"
    using compile_operations_steps [OF s(1) plain] s(2,3) by (auto simp: no_progress_def foretold_nothing)
  from s(4) show ?thesis
    by (cases rule: acknowledged_cases) (use f with_acknowledgments_facts in auto)
qed

lemma condition_result:
  fixes r :: "exn + bool"
  shows "\<forall>d\<in>set (case r of Inl e \<Rightarrow> [problem c m l] | Inr True \<Rightarrow> [] | Inr False \<Rightarrow> [problem c' m' l]).
      dg_severity d = Sev_error"
    and "(case r of Inl e \<Rightarrow> [problem c m l] | Inr True \<Rightarrow> [] | Inr False \<Rightarrow> [problem c' m' l]) = [] \<longleftrightarrow> r = Inr True"
  by (auto split: sum.splits bool.splits)

lemma condition_checked:
  assumes "error_free (condition_problems E conds c final_state field w)" "cond \<in> set conds"
  shows "condition_satisfied E cond c final_state w = Inr True"
proof -
  obtain i where i: "(i, cond) \<in> set (enumerate 0 conds)"
    using assms(2) by (metis in_set_conv_nth in_set_enumerate_eq add_0 nth_enumerate_eq fst_conv snd_conv le0 nth_mem length_enumerate)
  have "condition_problems E conds c final_state field w = []"
    using assms(1) by (rule no_problems) (use condition_result(1) in \<open>fastforce simp: condition_problems_def\<close>)
  then show ?thesis
    using i condition_result(2) by (fastforce simp: condition_problems_def)
qed

lemma content_condition_hash:
  "map_option (ce_hash E) x = map_option (ce_hash E) y \<Longrightarrow> content_condition E cond x = content_condition E cond y"
  by (cases x; cases y) (auto simp: content_condition_def split: condition.splits)

lemma live_path_condition:
  assumes "live_condition E cond w = Inr b" "condition_path cond = Some path" "plain_path path"
  obtains x where "read_operation_file (path_of path) w = Inr x" "b = content_condition E cond x"
proof -
  have "\<exists>x. read_operation_file (path_of path) w = Inr x \<and> b = content_condition E cond x"
    using assms resolve_operation_Inr(1)
    by (cases cond) (fastforce simp: live_condition_def result_simps plain_path_def)+
  then show thesis using that by blast
qed


section \<open>Record identities\<close>

definition narrative_file :: "string \<Rightarrow> bool" where
  "narrative_file s \<longleftrightarrow>
     plain_path s \<and> 1 < length (path_of s) \<and> hd (path_of s) \<in> set narrative_zones \<and> path_suffix s = ''.md''"

text \<open>\<open>rglob("*.md")\<close> in the narrative zones.\<close>

definition listings_ok :: "compile_env \<Rightarrow> world \<Rightarrow> bool" where
  "listings_ok E w \<longleftrightarrow>
     (\<forall>zone\<in>set narrative_zones. \<forall>s. s \<in> set (ce_listing E zone w) \<longleftrightarrow>
        narrative_file s \<and> hd (path_of s) = zone \<and> nodes w (path_of s) \<noteq> None)"

definition owns :: "compile_env \<Rightarrow> world \<Rightarrow> string \<Rightarrow> string \<Rightarrow> bool" where
  "owns E w identity s \<longleftrightarrow>
     narrative_file s \<and> \<not> readme E s
     \<and> (\<exists>c ids. nodes w (path_of s) = Some (File c) \<and> markdown_identities E c = Inr ids \<and> identity \<in> set ids)"

definition unique_owners :: "compile_env \<Rightarrow> world \<Rightarrow> bool" where
  "unique_owners E w \<longleftrightarrow> (\<forall>i s t. owns E w i s \<and> owns E w i t \<longrightarrow> s = t)"

text \<open>No context is nested in a narrative zone, and a projection that passes for current has the
  paths of the records it knows.\<close>

definition zones_ok :: "compile_env \<Rightarrow> world \<Rightarrow> bool" where
  "zones_ok E w \<longleftrightarrow>
     (\<forall>s. narrative_file s \<and> nodes w (path_of s) \<noteq> None \<longrightarrow> nested_context_free w (path_of s))
     \<and> (ce_record_current E \<longrightarrow>
          (\<forall>i s. owns E w i s \<and> hd (path_of s) \<noteq> ''05_outbox'' \<longrightarrow> ce_record E i = Some s))"

definition installs :: "compiled \<Rightarrow> world \<Rightarrow> world \<Rightarrow> bool" where
  "installs c w w' \<longleftrightarrow>
     (\<forall>s x. map_of (cp_final c) s = Some x \<longrightarrow> nodes w' (path_of s) = map_option File x)
     \<and> (\<forall>s. s \<notin> fst ` set (cp_final c) \<longrightarrow> narrative_file s \<longrightarrow> nodes w' (path_of s) = nodes w (path_of s))"

lemma owned_listed:
  assumes "owns E w i s" "listings_ok E w"
  shows "s \<in> set (zone_documents E (hd (path_of s)) w)"
  using assms by (auto simp: owns_def listings_ok_def zone_documents_def narrative_file_def)

lemma owned_identities:
  assumes "owns E w i s" "zones_ok E w" "hd (path_of s) \<in> set zs"
  obtains ids where "zone_identities E zs s w = Inr ids" "i \<in> set ids"
proof -
  obtain c ids where c: "nodes w (path_of s) = Some (File c)" "markdown_identities E c = Inr ids" "i \<in> set ids"
    using assms(1) by (auto simp: owns_def)
  have n: "narrative_file s" using assms(1) by (simp add: owns_def)
  have "in_zone s (hd (path_of s))"
  proof (cases "path_of s")
    case (Cons z rest)
    then show ?thesis
      using posix_path_of [of s] by (cases rest) (auto simp: as_posix_def in_zone_def prefix_def)
  qed (use n in \<open>simp add: narrative_file_def\<close>)
  then have "allowed_location zs [] (path_of s)" using assms(3) by (auto simp: allowed_location_def)
  then have "resolve_context_path zs [] s w = Inr (path_of s)"
    using n assms(2) c(1) by (simp add: resolve_context_path_Inr narrative_file_def plain_path_def zones_ok_def)
  then have "zone_identities E zs s w = Inr ids"
    using c(1,2) by (simp add: zone_identities_def operation_identities_def read_operation_file_def)
  then show thesis using that c(3) by blast
qed

lemma map_results_zip: "map_results f xs = Inr ys \<Longrightarrow> x \<in> set xs \<Longrightarrow> \<exists>y\<in>set ys. f x = Inr y"
  by (induction xs arbitrary: ys) (auto simp: result_simps)

text \<open>An owner is among the current owners the analysis looks at.\<close>

lemma owner_is_current:
  assumes "owns E w i s" "listings_ok E w" "zones_ok E w" "projection_matches E w = Inr True"
  shows "s \<in> set (current_owners E i w)"
proof (cases "hd (path_of s) = ''05_outbox''")
  case True
  then have "hd (path_of s) \<in> set [''05_outbox'']" by simp
  then obtain ids where "zone_identities E [''05_outbox''] s w = Inr ids" "i \<in> set ids"
    by (rule owned_identities [OF assms(1,3)])
  then show ?thesis
    using owned_listed [OF assms(1,2)] True by (simp add: current_owners_def outbox_identity_paths_def)
next
  case False
  have zone: "hd (path_of s) \<in> {''02_knowledge'', ''03_work''}"
    using assms(1) False by (auto simp: owns_def narrative_file_def narrative_zones_def)
  have "ce_record E i = Some s"
  proof (cases "ce_record_current E")
    case True
    then show ?thesis using assms(1,3) False by (simp add: zones_ok_def)
  next
    case stale: False
    define f where "f = (\<lambda>(zone, path). bind_result (zone_identities E [zone] path w) (\<lambda>ids. Inr (map (\<lambda>i. (i, path)) ids)))"
    define docs where "docs = concat (map (\<lambda>zone. map (Pair zone) (zone_documents E zone w)) [''02_knowledge'', ''03_work''])"
    obtain xss where x: "map_results f docs = Inr xss"
      "list_all (\<lambda>(identity, path). ce_record E identity = Some path) (concat xss)"
      using assms(4) stale by (auto simp: projection_matches_def indexed_identities_def f_def docs_def result_simps
          simp del: list.map concat.simps)
    have "(hd (path_of s), s) \<in> set docs"
      using owned_listed [OF assms(1,2)] zone by (auto simp: docs_def)
    then obtain ys where ys: "ys \<in> set xss" "f (hd (path_of s), s) = Inr ys"
      using map_results_zip [OF x(1)] by blast
    obtain ids where "zone_identities E [hd (path_of s)] s w = Inr ids" "i \<in> set ids"
      by (rule owned_identities [OF assms(1,3), of "[hd (path_of s)]"]) simp_all
    then have "(i, s) \<in> set ys" using ys(2) by (auto simp: f_def)
    then show ?thesis using x(2) ys(1) by (auto simp: list_all_iff)
  qed
  moreover obtain ids where "zone_identities E [''02_knowledge'', ''03_work''] s w = Inr ids" "i \<in> set ids"
    using owned_identities [OF assms(1,3), of "[''02_knowledge'', ''03_work'']"] zone by auto
  ultimately show ?thesis by (simp add: current_owners_def record_is_current_def)
qed

lemma narrative_file_path: "narrative_file s \<Longrightarrow> is_narrative_path s"
proof -
  assume "narrative_file s"
  moreover have "map lower_char ''.md'' = ''.md''" by code_simp
  ultimately show ?thesis by (simp add: narrative_file_def is_narrative_path_def Let_def suffix_lower_def)
qed

text \<open>A staged owner is among the overlay's.\<close>

lemma staged_owner:
  assumes "owns E w' i s" "map_of fs s = Some x" "nodes w' (path_of s) = map_option File x"
  shows "(i, s) \<in> set (overlay_owners E (narrative_finals fs))"
proof -
  obtain c ids where c: "x = Some c" "markdown_identities E c = Inr ids" "i \<in> set ids"
    using assms(1,3) by (auto simp: owns_def)
  have "is_narrative_path s" using assms(1) narrative_file_path by (simp add: owns_def)
  moreover have "(s, x) \<in> set fs" using assms(2) by (rule map_of_SomeD)
  ultimately have "(s, c) \<in> set (narrative_finals fs)" using c(1) by (force simp: narrative_finals_def)
  then show ?thesis using c(2,3) by (force simp: overlay_owners_def)
qed

lemma overlay_severity: "d \<in> set (overlay_problems E fs locations w) \<Longrightarrow> dg_severity d = Sev_error"
proof -
  have "dg_severity d = Sev_error" if "d \<in> set (identity_problems E fs locations os i w)" for os i
    using that by (auto simp: identity_problems_def Let_def split: if_splits)
  moreover have "dg_severity d = Sev_error" if "d \<in> set (invalid_documents E files)" for files
    using that by (auto simp: invalid_documents_def split: sum.splits)
  ultimately show "d \<in> set (overlay_problems E fs locations w) \<Longrightarrow> dg_severity d = Sev_error"
    by (auto simp: overlay_problems_def Let_def)
qed

lemma overlay_clean:
  assumes "error_free (overlay_problems E fs locations w)" "(i, s) \<in> set (overlay_owners E (narrative_finals fs))"
  shows "card (set (owners_of (overlay_owners E (narrative_finals fs)) i)) \<le> 1"
    and "set (current_owners E i w) \<subseteq> fst ` set fs"
proof -
  let ?owners = "overlay_owners E (narrative_finals fs)"
  have "overlay_problems E fs locations w = []"
    using assms(1) by (rule no_problems) (use overlay_severity in blast)
  moreover have "i \<in> set (sort (remdups (map fst ?owners)))" using assms(2) by force
  ultimately have "identity_problems E fs locations ?owners i w = []"
    unfolding overlay_problems_def Let_def by auto
  then show "card (set (owners_of ?owners i)) \<le> 1" "set (current_owners E i w) \<subseteq> fst ` set fs"
    by (auto simp: identity_problems_def Let_def split: if_splits)
qed

text \<open>
  C15: Record identities stay unique. When no identity is owned by two narrative documents, and an
  accepted proposal whose analysis reports no error is installed - the compiled contents at their
  paths, the other narrative files unchanged -, then again no identity is owned by two documents,
  moved, created, updated or untouched.
\<close>

theorem identities_stay_unique:
  assumes "analyze E p acks duplicate head skipped w = Inr a" "an_compiled a = Some c" "analysis_valid a"
    and "listings_ok E w" "zones_ok E w" "unique_owners E w" "installs c w w'"
  shows "unique_owners E w'"
proof -
  obtain c0 ds ack s ms refs where "compile_operations E 0 (prop_operations p) no_progress w = Inr s"
    and proj: "projection_matches E w = Inr True"
    and "final_manifests E (sort_key fst (pg_final s)) = Some ms"
    and s2: "ds = pg_diagnostics s @ all_artifact_problems E (pg_final s) [] ms w
       @ overlay_problems E (pg_final s) (pg_locations s) w"
    and "cp_writes c0 = pg_writes s" "cp_effects c0 = pg_effects s" "cp_audit c0 = pg_audit s"
    and s3: "cp_final c0 = pg_final s"
    and ack: "compile_acknowledgments E c0 acks w = (c, ack)"
    and "reference_problems E p c w = Inr refs"
    and ds: "an_diagnostics a = ds @ ack @ secret_problems E p (cp_acknowledged c)
       @ condition_problems E (prop_preconditions p) c False ''preconditions'' w
       @ condition_problems E (prop_postconditions p) c True ''postconditions'' w @ refs"
    by (rule analyze_Inr [OF assms(1,2)])
  have clean: "error_free (overlay_problems E (cp_final c0) (pg_locations s) w)"
    using assms(3) unfolding analysis_valid_def error_free_def [symmetric] ds s2 s3 by simp
  have keys: "x \<in> fst ` set (cp_final c0) \<and> map_of (cp_final c0) x = map_of (cp_final c) x"
    if "x \<in> fst ` set (cp_final c)" "narrative_file x" for x
  proof -
    have "\<not> narrative_file acknowledgments_path" by code_simp
    then have ne: "x \<noteq> acknowledgments_path" using that(2) by auto
    from ack show ?thesis
      by (cases rule: acknowledged_cases)
        (use ne that(1) in \<open>auto simp: with_acknowledgments_def Let_def keys_update map_of_update\<close>)
  qed
  have staged: "(i, x) \<in> set (overlay_owners E (narrative_finals (cp_final c0)))"
    if own: "owns E w' i x" and key: "x \<in> fst ` set (cp_final c)" for i x
  proof -
    have n: "narrative_file x" using own by (simp add: owns_def)
    obtain y where y: "map_of (cp_final c) x = Some y" using key by (metis map_of_eq_None_iff not_None_eq)
    then have "nodes w' (path_of x) = map_option File y" using assms(7) by (simp add: installs_def)
    then show ?thesis using staged_owner [OF own] keys [OF key n] y by simp
  qed
  have kept: "owns E w i x" if "owns E w' i x" "x \<notin> fst ` set (cp_final c)" for i x
  proof -
    have "narrative_file x" using that(1) by (simp add: owns_def)
    then have "nodes w' (path_of x) = nodes w (path_of x)" using that(2) assms(7) by (simp add: installs_def)
    then show ?thesis using that(1) by (simp add: owns_def)
  qed
  have mixed: False if "owns E w' i x" "owns E w' i y" "x \<in> fst ` set (cp_final c)" "y \<notin> fst ` set (cp_final c)" for i x y
  proof -
    have "y \<in> set (current_owners E i w)"
      by (rule owner_is_current [OF kept [OF that(2,4)] assms(4,5) proj])
    then have "y \<in> fst ` set (cp_final c0)"
      using overlay_clean(2) [OF clean staged [OF that(1,3)]] by blast
    moreover have "fst ` set (cp_final c0) \<subseteq> fst ` set (cp_final c)"
      using ack by (cases rule: acknowledged_cases) (auto simp: with_acknowledgments_def Let_def keys_update)
    ultimately show False using that(4) by blast
  qed
  show ?thesis
    unfolding unique_owners_def
  proof (intro allI impI, elim conjE)
    fix i x y
    assume o: "owns E w' i x" "owns E w' i y"
    consider "x \<in> fst ` set (cp_final c)" "y \<in> fst ` set (cp_final c)"
      | "x \<notin> fst ` set (cp_final c)" "y \<notin> fst ` set (cp_final c)"
      using mixed o by blast
    then show "x = y"
    proof cases
      case 1
      let ?os = "overlay_owners E (narrative_finals (cp_final c0))"
      have "{x, y} \<subseteq> set (owners_of ?os i)"
        using staged [OF o(1) 1(1)] staged [OF o(2) 1(2)] by (force simp: owners_of_def)
      then have "card {x, y} \<le> 1"
        using card_mono [of "set (owners_of ?os i)" "{x, y}"] overlay_clean(1) [OF clean staged [OF o(1) 1(1)]] by simp
      then show ?thesis by (cases "x = y") auto
    next
      case 2
      then show ?thesis using kept o assms(6) unfolding unique_owners_def by blast
    qed
  qed
qed

section \<open>Example\<close>

text \<open>A claim document is moved into the work zone and a generated view deleted.\<close>

definition example_claim :: claim where
  "example_claim = \<lparr>claim_id = ''a'', claim_subject = ''s'', claim_predicate = ''p'', claim_object = ''o'',
     claim_observed_at = \<lparr>stamp_utc = 0, stamp_offset = 0\<rparr>, claim_valid_from = None, claim_valid_to = None,
     claim_status = Current, claim_supersedes = None, claim_superseded_by = None, claim_confidence = High,
     claim_observations = []\<rparr>"

definition example_files :: "world \<Rightarrow> string \<Rightarrow> string list" where
  "example_files w zone =
     filter (\<lambda>s. hd (path_of s) = zone \<and> nodes w (path_of s) \<noteq> None) [''02_knowledge/a.md'', ''03_work/a.md'']"

definition example_compile_env :: compile_env where
  "example_compile_env = \<lparr>ce_context = ''ctx'',
     ce_hash = (\<lambda>c. ''sha256:'' @ replicate 64 (if c = Bytes ''claim'' then CHR ''b'' else CHR ''c'')),
     ce_hostok = (\<lambda>_. True), ce_render = (\<lambda>_ _. Bytes []),
     ce_narrative = (\<lambda>c. if c = Bytes ''claim'' then Some (Narrative_claim example_claim) else None),
     ce_manifest = (\<lambda>_ _. None), ce_loaded_identity = (\<lambda>_ _. None), ce_hand_edits = (\<lambda>_ _. False),
     ce_extras = (\<lambda>_. []), ce_observation = (\<lambda>_. None),
     ce_listing = (\<lambda>zone w. example_files w zone),
     ce_record = (\<lambda>i. if i = ''workctx://ctx/claim/a'' then Some ''02_knowledge/a.md'' else None),
     ce_record_current = False, ce_ready = True, ce_casefold = id, ce_secret_text = (\<lambda>_. None),
     ce_possible_secret = (\<lambda>_. False), ce_dump = (\<lambda>_. JNull), ce_load_acks = (\<lambda>_. None), ce_dump_acks = (\<lambda>_. Bytes []),
     ce_acks_ok = (\<lambda>_. True), ce_now = \<lparr>stamp_utc = 0, stamp_offset = 0\<rparr>, ce_body_references = (\<lambda>_. [])\<rparr>"

definition example_tree :: "(fpath \<times> node) list \<Rightarrow> world" where
  "example_tree files = \<lparr>nodes = map_of ([([''02_knowledge''], Dir), ([''03_work''], Dir), ([''04_views''], Dir)] @ files),
     disk_nonce = None, world_context = ''ctx'', events = [], tokens = []\<rparr>"

definition tree_before :: world where
  "tree_before = example_tree [([''02_knowledge'', ''a.md''], File (Bytes ''claim'')),
     ([''04_views'', ''a.md''], File (Bytes ''view''))]"

definition tree_after :: world where
  "tree_after = example_tree [([''03_work'', ''a.md''], File (Bytes ''claim''))]"

definition example_analysis :: "exn + analysis" where
  "example_analysis = analyze example_compile_env example_proposal [] False zero_revision None tree_before"

definition example_outcome :: compiled where
  "example_outcome = (case example_analysis of Inr a \<Rightarrow> the (an_compiled a) | Inl _ \<Rightarrow> undefined)"

lemma example_analysis_valid:
  obtains a where "analyze example_compile_env example_proposal [] False zero_revision None tree_before = Inr a"
    "an_compiled a = Some example_outcome" "analysis_valid a"
proof -
  have "case example_analysis of Inr a \<Rightarrow> an_diagnostics a = [] \<and> an_compiled a \<noteq> None | Inl _ \<Rightarrow> False"
    by code_simp
  then have "\<exists>a c. example_analysis = Inr a \<and> an_diagnostics a = [] \<and> an_compiled a = Some c"
    by (auto split: sum.splits)
  then obtain a c where a: "example_analysis = Inr a" "an_diagnostics a = []" "an_compiled a = Some c"
    by blast
  have "example_outcome = c" unfolding example_outcome_def a(1) by (simp add: a(3))
  then show thesis using that a by (simp add: example_analysis_def analysis_valid_def)
qed

lemma example_outcome_is:
  "cp_final example_outcome = [(''02_knowledge/a.md'', None), (''03_work/a.md'', Some (Bytes ''claim'')),
     (''04_views/a.md'', None)]"
  "cp_audit example_outcome = [Audit_move ''02_knowledge/a.md'' ''03_work/a.md'' (''sha256:'' @ replicate 64 (CHR ''b'')),
     Audit_delete_generated ''04_views/a.md'' (''sha256:'' @ replicate 64 (CHR ''c''))]"
  by code_simp+

lemma example_after: "\<forall>x\<in>set (cp_audit example_outcome). op_after (ce_hash example_compile_env) tree_after x"
  by code_simp

lemma example_paths:
  "path_of ''02_knowledge/a.md'' = [''02_knowledge'', ''a.md'']" "path_of ''03_work/a.md'' = [''03_work'', ''a.md'']"
  "path_of ''04_views/a.md'' = [''04_views'', ''a.md'']"
  by code_simp+

lemma example_others: "others_same (ops_paths (cp_audit example_outcome)) tree_before tree_after"
  by (auto simp: others_same_def ops_paths_def example_outcome_is audit_applied_targets_def example_paths
      tree_before_def tree_after_def example_tree_def)

theorem compile_faithful_witness:
  "op_before (ce_hash example_compile_env) tree_before
     (Audit_move ''02_knowledge/a.md'' ''03_work/a.md'' (''sha256:'' @ replicate 64 (CHR ''b'')))"
proof -
  obtain a where a: "analyze example_compile_env example_proposal [] False zero_revision None tree_before = Inr a"
    "an_compiled a = Some example_outcome"
    by (rule example_analysis_valid)
  show ?thesis
    using compile_faithful [OF example_proposal_valid a] by (simp add: example_outcome_is)
qed


lemma tree_files:
  "s \<noteq> ''02_knowledge/a.md'' \<Longrightarrow> narrative_file s \<Longrightarrow> nodes tree_before (path_of s) = None"
  "s \<noteq> ''03_work/a.md'' \<Longrightarrow> narrative_file s \<Longrightarrow> nodes tree_after (path_of s) = None"
  using path_of_inj [of s "''02_knowledge/a.md''"] path_of_inj [of s "''03_work/a.md''"]
  by (auto simp: tree_before_def tree_after_def example_tree_def narrative_file_def narrative_zones_def example_paths
      split: if_splits)

lemma tree_claim: "nodes tree_before (path_of ''02_knowledge/a.md'') = Some (File (Bytes ''claim''))"
  by (simp add: tree_before_def example_tree_def example_paths)

lemma example_narrative: "narrative_file ''02_knowledge/a.md''" "narrative_file ''03_work/a.md''"
  by code_simp+

lemma example_listings: "listings_ok example_compile_env tree_before"
proof -
  have "s \<in> set (example_files tree_before zone) \<longleftrightarrow>
      narrative_file s \<and> hd (path_of s) = zone \<and> nodes tree_before (path_of s) \<noteq> None" for s zone
  proof (cases "s = ''02_knowledge/a.md''")
    case True
    then show ?thesis using example_narrative tree_claim by (simp add: example_files_def)
  next
    case False
    then show ?thesis
      using tree_files(1) [OF False] tree_files(1) [of "''03_work/a.md''"] example_narrative
      by (auto simp: example_files_def)
  qed
  then show ?thesis by (auto simp: listings_ok_def example_compile_env_def)
qed

lemma example_owner: "owns example_compile_env tree_before i s \<Longrightarrow>
    s = ''02_knowledge/a.md'' \<and> i = ''workctx://ctx/claim/a''"
proof -
  assume o: "owns example_compile_env tree_before i s"
  then have s: "s = ''02_knowledge/a.md''" using tree_files(1) [of s] by (force simp: owns_def)
  have "markdown_identities example_compile_env (Bytes ''claim'') = Inr [''workctx://ctx/claim/a'']" by code_simp
  then show ?thesis
    using o s by (auto simp: owns_def tree_claim)
qed

lemma example_zones: "zones_ok example_compile_env tree_before"
proof -
  have free: "nested_context_free tree_before [''02_knowledge'', ''a.md'']" by code_simp
  have "nested_context_free tree_before (path_of s)"
    if "narrative_file s" "nodes tree_before (path_of s) \<noteq> None" for s
  proof (cases "s = ''02_knowledge/a.md''")
    case True
    then show ?thesis using free by (simp only: example_paths)
  next
    case False
    then show ?thesis using tree_files(1) [OF False that(1)] that(2) by simp
  qed
  then show ?thesis unfolding zones_ok_def by (simp add: example_compile_env_def)
qed

theorem identities_stay_unique_witness: "unique_owners example_compile_env tree_after"
proof -
  obtain a where a: "analyze example_compile_env example_proposal [] False zero_revision None tree_before = Inr a"
    "an_compiled a = Some example_outcome" "analysis_valid a"
    by (rule example_analysis_valid)
  have u: "unique_owners example_compile_env tree_before"
    using example_owner unfolding unique_owners_def by blast
  have "installs example_outcome tree_before tree_after"
    unfolding installs_def
  proof (intro conjI allI impI)
    show "nodes tree_after (path_of s) = map_option File x" if "map_of (cp_final example_outcome) s = Some x" for s x
      using that by (auto simp: example_outcome_is example_paths tree_after_def example_tree_def split: if_splits)
    show "nodes tree_after (path_of s) = nodes tree_before (path_of s)"
      if out: "s \<notin> fst ` set (cp_final example_outcome)" and n: "narrative_file s" for s
    proof -
      have "nodes tree_after (path_of s) = None" "nodes tree_before (path_of s) = None"
        using tree_files [of s, OF _ n] out by (simp_all add: example_outcome_is)
      then show ?thesis by simp
    qed
  qed
  then show ?thesis
    by (rule identities_stay_unique [OF a example_listings example_zones u])
qed

end
