(* ===== verification/Tasks.thy ===== *)
theory Tasks
  imports ProposalLaws
begin

text \<open>
  The task service (\<open>tasks/service.py\<close>): creating tasks and changing their fields. The current value
  of status, owner and deadline is also recorded by a claim about the task; a change supersedes the
  current claim and creates a new one in the same proposal.

  The projection is rebuilt before every operation, so its rows are the documents of the context,
  here a list of stored documents. An operation returns the claims it creates and the validated
  proposal; \<open>commit\<close> is what an applied proposal does to the documents.
\<close>

section \<open>Stored documents\<close>

record stored =
  st_path :: string
  st_payload :: payload
  st_hash :: string

definition task_rows :: "stored list \<Rightarrow> (stored \<times> task \<times> string) list" where
  "task_rows D = concat (map (\<lambda>x. case st_payload x of Task_doc t b \<Rightarrow> [(x, t, b)] | _ \<Rightarrow> []) D)"

definition claim_rows :: "stored list \<Rightarrow> (stored \<times> claim \<times> string) list" where
  "claim_rows D = concat (map (\<lambda>x. case st_payload x of Claim_doc c b \<Rightarrow> [(x, c, b)] | _ \<Rightarrow> []) D)"

definition tasks_of :: "stored list \<Rightarrow> task list" where
  "tasks_of D = map (\<lambda>(x, t, b). t) (task_rows D)"

definition claims_of :: "stored list \<Rightarrow> claim list" where
  "claims_of D = map (\<lambda>(x, c, b). c) (claim_rows D)"

section \<open>Errors and environment\<close>

datatype task_error =
    Task_not_found
  | Evidence_required
  | Task_state
  | Claims_exhausted int
  | Bad_hierarchy hierarchy_error
  | Invalid_model
  | Invalid_proposal

record task_env =
  te_context :: string
  te_hostok :: "string \<Rightarrow> bool"
  te_nfc :: "string \<Rightarrow> string"
  te_ck :: "string \<Rightarrow> string"
  te_now :: stamp
  te_random :: string
  te_actor :: actor
  te_revision :: string
  te_review_required :: bool

section \<open>Texts\<close>

definition pad :: "nat \<Rightarrow> nat \<Rightarrow> string" where
  "pad n k = replicate (n - length (digits k)) (CHR ''0'') @ digits k"

text \<open>\<open>astimezone(UTC).replace(microsecond=0)\<close>\<close>

definition normalize_time :: "stamp \<Rightarrow> stamp" where
  "normalize_time s = \<lparr>stamp_utc = stamp_utc s div 1000000 * 1000000, stamp_offset = 0\<rparr>"

text \<open>The calendar date of a number of days since the first day of the year 1.\<close>

fun month_day :: "int list \<Rightarrow> int \<Rightarrow> int \<Rightarrow> int \<times> int" where
  "month_day [] m d = (m, d + 1)"
| "month_day (l # ls) m d = (if d < l then (m, d + 1) else month_day ls (m + 1) (d - l))"

definition civil_date :: "int \<Rightarrow> int \<times> int \<times> int" where
  "civil_date n =
     (let n400 = n div 146097; r400 = n mod 146097; n100 = r400 div 36524; r100 = r400 mod 36524;
          n4 = r100 div 1461; r4 = r100 mod 1461; n1 = r4 div 365; r1 = r4 mod 365;
          y = n400 * 400 + n100 * 100 + n4 * 4 + n1 + 1
      in if n1 = 4 \<or> n100 = 4 then (y - 1, 12, 31)
         else (let (m, d) = month_day (month_lengths y) 1 r1 in (y, m, d)))"

definition stamp_year :: "stamp \<Rightarrow> int" where
  "stamp_year s = fst (civil_date (stamp_utc s div 1000000 div 86400))"

definition date_text :: "string \<Rightarrow> string \<Rightarrow> stamp \<Rightarrow> string" where
  "date_text dash colon s =
     (let seconds = stamp_utc s div 1000000; (y, m, d) = civil_date (seconds div 86400);
          r = seconds mod 86400
      in pad 4 (nat y) @ dash @ pad 2 (nat m) @ dash @ pad 2 (nat d) @ ''T''
         @ pad 2 (nat (r div 3600)) @ colon @ pad 2 (nat (r mod 3600 div 60)) @ colon
         @ pad 2 (nat (r mod 60)) @ ''Z'')"

definition json_datetime :: "stamp \<Rightarrow> string" where
  "json_datetime s = date_text ''-'' '':'' (normalize_time s)"

text \<open>\<open>json.dumps\<close> of a string with \<open>ensure_ascii=False\<close>, and of \<open>None\<close>.\<close>

definition hex_digit :: "nat \<Rightarrow> char" where
  "hex_digit k = ''0123456789abcdef'' ! k"

definition json_char :: "char \<Rightarrow> string" where
  "json_char c =
     (if c = CHR 0x22 then [CHR 0x5C, CHR 0x22]
      else if c = CHR 0x5C then [CHR 0x5C, CHR 0x5C]
      else if c = CHR 0x0A then [CHR 0x5C, CHR ''n'']
      else if c = CHR 0x0D then [CHR 0x5C, CHR ''r'']
      else if c = CHR 0x09 then [CHR 0x5C, CHR ''t'']
      else if c = CHR 0x08 then [CHR 0x5C, CHR ''b'']
      else if c = CHR 0x0C then [CHR 0x5C, CHR ''f'']
      else if (of_char c :: nat) < 32
      then [CHR 0x5C, CHR ''u'', CHR ''0'', CHR ''0'', hex_digit (of_char c div 16), hex_digit (of_char c mod 16)]
      else [c])"

definition json_string :: "string \<Rightarrow> string" where
  "json_string s = [CHR 0x22] @ concat (map json_char s) @ [CHR 0x22]"

definition json_optional :: "string option \<Rightarrow> string" where
  "json_optional v = (case v of None \<Rightarrow> ''null'' | Some s \<Rightarrow> json_string s)"

fun status_value :: "task_status \<Rightarrow> string" where
  "status_value Backlog = ''backlog''"
| "status_value Ready = ''ready''"
| "status_value Active_task = ''active''"
| "status_value Blocked = ''blocked''"
| "status_value Waiting = ''waiting''"
| "status_value Done = ''done''"
| "status_value Cancelled = ''cancelled''"

definition task_path :: "string \<Rightarrow> string" where
  "task_path i = ''03_work/tasks/'' @ i @ ''.md''"

definition claim_path :: "string \<Rightarrow> string" where
  "claim_path i = ''02_knowledge/claims/'' @ i @ ''.md''"

definition claim_body :: "string \<Rightarrow> string \<Rightarrow> string" where
  "claim_body predicate rendered =
     ''Task '' @ predicate @ '' recorded as '' @ rendered @ ''.'' @ [CHR 0x0A]"

definition task_proposal_id :: "stamp \<Rightarrow> string \<Rightarrow> string \<Rightarrow> string \<Rightarrow> string" where
  "task_proposal_id created_at action i random =
     ''TXP-'' @ date_text [] [] created_at @ ''-task-'' @ action @ ''-'' @ map lower_char i @ ''-'' @ random"

section \<open>Helpers of the service\<close>

definition require_observations :: "string list \<Rightarrow> task_error + string list" where
  "require_observations vs =
     (let os = dedup_key id {} vs in if os = [] then Inl Evidence_required else Inr os)"

definition task_document :: "stored list \<Rightarrow> string \<Rightarrow> task_error + (stored \<times> task \<times> string)" where
  "task_document D i =
     (case List.find (\<lambda>(x, t, b). ent_id t = i) (task_rows D) of
        None \<Rightarrow> Inl Task_not_found | Some row \<Rightarrow> Inr row)"

definition current_claim ::
  "stored list \<Rightarrow> string \<Rightarrow> string \<Rightarrow> task_error + (stored \<times> claim \<times> string) option" where
  "current_claim D uri predicate =
     (case filter (\<lambda>(x, c, b). claim_subject c = uri \<and> claim_status c = Current
              \<and> claim_predicate c = predicate) (claim_rows D) of
        [] \<Rightarrow> Inr None | [row] \<Rightarrow> Inr (Some row) | _ \<Rightarrow> Inl Task_state)"

definition check_hierarchy :: "task_env \<Rightarrow> task list \<Rightarrow> task_error + unit" where
  "check_hierarchy E ts =
     (case validate_task_hierarchy (te_hostok E) ts of Inl e \<Rightarrow> Inl (Bad_hierarchy e) | Inr u \<Rightarrow> Inr u)"

definition check_addition :: "task_env \<Rightarrow> stored list \<Rightarrow> task \<Rightarrow> task_error + unit" where
  "check_addition E D t = check_hierarchy E (tasks_of D @ [t])"

definition check_replacement :: "task_env \<Rightarrow> stored list \<Rightarrow> task \<Rightarrow> task_error + unit" where
  "check_replacement E D t =
     (if ent_id t \<notin> ent_id ` set (tasks_of D) then Inl Task_not_found
      else check_hierarchy E (map (\<lambda>u. if ent_id u = ent_id t then t else u) (tasks_of D)))"

text \<open>The sequence number in \<^verbatim>\<open>CLM-YYYY-NNNNN.md\<close>.\<close>

definition claim_sequence :: "int \<Rightarrow> string \<Rightarrow> nat option" where
  "claim_sequence year name =
     (if length name = 17 \<and> take 9 name = ''CLM-'' @ pad 4 (nat year) @ ''-''
          \<and> list_all is_digit (take 5 (drop 9 name)) \<and> drop 14 name = ''.md''
      then Some (nat (read_field name 9 5)) else None)"

definition used_sequences :: "int \<Rightarrow> stored list \<Rightarrow> nat list" where
  "used_sequences year D =
     concat (map (\<lambda>x. let parts = split_on CHR ''/'' (st_path x) in
       if 1 < length parts \<and> hd parts = ''02_knowledge''
       then (case claim_sequence year (last parts) of None \<Rightarrow> [] | Some k \<Rightarrow> [k]) else []) D)"

definition allocate_claim_ids :: "int \<Rightarrow> nat \<Rightarrow> stored list \<Rightarrow> task_error + string list" where
  "allocate_claim_ids year count D =
     (if count = 0 then Inr []
      else let start = Max (set (0 # used_sequences year D)) + 1 in
        if 99999 < start + count - 1 then Inl (Claims_exhausted year)
        else Inr (map (\<lambda>k. ''CLM-'' @ pad 4 (nat year) @ ''-'' @ pad 5 k) [start..<start + count]))"

definition new_claim ::
  "task_env \<Rightarrow> string \<Rightarrow> task \<Rightarrow> string \<Rightarrow> string \<Rightarrow> stamp \<Rightarrow> string list \<Rightarrow> string option \<Rightarrow> task_error + claim"
where
  "new_claim E i t predicate object observed_at observations supersedes =
     (case validate_claim (te_hostok E)
        \<lparr>claim_id = i, claim_subject = ent_uri t, claim_predicate = predicate, claim_object = object,
         claim_observed_at = observed_at, claim_valid_from = Some observed_at, claim_valid_to = None,
         claim_status = Current, claim_supersedes = supersedes, claim_superseded_by = None,
         claim_confidence = High, claim_observations = observations\<rparr> of
        None \<Rightarrow> Inl Invalid_model | Some c \<Rightarrow> Inr c)"

definition claim_create :: "claim \<Rightarrow> string \<Rightarrow> operation" where
  "claim_create c body = Create (claim_path (claim_id c)) (Claim_doc c body)"

definition updated_task ::
  "task_env \<Rightarrow> task \<Rightarrow> (task \<Rightarrow> task) \<Rightarrow> stamp \<Rightarrow> string list \<Rightarrow> task_error + task" where
  "updated_task E t change observed_at observations =
     (case validate_task (te_hostok E)
        ((change t)\<lparr>ent_updated_at := observed_at,
           task_observations := dedup_key id {} (task_observations t @ observations)\<rparr>) of
        None \<Rightarrow> Inl Invalid_model | Some t' \<Rightarrow> Inr t')"

definition superseded_claim :: "task_env \<Rightarrow> claim \<Rightarrow> string \<Rightarrow> task_error + claim" where
  "superseded_claim E c i =
     (case validate_claim (te_hostok E) (c\<lparr>claim_status := Superseded, claim_superseded_by := Some i\<rparr>) of
        None \<Rightarrow> Inl Invalid_model | Some c' \<Rightarrow> Inr c')"

definition task_proposal ::
  "task_env \<Rightarrow> string \<Rightarrow> string \<Rightarrow> string list \<Rightarrow> operation list \<Rightarrow> stamp \<Rightarrow> task_error + proposal" where
  "task_proposal E i action observations operations created_at =
     (case validate_proposal (te_nfc E) (te_ck E) (te_hostok E)
        \<lparr>prop_schema_version = 1, prop_id = task_proposal_id created_at action i (te_random E),
         prop_context = te_context E, prop_base_revision = te_revision E, prop_actor = te_actor E,
         prop_created_at = created_at, prop_source_refs = observations, prop_operations = operations,
         prop_preconditions = [], prop_postconditions = [], prop_expected_views = [''sqlite''],
         prop_approval_required = te_review_required E\<rparr> of
        None \<Rightarrow> Inl Invalid_proposal | Some p \<Rightarrow> Inr p)"

section \<open>Operations\<close>

text \<open>The claims that record the initial state of a task.\<close>

definition claim_specs :: "task \<Rightarrow> (string \<times> string) list" where
  "claim_specs t =
     (''status'', json_string (status_value (task_status t)))
     # (case task_owner t of None \<Rightarrow> [] | Some v \<Rightarrow> [(''owner'', json_string v)])
     @ (case task_due_at t of None \<Rightarrow> [] | Some d \<Rightarrow> [(''due'', json_string (json_datetime d))])"

definition initial_claim ::
  "task_env \<Rightarrow> task \<Rightarrow> stamp \<Rightarrow> string list \<Rightarrow> string \<times> string \<times> string \<Rightarrow> task_error + operation" where
  "initial_claim E t now observations = (\<lambda>(i, predicate, object).
     bind_result (new_claim E i t predicate object now observations None) (\<lambda>c.
       Inr (claim_create c (claim_body predicate object))))"

definition create_task :: "task_env \<Rightarrow> stored list \<Rightarrow> task \<Rightarrow> string \<Rightarrow> task_error + (string list \<times> proposal)" where
  "create_task E D t body =
     bind_result (require_observations (task_observations t)) (\<lambda>observations.
     let now = normalize_time (te_now E) in
     if ent_id t \<in> ent_id ` set (tasks_of D) then Inl Task_state
     else
       bind_result (check_addition E D t) (\<lambda>_.
       bind_result (allocate_claim_ids (stamp_year now) (length (claim_specs t)) D) (\<lambda>ids.
       bind_result (map_results (initial_claim E t now observations) (zip ids (claim_specs t))) (\<lambda>claims.
       bind_result (task_proposal E (ent_id t) ''create'' observations
           (Create (task_path (ent_id t)) (Task_doc t body) # claims) now) (\<lambda>p.
         Inr (ids, p))))))"

definition create_subtask :: "task_env \<Rightarrow> stored list \<Rightarrow> task \<Rightarrow> string \<Rightarrow> task_error + (string list \<times> proposal)" where
  "create_subtask E D t body =
     (if task_type t \<noteq> Subtask then Inl Task_state else create_task E D t body)"

definition allocated_id :: "int \<Rightarrow> stored list \<Rightarrow> string option \<Rightarrow> task_error + string" where
  "allocated_id year D given =
     (case given of
        Some (c # cs) \<Rightarrow> Inr (c # cs)
      | _ \<Rightarrow> bind_result (allocate_claim_ids year 1 D) (\<lambda>ids. Inr (hd ids)))"

text \<open>The update of the claim that is superseded, when there is one.\<close>

definition supersede :: "task_env \<Rightarrow> (stored \<times> claim \<times> string) option \<Rightarrow> string \<Rightarrow> task_error + operation list" where
  "supersede E current i =
     (case current of
        None \<Rightarrow> Inr []
      | Some (y, c, body) \<Rightarrow>
          bind_result (superseded_claim E c i) (\<lambda>c'. Inr [Update (st_path y) (Claim_doc c' body) (st_hash y)]))"

text \<open>A change of a field: whether the task already has the value, and the field's assignment.\<close>

record change =
  ch_same :: "task \<Rightarrow> bool"
  ch_set :: "task \<Rightarrow> task"

definition update_claimed_field ::
  "task_env \<Rightarrow> stored list \<Rightarrow> string \<Rightarrow> change \<Rightarrow> string \<Rightarrow> string \<Rightarrow> string \<Rightarrow> string list \<Rightarrow> string option
    \<Rightarrow> task_error + (string list \<times> proposal)"
where
  "update_claimed_field E D i ch predicate object action evidence given =
     bind_result (require_observations evidence) (\<lambda>observations.
     let now = normalize_time (te_now E) in
     bind_result (task_document D i) (\<lambda>(x, t, body).
     if ch_same ch t then Inl Task_state
     else
       bind_result (updated_task E t (ch_set ch) now observations) (\<lambda>t'.
       bind_result (check_replacement E D t') (\<lambda>_.
       bind_result (allocated_id (stamp_year now) D given) (\<lambda>new.
       bind_result (current_claim D (ent_uri t) predicate) (\<lambda>current.
       bind_result (supersede E current new) (\<lambda>old.
       bind_result (new_claim E new t' predicate object now observations
           (map_option (\<lambda>(y, c, b). claim_id c) current)) (\<lambda>c.
       bind_result (task_proposal E i action observations
           (Update (st_path x) (Task_doc t' body) (st_hash x)
            # old @ [claim_create c (claim_body predicate object)]) now) (\<lambda>p.
         Inr ([new], p))))))))))"

definition update_unclaimed_fields ::
  "task_env \<Rightarrow> stored list \<Rightarrow> string \<Rightarrow> change \<Rightarrow> string \<Rightarrow> string list \<Rightarrow> task_error + (string list \<times> proposal)"
where
  "update_unclaimed_fields E D i ch action evidence =
     bind_result (require_observations evidence) (\<lambda>observations.
     let now = normalize_time (te_now E) in
     bind_result (task_document D i) (\<lambda>(x, t, body).
     if ch_same ch t then Inl Task_state
     else
       bind_result (updated_task E t (ch_set ch) now observations) (\<lambda>t'.
       bind_result (check_replacement E D t') (\<lambda>_.
       bind_result (task_proposal E i action observations
           [Update (st_path x) (Task_doc t' body) (st_hash x)] now) (\<lambda>p.
         Inr ([], p))))))"

definition transition_status ::
  "task_env \<Rightarrow> stored list \<Rightarrow> string \<Rightarrow> task_status \<Rightarrow> string list \<Rightarrow> string option
    \<Rightarrow> task_error + (string list \<times> proposal)" where
  "transition_status E D i v =
     update_claimed_field E D i \<lparr>ch_same = (\<lambda>t. task_status t = v), ch_set = task_status_update (\<lambda>_. v)\<rparr>
       ''status'' (json_string (status_value v)) ''status''"

definition update_owner ::
  "task_env \<Rightarrow> stored list \<Rightarrow> string \<Rightarrow> string option \<Rightarrow> string list \<Rightarrow> string option
    \<Rightarrow> task_error + (string list \<times> proposal)" where
  "update_owner E D i v =
     update_claimed_field E D i \<lparr>ch_same = (\<lambda>t. task_owner t = v), ch_set = task_owner_update (\<lambda>_. v)\<rparr>
       ''owner'' (json_optional v) ''owner''"

definition update_due ::
  "task_env \<Rightarrow> stored list \<Rightarrow> string \<Rightarrow> stamp option \<Rightarrow> string list \<Rightarrow> string option
    \<Rightarrow> task_error + (string list \<times> proposal)" where
  "update_due E D i due =
     (let v = map_option normalize_time due in
      update_claimed_field E D i
        \<lparr>ch_same = (\<lambda>t. map_option stamp_utc (task_due_at t) = map_option stamp_utc v),
         ch_set = task_due_at_update (\<lambda>_. v)\<rparr>
        ''due'' (json_optional (map_option json_datetime v)) ''due'')"

definition update_waiting_on ::
  "task_env \<Rightarrow> stored list \<Rightarrow> string \<Rightarrow> string list \<Rightarrow> string list \<Rightarrow> task_error + (string list \<times> proposal)" where
  "update_waiting_on E D i v =
     update_unclaimed_fields E D i
       \<lparr>ch_same = (\<lambda>t. task_waiting_on t = v), ch_set = task_waiting_on_update (\<lambda>_. v)\<rparr> ''waiting-on''"

definition update_next_action ::
  "task_env \<Rightarrow> stored list \<Rightarrow> string \<Rightarrow> string \<Rightarrow> string list \<Rightarrow> task_error + (string list \<times> proposal)" where
  "update_next_action E D i v =
     update_unclaimed_fields E D i
       \<lparr>ch_same = (\<lambda>t. task_next_action t = v), ch_set = task_next_action_update (\<lambda>_. v)\<rparr> ''next-action''"

datatype command =
    Create_task task string
  | Create_subtask task string
  | Transition_status string task_status "string list" "string option"
  | Update_owner string "string option" "string list" "string option"
  | Update_due string "stamp option" "string list" "string option"
  | Update_waiting_on string "string list" "string list"
  | Update_next_action string string "string list"

fun perform :: "task_env \<Rightarrow> stored list \<Rightarrow> command \<Rightarrow> task_error + (string list \<times> proposal)" where
  "perform E D (Create_task t body) = create_task E D t body"
| "perform E D (Create_subtask t body) = create_subtask E D t body"
| "perform E D (Transition_status i v obs c) = transition_status E D i v obs c"
| "perform E D (Update_owner i v obs c) = update_owner E D i v obs c"
| "perform E D (Update_due i v obs c) = update_due E D i v obs c"
| "perform E D (Update_waiting_on i v obs) = update_waiting_on E D i v obs"
| "perform E D (Update_next_action i v obs) = update_next_action E D i v obs"

section \<open>Applying a proposal\<close>

text \<open>
  What an applied proposal does to the documents: creations are of new paths, updates find the
  expected hash, and no two documents have the same type and identifier afterwards.
\<close>

definition document_key :: "payload \<Rightarrow> string \<times> string" where
  "document_key p =
     (case p of
        Entity_doc e b \<Rightarrow> (ent_type e, ent_id e)
      | Task_doc t b \<Rightarrow> (''task'', ent_id t)
      | Claim_doc c b \<Rightarrow> (''claim'', claim_id c)
      | Observation_doc x b \<Rightarrow> (''observation'', obs_id x)
      | Artifact_doc m \<Rightarrow> (''artifact'', art_id m)
      | Topics_doc r \<Rightarrow> (''topics'', [])
      | Checkpoint_doc k \<Rightarrow> (''checkpoint'', chk_id k))"

fun install_operation :: "(payload \<Rightarrow> string) \<Rightarrow> operation \<Rightarrow> stored list \<Rightarrow> stored list option" where
  "install_operation H (Create path p) D =
     (if path \<in> st_path ` set D then None else Some (D @ [\<lparr>st_path = path, st_payload = p, st_hash = H p\<rparr>]))"
| "install_operation H (Update path p h) D =
     (if List.find (\<lambda>x. st_path x = path \<and> st_hash x = h) D = None then None
      else Some (map (\<lambda>x. if st_path x = path then x\<lparr>st_payload := p, st_hash := H p\<rparr> else x) D))"
| "install_operation H (Move source destination h) D =
     (if List.find (\<lambda>x. st_path x = source \<and> st_hash x = h) D = None \<or> destination \<in> st_path ` set D then None
      else Some (map (\<lambda>x. if st_path x = source then x\<lparr>st_path := destination\<rparr> else x) D))"
| "install_operation H (Delete_generated path h) D = Some (filter (\<lambda>x. st_path x \<noteq> path) D)"

fun install_operations :: "(payload \<Rightarrow> string) \<Rightarrow> operation list \<Rightarrow> stored list \<Rightarrow> stored list option" where
  "install_operations H [] D = Some D"
| "install_operations H (op # ops) D =
     (case install_operation H op D of None \<Rightarrow> None | Some D' \<Rightarrow> install_operations H ops D')"

definition commit :: "(payload \<Rightarrow> string) \<Rightarrow> operation list \<Rightarrow> stored list \<Rightarrow> stored list option" where
  "commit H ops D =
     (case install_operations H ops D of
        None \<Rightarrow> None
      | Some D' \<Rightarrow> if distinct (map (\<lambda>x. document_key (st_payload x)) D') then Some D' else None)"

definition execute :: "(payload \<Rightarrow> string) \<Rightarrow> stored list \<Rightarrow> task_env \<times> command \<Rightarrow> stored list" where
  "execute H D = (\<lambda>(E, c).
     case perform E D c of
       Inl e \<Rightarrow> D
     | Inr (ids, p) \<Rightarrow> (case commit H (prop_operations p) D of None \<Rightarrow> D | Some D' \<Rightarrow> D'))"

definition run_commands :: "(payload \<Rightarrow> string) \<Rightarrow> stored list \<Rightarrow> (task_env \<times> command) list \<Rightarrow> stored list" where
  "run_commands H D cs = foldl (execute H) D cs"

end
