(* ===== verification/TaskLaws.thy ===== *)
theory TaskLaws
  imports Tasks DocumentLaws
begin

text \<open>
  What the task service keeps of the documents: the current claims tell the fields of every task, the
  superseded ones form a linked history, and nothing recorded is lost.
\<close>

section \<open>The invariant\<close>

definition tracked_predicates :: "string list" where
  "tracked_predicates = [''status'', ''owner'', ''due'']"

definition recorded :: "task \<Rightarrow> string \<Rightarrow> string" where
  "recorded t q =
     (if q = ''status'' then json_string (status_value (task_status t))
      else if q = ''owner'' then json_optional (task_owner t)
      else json_optional (map_option json_datetime (task_due_at t)))"

definition current_on :: "claim list \<Rightarrow> string \<Rightarrow> string \<Rightarrow> claim list" where
  "current_on cs uri q =
     filter (\<lambda>c. claim_subject c = uri \<and> claim_status c = Current \<and> claim_predicate c = q) cs"

text \<open>At most one current claim about a field; it has the field's value, and without one it is unset.\<close>

definition tells :: "claim list \<Rightarrow> task \<Rightarrow> string \<Rightarrow> bool" where
  "tells cs t q \<longleftrightarrow>
     (case current_on cs (ent_uri t) q of
        [] \<Rightarrow> recorded t q = ''null'' | [c] \<Rightarrow> claim_object c = recorded t q | _ \<Rightarrow> False)"

text \<open>Supersession links both ways between claims about the same field.\<close>

definition linked :: "claim list \<Rightarrow> claim \<Rightarrow> bool" where
  "linked cs c \<longleftrightarrow>
     (claim_status c = Current \<longrightarrow> claim_superseded_by c = None)
     \<and> (\<forall>i. claim_superseded_by c = Some i \<longrightarrow>
          (\<exists>d\<in>set cs. claim_id d = i \<and> claim_supersedes d = Some (claim_id c)
             \<and> claim_subject d = claim_subject c \<and> claim_predicate d = claim_predicate c))
     \<and> (\<forall>j. claim_supersedes c = Some j \<longrightarrow>
          (\<exists>d\<in>set cs. claim_id d = j \<and> claim_superseded_by d = Some (claim_id c)))"

definition about_known_task :: "(string \<Rightarrow> bool) \<Rightarrow> task list \<Rightarrow> claim \<Rightarrow> bool" where
  "about_known_task hostok ts c \<longleftrightarrow>
     (\<forall>u. parse_uri hostok (claim_subject c) = Some u \<and> uri_entity_type u = ''task'' \<longrightarrow>
        claim_subject c \<in> ent_uri ` set ts)"

definition consistent :: "(string \<Rightarrow> bool) \<Rightarrow> task list \<Rightarrow> claim list \<Rightarrow> bool" where
  "consistent hostok ts cs \<longleftrightarrow>
     (\<forall>t\<in>set ts. validate_task hostok t = Some t) \<and> (\<forall>c\<in>set cs. validate_claim hostok c = Some c)
     \<and> (\<forall>c\<in>set cs. about_known_task hostok ts c \<and> linked cs c)
     \<and> (\<forall>t\<in>set ts. \<forall>q\<in>set tracked_predicates. tells cs t q)
     \<and> validate_task_hierarchy hostok ts = Inr ()"

definition sound :: "(string \<Rightarrow> bool) \<Rightarrow> stored list \<Rightarrow> bool" where
  "sound hostok D \<longleftrightarrow>
     distinct (map st_path D) \<and> distinct (map (\<lambda>x. document_key (st_payload x)) D)
     \<and> consistent hostok (tasks_of D) (claims_of D)"

section \<open>Documents\<close>

lemma tasks_of_simps [simp]:
  "tasks_of [] = []" "tasks_of (D @ D') = tasks_of D @ tasks_of D'"
  "tasks_of (x # D) = (case st_payload x of Task_doc t b \<Rightarrow> [t] | _ \<Rightarrow> []) @ tasks_of D"
  by (auto simp: tasks_of_def task_rows_def split: payload.splits)

lemma claims_of_simps [simp]:
  "claims_of [] = []" "claims_of (D @ D') = claims_of D @ claims_of D'"
  "claims_of (x # D) = (case st_payload x of Claim_doc c b \<Rightarrow> [c] | _ \<Rightarrow> []) @ claims_of D"
  by (auto simp: claims_of_def claim_rows_def split: payload.splits)

lemma in_task_rows: "(x, t, b) \<in> set (task_rows D) \<longleftrightarrow> x \<in> set D \<and> st_payload x = Task_doc t b"
  by (auto simp: task_rows_def split: payload.splits)

lemma in_claim_rows: "(x, c, b) \<in> set (claim_rows D) \<longleftrightarrow> x \<in> set D \<and> st_payload x = Claim_doc c b"
  by (auto simp: claim_rows_def split: payload.splits)

lemma in_tasks_of: "t \<in> set (tasks_of D) \<longleftrightarrow> (\<exists>x\<in>set D. \<exists>b. st_payload x = Task_doc t b)"
proof -
  have "t \<in> set (tasks_of D) \<longleftrightarrow> (\<exists>x b. (x, t, b) \<in> set (task_rows D))" by (force simp: tasks_of_def)
  then show ?thesis by (auto simp: in_task_rows)
qed

lemma in_claims_of: "c \<in> set (claims_of D) \<longleftrightarrow> (\<exists>x\<in>set D. \<exists>b. st_payload x = Claim_doc c b)"
proof -
  have "c \<in> set (claims_of D) \<longleftrightarrow> (\<exists>x b. (x, c, b) \<in> set (claim_rows D))" by (force simp: claims_of_def)
  then show ?thesis by (auto simp: in_claim_rows)
qed

lemma keys_distinct:
  assumes "distinct (map (\<lambda>x. document_key (st_payload x)) D)"
  shows "distinct (map ent_id (tasks_of D))" "distinct (map claim_id (claims_of D))"
  using assms
proof (induction D)
  case (Cons x D)
  { case 1
    have "ent_id t \<notin> ent_id ` set (tasks_of D)" if "st_payload x = Task_doc t b" for t b
      using 1 that by (force simp: in_tasks_of document_key_def)
    then show ?case using 1 Cons(1) by (auto split: payload.splits)
  next
    case 2
    have "claim_id c \<notin> claim_id ` set (claims_of D)" if "st_payload x = Claim_doc c b" for c b
      using 2 that by (force simp: in_claims_of document_key_def)
    then show ?case using 2 Cons(2) by (auto split: payload.splits)
  }
qed simp_all

text \<open>Replacing the document at a path.\<close>

definition put :: "string \<Rightarrow> payload \<Rightarrow> string \<Rightarrow> stored list \<Rightarrow> stored list" where
  "put path p h D = map (\<lambda>x. if st_path x = path then x\<lparr>st_payload := p, st_hash := h\<rparr> else x) D"

lemma put_paths [simp]: "map st_path (put path p h D) = map st_path D"
  by (simp add: put_def)

lemma put_other: "path \<notin> st_path ` set D \<Longrightarrow> put path p h D = D"
  by (induction D) (auto simp: put_def)

lemma put_Cons: "put path p h (x # D) =
    (if st_path x = path then x\<lparr>st_payload := p, st_hash := h\<rparr> else x) # put path p h D"
  by (simp add: put_def)

lemma put_task:
  assumes "distinct (map st_path D)" "distinct (map ent_id (tasks_of D))"
    "x \<in> set D" "st_payload x = Task_doc t b" "ent_id t' = ent_id t"
  shows "tasks_of (put (st_path x) (Task_doc t' b') h D) = map (\<lambda>u. if ent_id u = ent_id t then t' else u) (tasks_of D)
    \<and> claims_of (put (st_path x) (Task_doc t' b') h D) = claims_of D"
  using assms
proof (induction D)
  case (Cons y D)
  have out: "st_path x \<notin> st_path ` set D" if "y = x" using Cons.prems(1) that by auto
  have free: "map (\<lambda>u. if ent_id u = ent_id t then t' else u) (tasks_of D) = tasks_of D" if "y = x"
    using Cons.prems(2,4) that by (intro map_idI) (auto simp: image_iff)
  have differ: "st_path y \<noteq> st_path x" "st_payload y = Task_doc u c \<Longrightarrow> ent_id u \<noteq> ent_id t" if "y \<noteq> x" for u c
    using Cons.prems that by (force simp: in_tasks_of)+
  show ?case
    using Cons out free differ by (cases "y = x") (auto simp: put_Cons put_other split: payload.splits)
qed simp

lemma put_claim:
  assumes "distinct (map st_path D)" "distinct (map claim_id (claims_of D))"
    "x \<in> set D" "st_payload x = Claim_doc c b" "claim_id c' = claim_id c"
  shows "claims_of (put (st_path x) (Claim_doc c' b') h D) = map (\<lambda>u. if claim_id u = claim_id c then c' else u) (claims_of D)
    \<and> tasks_of (put (st_path x) (Claim_doc c' b') h D) = tasks_of D"
  using assms
proof (induction D)
  case (Cons y D)
  have out: "st_path x \<notin> st_path ` set D" if "y = x" using Cons.prems(1) that by auto
  have free: "map (\<lambda>u. if claim_id u = claim_id c then c' else u) (claims_of D) = claims_of D" if "y = x"
    using Cons.prems(2,4) that by (intro map_idI) (auto simp: image_iff)
  have differ: "st_path y \<noteq> st_path x" "st_payload y = Claim_doc u d \<Longrightarrow> claim_id u \<noteq> claim_id c" if "y \<noteq> x" for u d
    using Cons.prems that by (force simp: in_claims_of)+
  show ?case
    using Cons out free differ by (cases "y = x") (auto simp: put_Cons put_other split: payload.splits)
qed simp

section \<open>Validators\<close>

lemma validate_task_stable:
  assumes "validate_task hostok t = Some t'" "\<forall>x. kebab x \<longrightarrow> hostok x"
  shows "validate_task hostok t' = Some t'" "ent_id t' = ent_id t"
    "validate_task hostok t = Some t \<Longrightarrow> t' = t"
proof -
  have e: "validate_entity hostok t = Some t'" "task_fields_ok t" "consistent_hierarchy t'"
    using assms(1) by (auto simp: validate_task_def split: if_splits option.splits)
  have t': "t' = t\<lparr>ent_uri := ent_uri t'\<rparr>"
    using e(1) by (auto simp: validate_entity_def Let_def split: if_splits option.splits)
  have "task_fields_ok (t\<lparr>ent_uri := u\<rparr>) = task_fields_ok t" for u by (simp add: task_fields_ok_def)
  then have "task_fields_ok t'" using e(2) t' by metis
  then show "validate_task hostok t' = Some t'"
    using e(3) validate_entity_stored [OF e(1)] assms(2) by (simp add: validate_task_def)
  show "ent_id t' = ent_id t" by (subst t') simp
  show "t' = t" if "validate_task hostok t = Some t" using that assms(1) by simp
qed

lemma validate_claim_stable:
  assumes "validate_claim hostok c = Some c'" "\<forall>x. kebab x \<longrightarrow> hostok x"
  shows "validate_claim hostok c' = Some c'" "c' = c\<lparr>claim_observations := claim_observations c'\<rparr>"
proof -
  obtain u os where u: "validate_entity_uri hostok (claim_subject c) = Some u"
    "those_map (canonical_observation hostok) (claim_observations c) = Some os" "distinct os"
    "c' = c\<lparr>claim_subject := print_uri u, claim_observations := os\<rparr>"
    "family_ok Claim_id (claim_id c)" "claim_predicate c \<noteq> []" "opt_claim_id_ok (claim_supersedes c)"
    "opt_claim_id_ok (claim_superseded_by c)" "claim_observations c \<noteq> []"
    using assms(1) by (auto simp: validate_claim_def split: if_splits option.splits)
  have s: "print_uri u = claim_subject c"
    using u(1) by (auto simp: validate_entity_uri_def split: option.splits if_splits)
  show "c' = c\<lparr>claim_observations := claim_observations c'\<rparr>" using s u(4) by simp
  have canon: "canonical_observation hostok y = Some y" if "canonical_observation hostok x = Some y" for x y
  proof -
    obtain v where v: "parse_uri hostok x = Some v" "uri_entity_type v = ''observation''"
      "family_ok Observation_id (uri_entity_id v)" "y = print_uri v"
      using \<open>canonical_observation hostok x = Some y\<close> by (auto simp: canonical_observation_def split: option.splits if_splits)
    have "parse_uri hostok (print_uri v) = Some v"
      using parse_print_uri [of v hostok] parse_uri_valid [OF v(1)] assms(2) by (simp add: valid_uri_def)
    then show ?thesis using v by (simp add: canonical_observation_def)
  qed
  have "those_map (canonical_observation hostok) os = Some os" if "those_map (canonical_observation hostok) xs = Some os" for xs
    using that canon by (induction xs arbitrary: os) (auto split: option.splits)
  then have "those_map (canonical_observation hostok) os = Some os" using u(2) by blast
  moreover have "os \<noteq> []" using u(2,9) by (cases "claim_observations c") (auto split: option.splits)
  ultimately show "validate_claim hostok c' = Some c'"
    using u s by (simp add: validate_claim_def)
qed

text \<open>The URI of a stored task.\<close>

lemma task_uri:
  assumes "validate_task hostok t = Some t"
  obtains u where "parse_uri hostok (ent_uri t) = Some u" "uri_entity_type u = ''task''" "uri_entity_id u = ent_id t"
proof -
  have e: "validate_entity hostok t = Some t" "ent_type t = ''task''"
    using assms by (auto simp: validate_task_def task_fields_ok_def split: if_splits option.splits)
  obtain u v where u: "parse_uri hostok (ent_uri t) = Some u" "t\<lparr>ent_uri := print_uri u\<rparr> = t"
    "parse_uri hostok (print_uri u) = Some v" "uri_entity_type v = ent_type t" "uri_entity_id v = ent_id t"
    using e(1) by (auto simp: validate_entity_def Let_def split: if_splits option.splits)
  have "print_uri u = ent_uri t" using arg_cong [OF u(2), of ent_uri] by simp
  then show thesis using that u e(2) by auto
qed

lemma task_uri_id:
  assumes "validate_task hostok t = Some t" "validate_task hostok u = Some u" "ent_uri t = ent_uri u"
  shows "ent_id t = ent_id u"
  using task_uri [OF assms(1)] task_uri [OF assms(2)] assms(3) by (metis option.inject)

section \<open>One change of a task\<close>

lemma tells_iff:
  "tells cs t q \<longleftrightarrow>
     (current_on cs (ent_uri t) q = [] \<and> recorded t q = ''null'')
     \<or> (\<exists>c. current_on cs (ent_uri t) q = [c] \<and> claim_object c = recorded t q)"
  by (auto simp: tells_def split: list.splits)

lemma tells_cong:
  "current_on cs' (ent_uri t') q = current_on cs (ent_uri t) q \<Longrightarrow> recorded t' q = recorded t q \<Longrightarrow>
   tells cs' t' q \<longleftrightarrow> tells cs t q"
  by (simp add: tells_iff)

lemma current_on_append: "current_on (cs @ ds) uri q = current_on cs uri q @ current_on ds uri q"
  by (simp add: current_on_def)

lemma current_on_unchanged:
  assumes "\<And>c. c \<in> set cs \<Longrightarrow> f c = c \<or> current_on [c] uri q = [] \<and> current_on [f c] uri q = []"
  shows "current_on (map f cs) uri q = current_on cs uri q"
  using assms
proof (induction cs)
  case (Cons c cs)
  have "current_on [f c] uri q = current_on [c] uri q" using Cons.prems [of c] by auto
  moreover have "current_on (map f cs) uri q = current_on cs uri q" using Cons by simp
  ultimately show ?case
    using current_on_append [of "[f c]" "map f cs"] current_on_append [of "[c]" cs] by simp
qed simp

lemma linked_step:
  assumes "linked cs c" "f c = c"
    and f: "\<And>d. claim_id (f d) = claim_id d \<and> claim_supersedes (f d) = claim_supersedes d
      \<and> claim_subject (f d) = claim_subject d \<and> claim_predicate (f d) = claim_predicate d"
    and kept: "\<And>d. d \<in> set cs \<Longrightarrow> claim_superseded_by d \<noteq> None \<Longrightarrow> f d = d"
  shows "linked (map f cs @ ds) c"
proof -
  have "\<exists>d\<in>set (map f cs @ ds). claim_id d = i \<and> claim_supersedes d = Some (claim_id c)
      \<and> claim_subject d = claim_subject c \<and> claim_predicate d = claim_predicate c"
    if "claim_superseded_by c = Some i" for i
    using assms(1) that f by (force simp: linked_def)
  moreover have "\<exists>d\<in>set (map f cs @ ds). claim_id d = j \<and> claim_superseded_by d = Some (claim_id c)"
    if "claim_supersedes c = Some j" for j
  proof -
    obtain d where d: "d \<in> set cs" "claim_id d = j" "claim_superseded_by d = Some (claim_id c)"
      using assms(1) \<open>claim_supersedes c = Some j\<close> by (auto simp: linked_def)
    then have "f d = d" using kept by simp
    then show ?thesis using d by (metis in_set_conv_decomp list.simps(9) map_append set_append UnI1 image_eqI set_map)
  qed
  ultimately show ?thesis using assms(1) by (auto simp: linked_def)
qed

definition replace_task :: "task \<Rightarrow> task \<Rightarrow> task" where
  "replace_task t' u = (if ent_id u = ent_id t' then t' else u)"

definition supersede_by :: "claim option \<Rightarrow> string \<Rightarrow> claim \<Rightarrow> claim" where
  "supersede_by old i d =
     (if map_option claim_id old = Some (claim_id d)
      then d\<lparr>claim_status := Superseded, claim_superseded_by := Some i\<rparr> else d)"

lemma supersede_by_simps [simp]:
  "claim_id (supersede_by old i d) = claim_id d" "claim_supersedes (supersede_by old i d) = claim_supersedes d"
  "claim_subject (supersede_by old i d) = claim_subject d" "claim_predicate (supersede_by old i d) = claim_predicate d"
  by (simp_all add: supersede_by_def)

lemma replaced_uris:
  assumes "t \<in> set ts" "ent_id t' = ent_id t" "ent_uri t' = ent_uri t" "distinct (map ent_id ts)"
  shows "ent_uri ` set (map (replace_task t') ts) = ent_uri ` set ts"
proof -
  have "ent_uri (replace_task t' u) = ent_uri u" if "u \<in> set ts" for u
    using assms distinct_map_inj [OF assms(4) that assms(1)] by (auto simp: replace_task_def)
  then show ?thesis by (force simp: image_image)
qed

text \<open>The new claim about a field takes the place of the current one, if there is one.\<close>

definition succeeds :: "claim list \<Rightarrow> string \<Rightarrow> string \<Rightarrow> claim option \<Rightarrow> claim \<Rightarrow> bool" where
  "succeeds cs uri q old new \<longleftrightarrow>
     distinct (map claim_id cs) \<and> current_on cs uri q = (case old of None \<Rightarrow> [] | Some c \<Rightarrow> [c])
     \<and> claim_subject new = uri \<and> claim_predicate new = q \<and> claim_status new = Current
     \<and> claim_superseded_by new = None \<and> claim_supersedes new = map_option claim_id old"

lemma succeeds_old:
  assumes "succeeds cs uri q old new" "old = Some c"
  shows "c \<in> set cs" "claim_subject c = uri" "claim_status c = Current" "claim_predicate c = q"
proof -
  have "c \<in> set (current_on cs uri q)" using assms by (simp add: succeeds_def)
  then show "c \<in> set cs" "claim_subject c = uri" "claim_status c = Current" "claim_predicate c = q"
    by (auto simp: current_on_def)
qed

lemma supersede_only:
  assumes "succeeds cs uri q old new" "d \<in> set cs"
  shows "supersede_by old i d = d \<or> old = Some d"
proof (cases old)
  case (Some c)
  have "distinct (map claim_id cs)" using assms(1) by (simp add: succeeds_def)
  then show ?thesis
    using distinct_map_inj [OF _ succeeds_old(1) [OF assms(1) Some] assms(2)] Some
    by (auto simp: supersede_by_def)
qed (simp add: supersede_by_def)

lemma supersede_kept:
  assumes "succeeds cs uri q old new" "d \<in> set cs" "linked cs d" "claim_superseded_by d \<noteq> None"
  shows "supersede_by old i d = d"
  using supersede_only [OF assms(1,2)] succeeds_old(3) [OF assms(1)] assms(3,4) by (auto simp: linked_def)

lemma succession_linked:
  assumes s: "succeeds cs uri q old new" and l: "\<forall>d\<in>set cs. linked cs d"
    and c: "c \<in> set (map (supersede_by old (claim_id new)) cs @ [new])"
  shows "linked (map (supersede_by old (claim_id new)) cs @ [new]) c"
proof -
  let ?f = "supersede_by old (claim_id new)"
  have link: "\<exists>d\<in>set (map ?f cs @ [new]). claim_id d = j \<and> claim_superseded_by d = Some (claim_id b)"
    if b: "b \<in> set cs" "claim_supersedes b = Some j" for b j
  proof -
    have "linked cs b" using l b(1) by blast
    then obtain d where d: "d \<in> set cs" "claim_id d = j" "claim_superseded_by d = Some (claim_id b)"
      using b(2) unfolding linked_def by blast
    then have "?f d = d" using supersede_kept [OF s] l by simp
    then show ?thesis using d by (metis UnI1 image_eqI set_append set_map)
  qed
  from c consider "c = new" | b where "b \<in> set cs" "c = ?f b" "?f b = b" | b where "old = Some b" "c = ?f b"
  proof (cases "c = new")
    case False
    then obtain b where b: "b \<in> set cs" "c = ?f b" using c by auto
    then show thesis using that supersede_only [OF s b(1), of "claim_id new"] by metis
  qed
  then show ?thesis
  proof cases
    case 1
    have "\<exists>d\<in>set (map ?f cs @ [new]). claim_id d = j \<and> claim_superseded_by d = Some (claim_id new)"
      if j: "claim_supersedes new = Some j" for j
    proof -
      obtain a where a: "old = Some a" "claim_id a = j" using j s by (cases old) (auto simp: succeeds_def)
      then have "?f a \<in> set (map ?f cs @ [new])" using succeeds_old(1) [OF s] by simp
      moreover have "claim_superseded_by (?f a) = Some (claim_id new)" using a by (simp add: supersede_by_def)
      ultimately show ?thesis using a(2) by (metis supersede_by_simps(1))
    qed
    then show ?thesis using 1 s by (simp add: linked_def succeeds_def)
  next
    case 2
    then show ?thesis using linked_step [of cs b ?f "[new]"] supersede_kept [OF s] l by simp
  next
    case 3
    have "?f b = b\<lparr>claim_status := Superseded, claim_superseded_by := Some (claim_id new)\<rparr>"
      using 3 by (simp add: supersede_by_def)
    then show ?thesis
      using 3 s succeeds_old [OF s 3(1)] link by (auto simp: linked_def succeeds_def)
  qed
qed

lemma succession_current:
  assumes s: "succeeds cs uri q old new"
  shows "current_on (map (supersede_by old (claim_id new)) cs @ [new]) u r
    = (if u = uri \<and> r = q then [new] else current_on cs u r)"
proof (cases "u = uri \<and> r = q")
  case True
  have "current_on (map (supersede_by old (claim_id new)) cs) uri q = []"
  proof -
    let ?f = "supersede_by old (claim_id new)"
    have "\<not> (claim_subject (?f d) = uri \<and> claim_status (?f d) = Current \<and> claim_predicate (?f d) = q)"
      if d: "d \<in> set cs" for d
    proof
      assume m: "claim_subject (?f d) = uri \<and> claim_status (?f d) = Current \<and> claim_predicate (?f d) = q"
      then have other: "map_option claim_id old \<noteq> Some (claim_id d)" by (auto simp: supersede_by_def)
      have "?f d = d" using other by (simp only: supersede_by_def if_False)
      then have "d \<in> set (current_on cs uri q)" using m d by (simp add: current_on_def)
      then have "old = Some d" using s by (auto simp: succeeds_def split: option.splits)
      then show False using other by simp
    qed
    then show ?thesis by (simp add: current_on_def filter_empty_conv)
  qed
  then show ?thesis using True s by (simp add: current_on_append) (simp add: current_on_def succeeds_def)
next
  case False
  have "current_on (map (supersede_by old (claim_id new)) cs) u r = current_on cs u r"
  proof (rule current_on_unchanged)
    fix c assume "c \<in> set cs"
    from supersede_only [OF s this, of "claim_id new"]
    show "supersede_by old (claim_id new) c = c
      \<or> current_on [c] u r = [] \<and> current_on [supersede_by old (claim_id new) c] u r = []"
      using succeeds_old [OF s] False by (auto simp: current_on_def)
  qed
  moreover have "current_on [new] u r = []" using s False by (auto simp: current_on_def succeeds_def)
  ultimately show ?thesis using False by (simp only: current_on_append) simp
qed

lemma claimed_change:
  assumes con: "consistent hostok ts cs" and ids: "distinct (map ent_id ts)"
    and t: "t \<in> set ts" "validate_task hostok t' = Some t'" "ent_id t' = ent_id t" "ent_uri t' = ent_uri t"
    and q: "\<And>r. r \<in> set tracked_predicates \<Longrightarrow> r \<noteq> q \<Longrightarrow> recorded t' r = recorded t r"
    and s: "succeeds cs (ent_uri t) q old new" "validate_claim hostok new = Some new" "claim_object new = recorded t' q"
    and sup: "\<And>c. old = Some c \<Longrightarrow> validate_claim hostok (supersede_by old (claim_id new) c) = Some (supersede_by old (claim_id new) c)"
    and hier: "validate_task_hierarchy hostok (map (replace_task t') ts) = Inr ()"
  shows "consistent hostok (map (replace_task t') ts) (map (supersede_by old (claim_id new)) cs @ [new])"
proof -
  let ?cs = "map (supersede_by old (claim_id new)) cs @ [new]"
  have parts: "\<forall>u\<in>set ts. validate_task hostok u = Some u" "\<forall>c\<in>set cs. validate_claim hostok c = Some c"
    "\<forall>c\<in>set cs. about_known_task hostok ts c" "\<forall>c\<in>set cs. linked cs c"
    "\<forall>u\<in>set ts. \<forall>r\<in>set tracked_predicates. tells cs u r"
    using con by (auto simp: consistent_def)
  have uris: "ent_uri ` set (map (replace_task t') ts) = ent_uri ` set ts"
    using replaced_uris [OF t(1,3,4) ids] .
  have "about_known_task hostok (map (replace_task t') ts) c" if "c \<in> set ?cs" for c
    using that parts(3) s(1) t(1) unfolding about_known_task_def uris by (auto simp: succeeds_def)
  moreover have "validate_claim hostok c = Some c" if "c \<in> set ?cs" for c
    using that parts(2) s(2) sup supersede_only [OF s(1), of _ "claim_id new"] by force
  moreover have "tells ?cs (replace_task t' v) r" if v: "v \<in> set ts" and r: "r \<in> set tracked_predicates" for v r
  proof (cases "v = t")
    case True
    then have v': "replace_task t' v = t'" using t(3) by (simp add: replace_task_def)
    show ?thesis
    proof (cases "r = q")
      case True
      then show ?thesis
        unfolding v' using succession_current [OF s(1), of "ent_uri t" q] s(3) t(4) by (simp add: tells_def)
    next
      case False
      then have "tells ?cs t' r \<longleftrightarrow> tells cs t r"
        using succession_current [OF s(1), of "ent_uri t" r] t(4) q [OF r False] by (intro tells_cong) simp_all
      then show ?thesis unfolding v' using parts(5) t(1) r by simp
    qed
  next
    case False
    then have "ent_id v \<noteq> ent_id t" using distinct_map_inj [OF ids v t(1)] by auto
    moreover have "ent_uri v \<noteq> ent_uri t" using task_uri_id parts(1) v t(1) calculation by metis
    ultimately show ?thesis
      using succession_current [OF s(1), of "ent_uri v" r] parts(5) v r t(3) tells_cong [of ?cs v r cs v]
      by (simp add: replace_task_def)
  qed
  moreover have "validate_task hostok u = Some u" if "u \<in> set (map (replace_task t') ts)" for u
    using that t(2) parts(1) by (auto simp: replace_task_def)
  ultimately show ?thesis
    unfolding consistent_def using hier succession_linked [OF s(1) parts(4)] by auto
qed

section \<open>A new task\<close>

lemma current_on_specs:
  assumes "map (\<lambda>c. (claim_predicate c, claim_object c)) ks = claim_specs t"
    and "\<forall>c\<in>set ks. claim_subject c = ent_uri t \<and> claim_status c = Current"
    and "q \<in> set tracked_predicates"
  shows "(current_on ks (ent_uri t) q = [] \<and> recorded t q = ''null'')
     \<or> (\<exists>c. current_on ks (ent_uri t) q = [c] \<and> claim_object c = recorded t q)"
proof -
  have "current_on ks (ent_uri t) q = filter (\<lambda>c. claim_predicate c = q) ks"
    using assms(2) unfolding current_on_def by (intro filter_cong) auto
  then show ?thesis
    using assms(1,3)
    by (cases "task_owner t"; cases "task_due_at t")
      (auto simp: claim_specs_def tracked_predicates_def recorded_def json_optional_def map_eq_Cons_conv)
qed

lemma new_task:
  assumes con: "consistent hostok ts cs"
    and t: "validate_task hostok t = Some t" "ent_id t \<notin> ent_id ` set ts"
    and ks: "map (\<lambda>c. (claim_predicate c, claim_object c)) ks = claim_specs t"
      "\<forall>c\<in>set ks. claim_subject c = ent_uri t \<and> claim_status c = Current \<and> claim_supersedes c = None
        \<and> claim_superseded_by c = None \<and> validate_claim hostok c = Some c"
    and hier: "validate_task_hierarchy hostok (ts @ [t]) = Inr ()"
  shows "consistent hostok (ts @ [t]) (cs @ ks)"
proof -
  have parts: "\<forall>u\<in>set ts. validate_task hostok u = Some u" "\<forall>c\<in>set cs. validate_claim hostok c = Some c"
    "\<forall>c\<in>set cs. about_known_task hostok ts c" "\<forall>c\<in>set cs. linked cs c"
    "\<forall>u\<in>set ts. \<forall>r\<in>set tracked_predicates. tells cs u r"
    using con by (auto simp: consistent_def)
  have fresh: "ent_uri t \<notin> ent_uri ` set ts" 
  proof
    assume "ent_uri t \<in> ent_uri ` set ts"
    then obtain u where u: "u \<in> set ts" "ent_uri t = ent_uri u" by auto
    then have "ent_id t = ent_id u" using task_uri_id [OF t(1)] parts(1) by blast
    then show False using t(2) u(1) by auto
  qed
  have unclaimed: "claim_subject c \<noteq> ent_uri t" if "c \<in> set cs" for c
  proof
    assume s: "claim_subject c = ent_uri t"
    obtain u where "parse_uri hostok (ent_uri t) = Some u" "uri_entity_type u = ''task''"
      by (rule task_uri [OF t(1)])
    moreover have "about_known_task hostok ts c" using parts(3) that by blast
    ultimately show False using s fresh unfolding about_known_task_def by simp
  qed
  have "linked (cs @ ks) c" if "c \<in> set (cs @ ks)" for c
  proof (cases "c \<in> set cs")
    case True
    then show ?thesis using parts(4) linked_step [of cs c "\<lambda>d. d" ks] by simp
  next
    case False
    then show ?thesis using that ks(2) by (simp add: linked_def)
  qed
  moreover have "about_known_task hostok (ts @ [t]) c" if "c \<in> set (cs @ ks)" for c
    using that ks(2) parts(3) by (auto simp: about_known_task_def)
  moreover have "tells (cs @ ks) u q" if u: "u \<in> set ts" and q: "q \<in> set tracked_predicates" for u q
  proof -
    have "current_on ks (ent_uri u) q = []"
      using ks(2) fresh u by (auto simp: current_on_def filter_empty_conv)
    then show ?thesis using parts(5) u q tells_cong [of "cs @ ks" u q cs u] by (simp add: current_on_append)
  qed
  moreover have "tells (cs @ ks) t q" if q: "q \<in> set tracked_predicates" for q
  proof -
    have "current_on cs (ent_uri t) q = []" using unclaimed by (auto simp: current_on_def filter_empty_conv)
    then show ?thesis
      using current_on_specs [OF ks(1) _ q] ks(2) by (simp add: tells_iff current_on_append)
  qed
  ultimately show ?thesis unfolding consistent_def using hier parts(1,2) t(1) ks(2) by auto
qed

lemma unclaimed_change:
  assumes con: "consistent hostok ts cs" and ids: "distinct (map ent_id ts)"
    and t: "t \<in> set ts" "validate_task hostok t' = Some t'" "ent_id t' = ent_id t" "ent_uri t' = ent_uri t"
    and q: "\<And>r. r \<in> set tracked_predicates \<Longrightarrow> recorded t' r = recorded t r"
    and hier: "validate_task_hierarchy hostok (map (replace_task t') ts) = Inr ()"
  shows "consistent hostok (map (replace_task t') ts) cs"
proof -
  have r: "replace_task t' u = (if u = t then t' else u)" if "u \<in> set ts" for u
    using t(3) distinct_map_inj [OF ids that t(1)] by (auto simp: replace_task_def)
  have "tells cs (replace_task t' u) q" if "u \<in> set ts" "q \<in> set tracked_predicates" for u q
  proof -
    have "tells cs u q" using con that by (simp add: consistent_def)
    then show ?thesis using r [OF that(1)] tells_cong [of cs t' q cs t] t(4) q [OF that(2)] by (cases "u = t") auto
  qed
  then have "\<forall>u\<in>set (map (replace_task t') ts). \<forall>q\<in>set tracked_predicates. tells cs u q" by auto
  moreover have "\<forall>u\<in>set (map (replace_task t') ts). validate_task hostok u = Some u"
    using t(2) con by (auto simp: replace_task_def consistent_def)
  moreover have "\<forall>c\<in>set cs. about_known_task hostok (map (replace_task t') ts) c \<and> linked cs c"
    using con unfolding about_known_task_def replaced_uris [OF t(1,3,4) ids] by (simp add: consistent_def about_known_task_def)
  ultimately show ?thesis using con hier by (simp add: consistent_def)
qed

section \<open>The operations of the service\<close>

text \<open>Validating what was valid before changes nothing else than what the caller changed.\<close>

lemma validate_task_same_uri:
  assumes "validate_task hostok s = Some s'" "validate_task hostok t = Some t" "ent_uri s = ent_uri t"
  shows "s' = s"
proof -
  have e: "validate_entity hostok s = Some s'" "validate_entity hostok t = Some t"
    using assms(1,2) by (auto simp: validate_task_def split: if_splits option.splits)
  obtain u where u: "parse_uri hostok (ent_uri t) = Some u" "t\<lparr>ent_uri := print_uri u\<rparr> = t"
    using e(2) by (auto simp: validate_entity_def Let_def split: if_splits option.splits)
  have "print_uri u = ent_uri s" using arg_cong [OF u(2), of ent_uri] assms(3) by simp
  moreover have "s' = s\<lparr>ent_uri := print_uri u\<rparr>"
    using e(1) u(1) assms(3) by (auto simp: validate_entity_def Let_def split: if_splits option.splits)
  ultimately show ?thesis by simp
qed

lemma validate_claim_same:
  assumes "validate_claim hostok b = Some b'" "validate_claim hostok c = Some c"
    and "claim_observations b = claim_observations c"
  shows "b' = b"
proof -
  obtain os where os: "those_map (canonical_observation hostok) (claim_observations c) = Some os"
    "\<exists>u. c\<lparr>claim_subject := u, claim_observations := os\<rparr> = c"
    using assms(2) by (auto simp: validate_claim_def split: if_splits option.splits)
  then have "os = claim_observations b"
    using assms(3) by (metis claim.select_convs(12) claim.surjective claim.update_convs(12))
  moreover obtain u where "validate_entity_uri hostok (claim_subject b) = Some u"
    "b' = b\<lparr>claim_subject := print_uri u, claim_observations := os\<rparr>"
    using assms(1,3) os(1) by (auto simp: validate_claim_def split: if_splits option.splits)
  ultimately show ?thesis by (auto simp: validate_entity_uri_def split: option.splits if_splits)
qed

fun stable_operation :: "(string \<Rightarrow> bool) \<Rightarrow> operation \<Rightarrow> bool" where
  "stable_operation hostok (Create t p) \<longleftrightarrow> validate_payload hostok p = Some p"
| "stable_operation hostok (Update t p h) \<longleftrightarrow> validate_payload hostok p = Some p"
| "stable_operation hostok op \<longleftrightarrow> True"

lemma those_map_same: "those_map f xs = Some ys \<Longrightarrow> \<forall>x\<in>set xs. \<forall>y. f x = Some y \<longrightarrow> y = x \<Longrightarrow> ys = xs"
  by (induction xs arbitrary: ys) (auto split: option.splits)

lemma task_proposal_operations:
  assumes "task_proposal E i a os ops now = Inr p" "\<forall>op\<in>set ops. stable_operation (te_hostok E) op"
  shows "prop_operations p = ops"
proof -
  obtain ops' where o: "those_map (validate_operation (te_nfc E) (te_ck E) (te_hostok E)) ops = Some ops'"
    "prop_operations p = ops'"
    using assms(1) by (auto simp: task_proposal_def validate_proposal_def Let_def split: option.splits if_splits)
  have "y = x" if "x \<in> set ops" "validate_operation (te_nfc E) (te_ck E) (te_hostok E) x = Some y" for x y
    using assms(2) that by (cases x) (auto split: if_splits)
  then show ?thesis using those_map_same [OF o(1)] o(2) by blast
qed

lemma install_update: "install_operation H (Update path p h) D = Some D' \<Longrightarrow> D' = put path p (H p) D"
  by (auto simp: put_def split: if_splits)

lemma install_creates:
  assumes "install_operations H (map (\<lambda>(c, b). claim_create c b) ks) D = Some D'" "distinct (map st_path D)"
  shows "tasks_of D' = tasks_of D \<and> claims_of D' = claims_of D @ map fst ks \<and> distinct (map st_path D')"
  using assms
proof (induction ks arbitrary: D)
  case (Cons k ks)
  obtain c b where k: "k = (c, b)" by (cases k)
  let ?x = "\<lparr>st_path = claim_path (claim_id c), st_payload = Claim_doc c b, st_hash = H (Claim_doc c b)\<rparr>"
  have "claim_path (claim_id c) \<notin> st_path ` set D" "install_operations H (map (\<lambda>(c, b). claim_create c b) ks) (D @ [?x]) = Some D'"
    using Cons.prems(1) k by (auto simp: claim_create_def split: option.splits if_splits)
  then show ?case using Cons.IH [of "D @ [?x]"] Cons.prems(2) k by simp
qed simp

definition retained :: "claim list \<Rightarrow> claim list \<Rightarrow> bool" where
  "retained cs cs' \<longleftrightarrow>
     (\<forall>c\<in>set cs. c \<in> set cs' \<or>
        (claim_status c = Current \<and>
         (\<exists>i. c\<lparr>claim_status := Superseded, claim_superseded_by := Some i\<rparr> \<in> set cs')))"

lemma retained_refl [simp]: "retained cs cs"
  by (simp add: retained_def)

lemma retained_trans:
  assumes "retained as bs" "retained bs cs"
  shows "retained as cs"
  unfolding retained_def
proof
  fix c assume "c \<in> set as"
  then consider "c \<in> set bs"
    | i where "claim_status c = Current" "c\<lparr>claim_status := Superseded, claim_superseded_by := Some i\<rparr> \<in> set bs"
    using assms(1) by (auto simp: retained_def)
  then show "c \<in> set cs \<or> (claim_status c = Current \<and>
      (\<exists>i. c\<lparr>claim_status := Superseded, claim_superseded_by := Some i\<rparr> \<in> set cs))"
  proof cases
    case 1
    then show ?thesis using assms(2) by (auto simp: retained_def)
  next
    case 2
    then show ?thesis using assms(2) unfolding retained_def by fastforce
  qed
qed

text \<open>What an operation found in the documents.\<close>

lemma task_document_Inr:
  assumes "task_document D i = Inr (x, t, b)"
  shows "x \<in> set D" "st_payload x = Task_doc t b" "ent_id t = i"
proof -
  have "List.find (\<lambda>(x, t, b). ent_id t = i) (task_rows D) = Some (x, t, b)"
    using assms by (auto simp: task_document_def split: option.splits)
  from find_Some_in [OF this] show "x \<in> set D" "st_payload x = Task_doc t b" "ent_id t = i"
    by (auto simp: in_task_rows)
qed

lemma current_claim_Inr:
  assumes "current_claim D uri q = Inr row"
  shows "current_on (claims_of D) uri q = (case row of None \<Rightarrow> [] | Some (x, c, b) \<Rightarrow> [c])"
    and "row = Some (x, c, b) \<Longrightarrow> x \<in> set D \<and> st_payload x = Claim_doc c b"
proof -
  let ?rows = "filter (\<lambda>(x, c, b). claim_subject c = uri \<and> claim_status c = Current \<and> claim_predicate c = q) (claim_rows D)"
  have "current_on (claims_of D) uri q = map (\<lambda>(x, c, b). c) ?rows"
    by (simp add: current_on_def claims_of_def filter_map comp_def case_prod_unfold)
  moreover have rows: "?rows = (case row of None \<Rightarrow> [] | Some r \<Rightarrow> [r])"
    using assms by (auto simp: current_claim_def split: list.splits)
  ultimately show "current_on (claims_of D) uri q = (case row of None \<Rightarrow> [] | Some (x, c, b) \<Rightarrow> [c])"
    by (auto split: option.splits)
  show "x \<in> set D \<and> st_payload x = Claim_doc c b" if "row = Some (x, c, b)"
  proof -
    have "(x, c, b) \<in> set ?rows" using rows that by simp
    then show ?thesis by (simp add: in_claim_rows)
  qed
qed

lemma new_claim_Inr:
  assumes "new_claim E i t q object now os supersedes = Inr c" "\<forall>x. kebab x \<longrightarrow> te_hostok E x"
  shows "validate_claim (te_hostok E) c = Some c" "claim_id c = i" "claim_subject c = ent_uri t" "claim_predicate c = q"
    "claim_object c = object" "claim_status c = Current" "claim_supersedes c = supersedes" "claim_superseded_by c = None"
proof -
  obtain raw where raw: "validate_claim (te_hostok E) raw = Some c"
    "claim_id raw = i" "claim_subject raw = ent_uri t" "claim_predicate raw = q" "claim_object raw = object"
    "claim_status raw = Current" "claim_supersedes raw = supersedes" "claim_superseded_by raw = None"
    using assms(1) by (auto simp: new_claim_def split: option.splits)
  note stable = validate_claim_stable [OF raw(1) assms(2)]
  show "validate_claim (te_hostok E) c = Some c" by (rule stable(1))
  show "claim_id c = i" "claim_subject c = ent_uri t" "claim_predicate c = q"
    "claim_object c = object" "claim_status c = Current" "claim_supersedes c = supersedes" "claim_superseded_by c = None"
    by (subst stable(2), simp add: raw)+
qed

text \<open>A change of one field leaves the identity and the other tracked fields alone.\<close>

definition changes_only :: "string set \<Rightarrow> change \<Rightarrow> bool" where
  "changes_only qs ch \<longleftrightarrow>
     (\<forall>t. ent_id (ch_set ch t) = ent_id t \<and> ent_uri (ch_set ch t) = ent_uri t
       \<and> (\<forall>r\<in>set tracked_predicates. r \<notin> qs \<longrightarrow> recorded (ch_set ch t) r = recorded t r))"

lemma updated_task_Inr:
  assumes "updated_task E t (ch_set ch) now os = Inr t'" "changes_only qs ch"
    and "validate_task (te_hostok E) t = Some t" "\<forall>x. kebab x \<longrightarrow> te_hostok E x"
  shows "validate_task (te_hostok E) t' = Some t'" "ent_id t' = ent_id t" "ent_uri t' = ent_uri t"
    "recorded t' r = recorded (ch_set ch t) r"
    "r \<in> set tracked_predicates \<Longrightarrow> r \<notin> qs \<Longrightarrow> recorded t' r = recorded t r"
proof -
  let ?s = "(ch_set ch t)\<lparr>ent_updated_at := now, task_observations := dedup_key id {} (task_observations t @ os)\<rparr>"
  have v: "validate_task (te_hostok E) ?s = Some t'"
    using assms(1) by (auto simp: updated_task_def split: option.splits)
  have t': "t' = ?s"
    using validate_task_same_uri [OF v assms(3)] assms(2) by (simp add: changes_only_def)
  show "validate_task (te_hostok E) t' = Some t'" using v t' by simp
  show "ent_id t' = ent_id t" "ent_uri t' = ent_uri t" using t' assms(2) by (simp_all add: changes_only_def)
  show r: "recorded t' r = recorded (ch_set ch t) r" unfolding t' by (simp add: recorded_def)
  show "recorded t' r = recorded t r" if "r \<in> set tracked_predicates" "r \<notin> qs"
    using r that assms(2) by (simp add: changes_only_def)
qed

lemma check_replacement_Inr:
  "check_replacement E D t' = Inr u \<Longrightarrow>
   validate_task_hierarchy (te_hostok E) (map (replace_task t') (tasks_of D)) = Inr ()"
  by (auto simp: check_replacement_def check_hierarchy_def replace_task_def [abs_def] split: if_splits sum.splits)

lemma commit_Some:
  assumes "commit H ops D = Some D'"
  shows "install_operations H ops D = Some D'" "distinct (map (\<lambda>x. document_key (st_payload x)) D')"
  using assms by (auto simp: commit_def split: option.splits if_splits)

lemma sound_parts:
  assumes "sound hostok D"
  shows "distinct (map st_path D)" "distinct (map ent_id (tasks_of D))" "distinct (map claim_id (claims_of D))"
    "consistent hostok (tasks_of D) (claims_of D)"
  using assms keys_distinct by (auto simp: sound_def)

lemma stored_task_valid:
  "consistent hostok (tasks_of D) cs \<Longrightarrow> x \<in> set D \<Longrightarrow> st_payload x = Task_doc t b \<Longrightarrow>
   t \<in> set (tasks_of D) \<and> validate_task hostok t = Some t"
  by (auto simp: consistent_def in_tasks_of)

lemma unclaimed_sound:
  assumes s: "sound (te_hostok E) D" and k: "\<forall>x. kebab x \<longrightarrow> te_hostok E x"
    and u: "update_unclaimed_fields E D i ch action evidence = Inr (ids, p)" "changes_only {} ch"
    and c: "commit H (prop_operations p) D = Some D'"
  shows "sound (te_hostok E) D' \<and> retained (claims_of D) (claims_of D')"
proof -
  obtain os x t b t' where found: "task_document D i = Inr (x, t, b)"
    and t': "updated_task E t (ch_set ch) (normalize_time (te_now E)) os = Inr t'"
    and h: "check_replacement E D t' = Inr ()"
    and p: "task_proposal E i action os [Update (st_path x) (Task_doc t' b) (st_hash x)] (normalize_time (te_now E)) = Inr p"
    using u(1) by (auto simp: update_unclaimed_fields_def Let_def result_simps split: sum.splits if_splits)
  note x = task_document_Inr [OF found] and d = sound_parts [OF s]
  note t = stored_task_valid [OF d(4) x(1,2)]
  note new = updated_task_Inr [OF t' u(2) conjunct2 [OF t] k]
  have "prop_operations p = [Update (st_path x) (Task_doc t' b) (st_hash x)]"
    using task_proposal_operations [OF p] new(1) by simp
  then have D': "D' = put (st_path x) (Task_doc t' b) (H (Task_doc t' b)) D"
    using commit_Some(1) [OF c] install_update by (auto split: option.splits)
  note docs = put_task [OF d(1,2) x(1,2) new(2), of b "H (Task_doc t' b)"]
  have "tasks_of D' = map (replace_task t') (tasks_of D)" "claims_of D' = claims_of D"
    using docs new(2) unfolding D' by (simp_all add: replace_task_def [abs_def])
  then show ?thesis
    using unclaimed_change [OF d(4,2) conjunct1 [OF t] new(1,2,3) new(5) check_replacement_Inr [OF h]]
      commit_Some(2) [OF c] d(1) by (simp add: sound_def D')
qed

text \<open>The update of the superseded claim.\<close>

lemma supersede_Inr:
  assumes "supersede E row i = Inr ops" and "\<And>x c b. row = Some (x, c, b) \<Longrightarrow> validate_claim (te_hostok E) c = Some c"
  shows "ops = (case row of None \<Rightarrow> [] | Some (y, c, b) \<Rightarrow>
      [Update (st_path y) (Claim_doc (supersede_by (Some c) i c) b) (st_hash y)])"
    and "row = Some (y, c, b) \<Longrightarrow>
      validate_claim (te_hostok E) (supersede_by (Some c) i c) = Some (supersede_by (Some c) i c)"
proof -
  have one: "c' = supersede_by (Some c) i c \<and> validate_claim (te_hostok E) c' = Some c'"
    if "superseded_claim E c i = Inr c'" "validate_claim (te_hostok E) c = Some c" for c c'
  proof -
    have v: "validate_claim (te_hostok E) (supersede_by (Some c) i c) = Some c'"
      using that(1) by (auto simp: superseded_claim_def supersede_by_def split: option.splits)
    then have "c' = supersede_by (Some c) i c"
      using validate_claim_same [OF v that(2)] by (simp add: supersede_by_def)
    then show ?thesis using v by simp
  qed
  show "ops = (case row of None \<Rightarrow> [] | Some (y, c, b) \<Rightarrow>
      [Update (st_path y) (Claim_doc (supersede_by (Some c) i c) b) (st_hash y)])"
    using assms one by (auto simp: supersede_def result_simps split: option.splits sum.splits)
  show "validate_claim (te_hostok E) (supersede_by (Some c) i c) = Some (supersede_by (Some c) i c)"
    if "row = Some (y, c, b)"
    using assms one that by (auto simp: supersede_def result_simps split: sum.splits)
qed

text \<open>Installing the update of the superseded claim and the creation of the new one.\<close>

lemma install_succession:
  assumes i: "install_operations H (old_ops @ [claim_create new body]) D = Some D'"
    and ops: "old_ops = (case row of None \<Rightarrow> [] | Some (y, c, b) \<Rightarrow>
      [Update (st_path y) (Claim_doc (supersede_by (Some c) (claim_id new) c) b) (st_hash y)])"
    and row: "\<And>x c b. row = Some (x, c, b) \<Longrightarrow> x \<in> set D \<and> st_payload x = Claim_doc c b"
    and d: "distinct (map st_path D)" "distinct (map claim_id (claims_of D))"
  shows "tasks_of D' = tasks_of D"
    "claims_of D' = map (supersede_by (map_option (\<lambda>(y, c, b). c) row) (claim_id new)) (claims_of D) @ [new]"
    "distinct (map st_path D')"
proof -
  obtain D1 where D1: "install_operations H old_ops D = Some D1" "install_operations H [claim_create new body] D1 = Some D'"
  proof -
    have "install_operations H (as @ bs) D = (case install_operations H as D of None \<Rightarrow> None | Some D1 \<Rightarrow> install_operations H bs D1)"
      for as bs and D :: "stored list"
      by (induction as arbitrary: D) (auto split: option.splits)
    then show thesis using that i by (auto split: option.splits)
  qed
  have mid: "tasks_of D1 = tasks_of D \<and> distinct (map st_path D1)
      \<and> claims_of D1 = map (supersede_by (map_option (\<lambda>(y, c, b). c) row) (claim_id new)) (claims_of D)"
  proof (cases row)
    case None
    then show ?thesis using D1(1) ops d(1) by (simp add: supersede_by_def map_idI)
  next
    case (Some r)
    obtain y c b where r: "row = Some (y, c, b)" using Some by (cases r) auto
    let ?c = "supersede_by (Some c) (claim_id new) c"
    have y: "y \<in> set D" "st_payload y = Claim_doc c b" using row [OF r] by auto
    have "D1 = put (st_path y) (Claim_doc ?c b) (H (Claim_doc ?c b)) D"
      using D1(1) ops r install_update by (auto split: option.splits simp del: install_operation.simps)
    moreover have "map (\<lambda>u. if claim_id u = claim_id c then ?c else u) (claims_of D)
        = map (supersede_by (Some c) (claim_id new)) (claims_of D)"
    proof (rule map_cong [OF refl])
      fix u assume "u \<in> set (claims_of D)"
      moreover have "c \<in> set (claims_of D)" using y by (auto simp: in_claims_of)
      ultimately have "claim_id u = claim_id c \<Longrightarrow> u = c" using distinct_map_inj [OF d(2)] by blast
      then show "(if claim_id u = claim_id c then ?c else u) = supersede_by (Some c) (claim_id new) u"
        by (auto simp: supersede_by_def)
    qed
    ultimately show ?thesis
      using put_claim [OF d y, of ?c b "H (Claim_doc ?c b)"] d(1) r by simp
  qed
  have "install_operations H (map (\<lambda>(c, b). claim_create c b) [(new, body)]) D1 = Some D'" using D1(2) by simp
  from install_creates [OF this] mid
  show "tasks_of D' = tasks_of D" "distinct (map st_path D')"
    "claims_of D' = map (supersede_by (map_option (\<lambda>(y, c, b). c) row) (claim_id new)) (claims_of D) @ [new]"
    by auto
qed

lemma supersede_kept_all:
  assumes "succeeds cs uri q old new"
  shows "retained cs (map (supersede_by old (claim_id new)) cs @ [new])"
  unfolding retained_def
proof
  fix c assume c: "c \<in> set cs"
  let ?f = "supersede_by old (claim_id new)"
  have m: "?f c \<in> set (map ?f cs @ [new])" using c by simp
  from supersede_only [OF assms c, of "claim_id new"]
  show "c \<in> set (map ?f cs @ [new]) \<or> (claim_status c = Current \<and>
      (\<exists>i. c\<lparr>claim_status := Superseded, claim_superseded_by := Some i\<rparr> \<in> set (map ?f cs @ [new])))"
  proof
    assume "?f c = c"
    then show ?thesis using m by metis
  next
    assume o: "old = Some c"
    then have "?f c = c\<lparr>claim_status := Superseded, claim_superseded_by := Some (claim_id new)\<rparr>"
      by (simp add: supersede_by_def)
    then show ?thesis using m succeeds_old(3) [OF assms o] by metis
  qed
qed

lemma claimed_sound:
  assumes s: "sound (te_hostok E) D" and k: "\<forall>x. kebab x \<longrightarrow> te_hostok E x"
    and u: "update_claimed_field E D i ch q object action evidence given = Inr (ids, p)" "changes_only {q} ch"
      "\<And>t. recorded (ch_set ch t) q = object"
    and c: "commit H (prop_operations p) D = Some D'"
  shows "sound (te_hostok E) D' \<and> retained (claims_of D) (claims_of D')"
proof -
  let ?now = "normalize_time (te_now E)"
  obtain os x t b t' i' row old_ops new where found: "task_document D i = Inr (x, t, b)"
    and t': "updated_task E t (ch_set ch) ?now os = Inr t'"
    and h: "check_replacement E D t' = Inr ()"
    and row: "current_claim D (ent_uri t) q = Inr row" and old_ops: "supersede E row i' = Inr old_ops"
    and new: "new_claim E i' t' q object ?now os (map_option (\<lambda>(y, c, b). claim_id c) row) = Inr new"
    and p: "task_proposal E i action os (Update (st_path x) (Task_doc t' b) (st_hash x)
        # old_ops @ [claim_create new (claim_body q object)]) ?now = Inr p"
    using u(1) by (auto simp: update_claimed_field_def Let_def result_simps split: sum.splits if_splits)
  note x = task_document_Inr [OF found] and d = sound_parts [OF s]
  note t = stored_task_valid [OF d(4) x(1,2)]
  note upd = updated_task_Inr [OF t' u(2) conjunct2 [OF t] k]
  note n = new_claim_Inr [OF new k]
  note cur = current_claim_Inr [OF row]
  have valid: "validate_claim (te_hostok E) c = Some c" if "row = Some (y, c, b)" for y c b
    using cur(2) [OF that] d(4) by (auto simp: consistent_def in_claims_of)
  note sup = supersede_Inr [OF old_ops valid]
  have old: "old_ops = (case row of None \<Rightarrow> [] | Some (y, c, b) \<Rightarrow>
      [Update (st_path y) (Claim_doc (supersede_by (Some c) (claim_id new) c) b) (st_hash y)])"
    using sup(1) unfolding n(2) .
  let ?update = "Update (st_path x) (Task_doc t' b) (st_hash x)"
  let ?rest = "old_ops @ [claim_create new (claim_body q object)]"
  let ?old = "map_option (\<lambda>(y, c, b). c) row"
  have "\<forall>op\<in>set (?update # ?rest). stable_operation (te_hostok E) op"
    using upd(1) n(1) sup by (auto simp: claim_create_def split: option.splits)
  from task_proposal_operations [OF p this] have ops: "prop_operations p = ?update # ?rest" .
  define D1 where "D1 = put (st_path x) (Task_doc t' b) (H (Task_doc t' b)) D"
  have D1: "install_operation H ?update D = Some D1" "install_operations H ?rest D1 = Some D'"
    using commit_Some(1) [OF c] install_update unfolding ops D1_def
    by (auto split: option.splits simp del: install_operation.simps)
  have docs: "tasks_of D1 = map (replace_task t') (tasks_of D)" "claims_of D1 = claims_of D"
    using put_task [OF d(1,2) x(1,2) upd(2), of b "H (Task_doc t' b)"] upd(2)
    unfolding D1_def by (simp_all add: replace_task_def [abs_def])
  have still: "y \<in> set D1 \<and> st_payload y = Claim_doc c e" if r: "row = Some (y, c, e)" for y c e
  proof -
    have y: "y \<in> set D" "st_payload y = Claim_doc c e" using cur(2) [OF r] by auto
    then have "st_path y \<noteq> st_path x" using x(1,2) distinct_map_inj [OF d(1) y(1) x(1)] by auto
    then have "y \<in> set D1" using y(1) unfolding D1_def put_def by (force simp: image_iff)
    then show ?thesis using y(2) by simp
  qed
  have dD1: "distinct (map st_path D1)" "distinct (map claim_id (claims_of D1))"
    using d(1,3) docs(2) unfolding D1_def by simp_all
  note installed = install_succession [OF D1(2) old still dD1]
  have suc: "succeeds (claims_of D) (ent_uri t) q ?old new"
    unfolding succeeds_def
    using d(3) cur(1) n upd(3) by (auto split: option.splits)
  have "validate_claim (te_hostok E) (supersede_by ?old (claim_id new) c) = Some (supersede_by ?old (claim_id new) c)"
    if "?old = Some c" for c
    using that sup(2) n(2) by auto
  then have "consistent (te_hostok E) (map (replace_task t') (tasks_of D))
      (map (supersede_by ?old (claim_id new)) (claims_of D) @ [new])"
    using claimed_change [OF d(4,2) conjunct1 [OF t] upd(1,2,3) upd(5) suc n(1) _ _ check_replacement_Inr [OF h]]
      n(5) upd(4) u(3) by simp
  then show ?thesis
    using installed docs commit_Some(2) [OF c] supersede_kept_all [OF suc] by (simp add: sound_def)
qed

text \<open>Creating a task.\<close>

lemma initial_claims_Inr:
  assumes "map_results (initial_claim E t now os) (zip ids specs) = Inr ops" "length ids = length specs"
    and "\<forall>x. kebab x \<longrightarrow> te_hostok E x"
  obtains ks where "ops = map (\<lambda>(c, b). claim_create c b) ks"
    "map (\<lambda>c. (claim_predicate c, claim_object c)) (map fst ks) = specs"
    "\<forall>c\<in>set (map fst ks). claim_subject c = ent_uri t \<and> claim_status c = Current \<and> claim_supersedes c = None
        \<and> claim_superseded_by c = None \<and> validate_claim (te_hostok E) c = Some c"
  using assms(2,1)
proof (induction ids specs arbitrary: ops thesis rule: list_induct2)
  case Nil
  then show ?case by simp
next
  case (Cons i ids spec specs)
  obtain q object where spec: "spec = (q, object)" by (cases spec)
  obtain c rest where c: "new_claim E i t q object now os None = Inr c"
    "map_results (initial_claim E t now os) (zip ids specs) = Inr rest"
    "ops = claim_create c (claim_body q object) # rest"
    using Cons.prems(2) by (auto simp: initial_claim_def spec result_simps split: sum.splits)
  note n = new_claim_Inr [OF c(1) assms(3)]
  obtain ks where ks: "rest = map (\<lambda>(c, b). claim_create c b) ks"
    "map (\<lambda>c. (claim_predicate c, claim_object c)) (map fst ks) = specs"
    "\<forall>c\<in>set (map fst ks). claim_subject c = ent_uri t \<and> claim_status c = Current \<and> claim_supersedes c = None
        \<and> claim_superseded_by c = None \<and> validate_claim (te_hostok E) c = Some c"
    using Cons.IH c(2) by blast
  show ?case
    by (rule Cons.prems(1) [of "(c, claim_body q object) # ks"]) (use c(3) n ks spec in auto)
qed

lemma allocated_length: "allocate_claim_ids year n D = Inr ids \<Longrightarrow> length ids = n"
  by (auto simp: allocate_claim_ids_def Let_def split: if_splits)

lemma created_sound:
  assumes s: "sound (te_hostok E) D" and k: "\<forall>x. kebab x \<longrightarrow> te_hostok E x"
    and u: "create_task E D t body = Inr (ids, p)" "validate_task (te_hostok E) t = Some t"
    and c: "commit H (prop_operations p) D = Some D'"
  shows "sound (te_hostok E) D' \<and> retained (claims_of D) (claims_of D')"
proof -
  let ?now = "normalize_time (te_now E)"
  obtain os creates where fresh: "ent_id t \<notin> ent_id ` set (tasks_of D)"
    and h: "check_addition E D t = Inr ()"
    and a: "allocate_claim_ids (stamp_year ?now) (length (claim_specs t)) D = Inr ids"
    and cl: "map_results (initial_claim E t ?now os) (zip ids (claim_specs t)) = Inr creates"
    and p: "task_proposal E (ent_id t) ''create'' os
        (Create (task_path (ent_id t)) (Task_doc t body) # creates) ?now = Inr p"
    using u(1) by (auto simp: create_task_def Let_def result_simps split: sum.splits if_splits)
  obtain ks where ks: "creates = map (\<lambda>(c, b). claim_create c b) ks"
    "map (\<lambda>c. (claim_predicate c, claim_object c)) (map fst ks) = claim_specs t"
    "\<forall>c\<in>set (map fst ks). claim_subject c = ent_uri t \<and> claim_status c = Current \<and> claim_supersedes c = None
        \<and> claim_superseded_by c = None \<and> validate_claim (te_hostok E) c = Some c"
    by (rule initial_claims_Inr [OF cl allocated_length [OF a] k])
  note d = sound_parts [OF s]
  have "\<forall>op\<in>set (Create (task_path (ent_id t)) (Task_doc t body) # creates). stable_operation (te_hostok E) op"
    using u(2) ks(1,3) by (auto simp: claim_create_def)
  from task_proposal_operations [OF p this]
  have ops: "prop_operations p = Create (task_path (ent_id t)) (Task_doc t body) # creates" .
  let ?x = "\<lparr>st_path = task_path (ent_id t), st_payload = Task_doc t body, st_hash = H (Task_doc t body)\<rparr>"
  have i: "task_path (ent_id t) \<notin> st_path ` set D" "install_operations H creates (D @ [?x]) = Some D'"
    using commit_Some(1) [OF c] unfolding ops by (simp_all split: if_splits)
  have "tasks_of D' = tasks_of D @ [t]" "claims_of D' = claims_of D @ map fst ks" "distinct (map st_path D')"
    using install_creates [OF i(2) [unfolded ks(1)]] d(1) i(1) by simp_all
  moreover have "validate_task_hierarchy (te_hostok E) (tasks_of D @ [t]) = Inr ()"
    using h by (auto simp: check_addition_def check_hierarchy_def split: sum.splits)
  ultimately show ?thesis
    using new_task [OF d(4) u(2) fresh ks(2,3)] commit_Some(2) [OF c] by (simp add: sound_def retained_def)
qed

section \<open>Histories\<close>

text \<open>The caller passes a task that its own model validated.\<close>

fun command_ok :: "(string \<Rightarrow> bool) \<Rightarrow> command \<Rightarrow> bool" where
  "command_ok hostok (Create_task t body) \<longleftrightarrow> validate_task hostok t = Some t"
| "command_ok hostok (Create_subtask t body) \<longleftrightarrow> validate_task hostok t = Some t"
| "command_ok hostok c \<longleftrightarrow> True"

lemmas field_changes = changes_only_def recorded_def tracked_predicates_def json_optional_def Let_def

lemma performed_sound:
  assumes s: "sound (te_hostok E) D" and k: "\<forall>x. kebab x \<longrightarrow> te_hostok E x"
    and c: "command_ok (te_hostok E) c" "perform E D c = Inr (ids, p)" "commit H (prop_operations p) D = Some D'"
  shows "sound (te_hostok E) D' \<and> retained (claims_of D) (claims_of D')"
proof (cases c)
  case (Create_task t body)
  then show ?thesis using created_sound [OF s k _ _ c(3)] c(1,2) by simp
next
  case (Create_subtask t body)
  then show ?thesis using created_sound [OF s k _ _ c(3)] c(1,2) by (simp add: create_subtask_def split: if_splits)
next
  case (Transition_status i v obs given)
  show ?thesis
    by (rule claimed_sound [OF s k c(2) [unfolded Transition_status perform.simps transition_status_def] _ _ c(3)])
      (simp_all add: field_changes)
next
  case (Update_owner i v obs given)
  show ?thesis
    by (rule claimed_sound [OF s k c(2) [unfolded Update_owner perform.simps update_owner_def] _ _ c(3)])
      (simp_all add: field_changes)
next
  case (Update_due i v obs given)
  show ?thesis
    by (rule claimed_sound [OF s k c(2) [unfolded Update_due perform.simps update_due_def Let_def] _ _ c(3)])
      (simp_all add: field_changes)
next
  case (Update_waiting_on i v obs)
  show ?thesis
    by (rule unclaimed_sound [OF s k c(2) [unfolded Update_waiting_on perform.simps update_waiting_on_def] _ c(3)])
      (simp add: field_changes)
next
  case (Update_next_action i v obs)
  show ?thesis
    by (rule unclaimed_sound [OF s k c(2) [unfolded Update_next_action perform.simps update_next_action_def] _ c(3)])
      (simp add: field_changes)
qed

text \<open>
  C14: The claims are the history of the tasks. Whatever commands the service is given, with whatever
  outcomes, the documents stay well-formed: every task has at most one current claim for its status,
  owner and deadline, and it has the field's value; superseded claims are linked both ways to the
  claims about the same field that replaced them; the task hierarchy is valid. And no claim is lost:
  each is still there, unchanged but for a current one that has been marked superseded.
\<close>

theorem task_history_sound:
  assumes "sound hostok D" "\<forall>x. kebab x \<longrightarrow> hostok x"
    and "\<forall>(E, c)\<in>set cs. te_hostok E = hostok \<and> command_ok hostok c"
  shows "sound hostok (run_commands H D cs) \<and> retained (claims_of D) (claims_of (run_commands H D cs))"
  using assms(1,3)
proof (induction cs arbitrary: D)
  case Nil
  then show ?case by (simp add: run_commands_def)
next
  case (Cons ec cs)
  obtain E c where ec: "ec = (E, c)" by (cases ec)
  have ok: "te_hostok E = hostok" "command_ok hostok c" using Cons.prems(2) ec by auto
  have "sound hostok (execute H D ec) \<and> retained (claims_of D) (claims_of (execute H D ec))"
    using Cons.prems(1) performed_sound [of E D c] ok assms(2)
    by (auto simp: execute_def ec split: sum.splits option.splits)
  then show ?case
    using Cons.IH [of "execute H D ec"] Cons.prems(2) retained_trans by (auto simp: run_commands_def)
qed

section \<open>Example\<close>

definition example_evidence :: string where
  "example_evidence = ''workctx://ctx/observation/EVD-20250101-a-01%23OBS-001''"

definition example_time :: stamp where
  "example_time = \<lparr>stamp_utc = 0, stamp_offset = 0\<rparr>"

definition example_task :: task where
  "example_task = \<lparr>ent_schema_version = 1, ent_id = ''TASK-2025-001'', ent_type = ''task'', ent_title = ''T'',
     ent_uri = ''workctx://ctx/task/TASK-2025-001'', ent_aliases = [], ent_status = None, ent_confidence = None,
     ent_tags = [], ent_topics = [], ent_references = [], ent_created_at = example_time,
     ent_updated_at = example_time, task_type = Parent_task, parent_task = None, root_task = ''TASK-2025-001'',
     task_priority = P1, task_status = Ready, task_owner = None, task_requester = None, task_waiting_on = [],
     task_due_at = None, task_next_action = ''go'', task_dependencies = [], task_blockers = [],
     task_observations = [example_evidence]\<rparr>"

definition example_task_env :: task_env where
  "example_task_env = \<lparr>te_context = ''ctx'', te_hostok = (\<lambda>_. True), te_nfc = id, te_ck = id,
     te_now = example_time, te_random = ''ab12'', te_actor = Human ''me'', te_revision = zero_revision,
     te_review_required = False\<rparr>"

definition example_claim :: claim where
  "example_claim = \<lparr>claim_id = ''CLM-0001-00001'', claim_subject = ''workctx://ctx/task/TASK-2025-001'',
     claim_predicate = ''status'', claim_object = json_string ''ready'', claim_observed_at = example_time,
     claim_valid_from = Some example_time, claim_valid_to = None, claim_status = Current, claim_supersedes = None,
     claim_superseded_by = None, claim_confidence = High, claim_observations = [example_evidence]\<rparr>"

definition example_operations :: "operation list" where
  "example_operations =
     [Create (task_path ''TASK-2025-001'') (Task_doc example_task []),
      claim_create example_claim (claim_body ''status'' (json_string ''ready''))]"

definition example_hash :: "payload \<Rightarrow> string" where
  "example_hash p = ''sha256:'' @ replicate 64 (CHR ''a'')"

definition example_documents :: "stored list" where
  "example_documents =
     [\<lparr>st_path = ''03_work/tasks/TASK-2025-001.md'', st_payload = Task_doc example_task [],
       st_hash = ''sha256:'' @ replicate 64 (CHR ''a'')\<rparr>,
      \<lparr>st_path = ''02_knowledge/claims/CLM-0001-00001.md'',
       st_payload = Claim_doc example_claim (claim_body ''status'' (json_string ''ready'')),
       st_hash = ''sha256:'' @ replicate 64 (CHR ''a'')\<rparr>]"

definition example_commands :: "(task_env \<times> command) list" where
  "example_commands =
     [(example_task_env, Create_task example_task []),
      (example_task_env,
       Transition_status ''TASK-2025-001'' Active_task [example_evidence] (Some ''CLM-0001-00002''))]"

lemma example_steps:
  "normalize_time (te_now example_task_env) = example_time"
  "require_observations (task_observations example_task) = Inr [example_evidence]"
  "check_addition example_task_env [] example_task = Inr ()"
  "claim_specs example_task = [(''status'', json_string ''ready'')]"
  "new_claim example_task_env ''CLM-0001-00001'' example_task ''status'' (json_string ''ready'') example_time
     [example_evidence] None = Inr example_claim"
  "stamp_year example_time = 1" "ent_id example_task = ''TASK-2025-001''"
  by (simp add: normalize_time_def example_task_env_def example_time_def, code_simp+)

lemma example_allocated: "allocate_claim_ids 1 (Suc 0) [] = Inr [''CLM-0001-00001'']"
proof -
  have "''CLM-'' @ pad 4 (nat 1) @ ''-'' @ pad 5 1 = ''CLM-0001-00001''" by code_simp
  then show ?thesis by (simp add: allocate_claim_ids_def used_sequences_def)
qed

lemma example_proposed:
  obtains p where "task_proposal example_task_env ''TASK-2025-001'' ''create'' [example_evidence]
     example_operations example_time = Inr p" "prop_operations p = example_operations"
proof -
  have "\<exists>p. task_proposal example_task_env ''TASK-2025-001'' ''create'' [example_evidence]
      example_operations example_time = Inr p"
  proof -
    have "case task_proposal example_task_env ''TASK-2025-001'' ''create'' [example_evidence]
        example_operations example_time of Inr p \<Rightarrow> True | Inl e \<Rightarrow> False" by code_simp
    then show ?thesis by (auto split: sum.splits)
  qed
  then obtain p where p: "task_proposal example_task_env ''TASK-2025-001'' ''create'' [example_evidence]
      example_operations example_time = Inr p" by blast
  have "\<forall>op\<in>set example_operations. stable_operation (te_hostok example_task_env) op" by code_simp
  then show thesis using that task_proposal_operations [OF p] p by blast
qed

lemma example_executed: "execute example_hash [] (example_task_env, Create_task example_task []) = example_documents"
proof -
  obtain p where p: "task_proposal example_task_env ''TASK-2025-001'' ''create'' [example_evidence]
     example_operations example_time = Inr p" "prop_operations p = example_operations"
    by (rule example_proposed)
  have "perform example_task_env [] (Create_task example_task []) = Inr ([''CLM-0001-00001''], p)"
    using p(1)
    by (simp add: create_task_def example_steps example_allocated initial_claim_def example_operations_def Let_def result_simps)
  moreover have "commit example_hash example_operations [] = Some example_documents" by code_simp
  ultimately show ?thesis by (simp add: execute_def p(2))
qed

definition example_active :: task where
  "example_active = example_task\<lparr>task_status := Active_task\<rparr>"

definition example_successor :: claim where
  "example_successor = example_claim\<lparr>claim_id := ''CLM-0001-00002'', claim_object := json_string ''active'',
     claim_supersedes := Some ''CLM-0001-00001''\<rparr>"

definition example_update :: "operation list" where
  "example_update =
     [Update ''03_work/tasks/TASK-2025-001.md'' (Task_doc example_active []) (''sha256:'' @ replicate 64 (CHR ''a'')),
      Update ''02_knowledge/claims/CLM-0001-00001.md''
        (Claim_doc (supersede_by (Some example_claim) ''CLM-0001-00002'' example_claim)
          (claim_body ''status'' (json_string ''ready''))) (''sha256:'' @ replicate 64 (CHR ''a'')),
      claim_create example_successor (claim_body ''status'' (json_string ''active''))]"

lemma example_update_steps:
  "require_observations [example_evidence] = Inr [example_evidence]"
  "task_document example_documents ''TASK-2025-001'' = Inr (hd example_documents, example_task, [])"
  "updated_task example_task_env example_task (task_status_update (\<lambda>_. Active_task)) example_time [example_evidence]
     = Inr example_active"
  "check_replacement example_task_env example_documents example_active = Inr ()"
  "current_claim example_documents (ent_uri example_task) ''status''
     = Inr (Some (example_documents ! 1, example_claim, claim_body ''status'' (json_string ''ready'')))"
  "superseded_claim example_task_env example_claim ''CLM-0001-00002''
     = Inr (supersede_by (Some example_claim) ''CLM-0001-00002'' example_claim)"
  "new_claim example_task_env ''CLM-0001-00002'' example_active ''status'' (json_string ''active'') example_time
     [example_evidence] (Some ''CLM-0001-00001'') = Inr example_successor"
  "task_status example_task \<noteq> Active_task" "claim_id example_claim = ''CLM-0001-00001''"
  by code_simp+

lemma example_update_proposed:
  obtains p where "task_proposal example_task_env ''TASK-2025-001'' ''status'' [example_evidence]
     example_update example_time = Inr p" "prop_operations p = example_update"
proof -
  have "\<exists>p. task_proposal example_task_env ''TASK-2025-001'' ''status'' [example_evidence]
      example_update example_time = Inr p"
  proof -
    have "case task_proposal example_task_env ''TASK-2025-001'' ''status'' [example_evidence]
        example_update example_time of Inr p \<Rightarrow> True | Inl e \<Rightarrow> False" by code_simp
    then show ?thesis by (auto split: sum.splits)
  qed
  then obtain p where p: "task_proposal example_task_env ''TASK-2025-001'' ''status'' [example_evidence]
      example_update example_time = Inr p" by blast
  have "\<forall>op\<in>set example_update. stable_operation (te_hostok example_task_env) op" by code_simp
  then show thesis using that task_proposal_operations [OF p] p by blast
qed

lemma example_transition:
  "execute example_hash example_documents (example_task_env,
     Transition_status ''TASK-2025-001'' Active_task [example_evidence] (Some ''CLM-0001-00002''))
   = the (commit example_hash example_update example_documents)"
proof -
  obtain p where p: "task_proposal example_task_env ''TASK-2025-001'' ''status'' [example_evidence]
     example_update example_time = Inr p" "prop_operations p = example_update"
    by (rule example_update_proposed)
  have "perform example_task_env example_documents
      (Transition_status ''TASK-2025-001'' Active_task [example_evidence] (Some ''CLM-0001-00002''))
    = Inr ([''CLM-0001-00002''], p)"
    using p(1) example_update_steps
    by (simp add: transition_status_def update_claimed_field_def example_steps(1) allocated_id_def supersede_def
        example_update_def Let_def result_simps) (simp add: example_documents_def)
  moreover have "commit example_hash example_update example_documents \<noteq> None" by code_simp
  ultimately show ?thesis by (auto simp: execute_def p(2))
qed

theorem task_history_sound_witness:
  "sound (\<lambda>_. True) (run_commands example_hash [] example_commands)
   \<and> map claim_status (claims_of (run_commands example_hash [] example_commands)) = [Superseded, Current]"
proof -
  have "sound (\<lambda>_. True) []"
    by (simp add: sound_def consistent_def validate_task_hierarchy_def result_simps)
  moreover have "validate_task (\<lambda>_. True) example_task = Some example_task" by code_simp
  then have "\<forall>(E, c)\<in>set example_commands. te_hostok E = (\<lambda>_. True) \<and> command_ok (\<lambda>_. True) c"
    by (simp add: example_commands_def example_task_env_def)
  ultimately have "sound (\<lambda>_. True) (run_commands example_hash [] example_commands)"
    using task_history_sound [of "\<lambda>_. True" "[]" example_commands example_hash] by simp
  moreover have "map claim_status (claims_of (the (commit example_hash example_update example_documents)))
    = [Superseded, Current]" by code_simp
  ultimately show ?thesis
    by (simp add: run_commands_def example_commands_def example_executed example_transition)
qed

end
