(* ===== verification/Spec2Isabelle.thy ===== *)
theory Spec2Isabelle
  imports TopicService Prepare DocumentLaws EngineLaws LockRuns AnalysisLaws TaskLaws
begin

text \<open>
  A verification development of \<^verbatim>\<open>workctx\<close> (\<^verbatim>\<open>src/src/workctx\<close>), a local work-memory system whose
  canonical state is a tree of Markdown, YAML and JSON files (a context). All canonical writes go
  through one protocol: a typed proposal is validated, its postimages and the preimage backups are
  staged beside a durable intent, the files are replaced one by one under a nonce-fenced lock, the
  outcome is appended to a hash-chained audit ledger, and the intent is removed; a crash anywhere
  leaves a state from which a later session can finish or undo the transaction.

  \<^bold>\<open>Theories, bottom up.\<close>

  \<^item> \<open>Prelude\<close>: results of fallible functions (\<open>bind_result\<close>), splitting and joining of strings,
    shared list lemmas, the collections \<open>step_simps\<close> and \<open>result_simps\<close>.
  \<^item> \<open>Topics\<close>, \<open>TopicGuard\<close>, \<open>TopicService\<close>: \<^verbatim>\<open>domain/topics.py\<close>, \<^verbatim>\<open>topics/guard.py\<close>,
    \<^verbatim>\<open>topics/service.py\<close>. The registry of topics, its validators, resolution, the duplicate guard
    with its edit distance, and the mutations with the documents they retag.
  \<^item> \<open>Disk\<close>: the file system of \<^verbatim>\<open>adapters/filesystem\<close> as a state (\<open>world\<close>): nodes by path, the
    nonce in the lock file, and the events of the environment: denied calls, crashes, theft of the
    lock, outside edits. Operations are functions from the state to an outcome and a state.
  \<^item> \<open>Intent\<close>, \<open>IntentJson\<close>: the durable intent, its JSON form, the validation of its paths.
  \<^item> \<open>Staging\<close>, \<open>StagingPrepare\<close>: every operation of \<^verbatim>\<open>adapters/filesystem/staging.py\<close>: preparing,
    applying, completing, rolling back, finalising and inspecting an intent, the single-file writers.
  \<^item> \<open>StagingFrame\<close>, \<open>StagingLayout\<close>, \<open>StagingSteps\<close>: what one system call and one target may
    change; that validated paths are disjoint; the outcome of every step under every fault.
  \<^item> \<open>Recovery\<close>, \<open>Sessions\<close>: the locale \<open>restartable\<close> of loops that may be interrupted and rerun,
    interpreted by the applying and the rolling-back loop, and what follows for whole histories.
  \<^item> \<open>Prepare\<close>: a calculus of what an action leaves alone, for \<open>prepare\<close> and the line append.
  \<^item> \<open>References\<close>, \<open>ReferenceLaws\<close>: \<^verbatim>\<open>domain/references.py\<close> and \<^verbatim>\<open>domain/ids.py\<close> with the percent
    encoding and URL splitting of the standard library.
  \<^item> \<open>Documents\<close>, \<open>DocumentLaws\<close>, \<open>Proposals\<close>, \<open>ProposalLaws\<close>: the document types of \<^verbatim>\<open>domain\<close>, the
    transaction proposal and the audit event with their validators.
  \<^item> \<open>Ledger\<close>, \<open>LedgerExample\<close>, \<open>LedgerLaws\<close>: \<^verbatim>\<open>transactions/ledger.py\<close>, an executable codec for
    examples, and the locale \<open>growing_log\<close> with the ledger as its interpretation.
  \<^item> \<open>Engine\<close>: the protocol of \<^verbatim>\<open>transactions/engine.py\<close>, \<open>apply\<close> and \<open>recover\<close> with their handlers.
  \<^item> \<open>EngineFrame\<close>, \<open>EngineStages\<close>, \<open>EngineLaws\<close>: what each step of the protocol leaves alone, the
    abstract transaction with its four stages, and the refinement: every outcome of \<open>apply\<close> is a
    stage, and \<open>recover\<close> takes an intent in flight back to the state before it.

  \<^item> \<open>MutationGuard\<close>, \<open>GuardLaws\<close>: the bakery of \<^verbatim>\<open>adapters/filesystem/lock.py\<close> that serialises changes
    of the lock file, as a step relation on the guard directory and the phases of all attempts, with
    mutual exclusion and the locale \<open>mutex\<close> it is an interpretation of.

  \<^item> \<open>ContextLock\<close>, \<open>LockLaws\<close>, \<open>LockRuns\<close>: the lock file itself. Acquiring, refreshing, releasing and taking
    over as sequences of system calls that run under the guard; the invariant of all interleavings,
    fencing and the preservation of evidence; undisturbed runs and an example with two sessions.

  \<^item> \<open>Compile\<close>, \<open>Analysis\<close>, \<open>AnalysisLaws\<close>: how the engine judges a proposal before it touches a file:
    the operations compiled against the workspace, the identities, conditions and references of the
    overlay. The laws: what was compiled is what was proposed and fits the files, a postcondition
    that was accepted holds of the files afterwards, and record identities stay unique. The engine
    of \<open>Engine\<close> takes the analysis as the function \<open>en_analyze\<close> of its environment.

  \<^item> \<open>Tasks\<close>, \<open>TaskLaws\<close>: the task service of \<^verbatim>\<open>tasks/service.py\<close>, whose commands change a task and
    record the change by a claim in one proposal; the invariant of all histories of commands. The
    documents are a list here and an applied proposal changes them by \<open>commit\<close>, the contract that
    \<open>EngineLaws\<close> and \<open>AnalysisLaws\<close> justify.

  \<^bold>\<open>State.\<close> A path is a list of names below the context root; \<open>nodes\<close> maps it to a file, a directory
  or nothing. A file is bytes or a parsed JSON document. Text is a list of characters below 256.
  Python exceptions are the constructors of \<open>exn\<close>; a fallible function returns \<open>Inl\<close> of one or \<open>Inr\<close>
  of its value; \<open>Crashed\<close> is the death of the process, after which no handler runs.

  \<^bold>\<open>Bounds.\<close> Retry loops take the number of attempts of the code's retry policy as an argument; all
  other recursion is structural or has a proved measure, so no fuel is used.

  \<^bold>\<open>Parameters.\<close> Content hashing, Unicode folding and normal forms, the JSON and YAML libraries and the
  host checks of urllib are arguments of the definitions; what the proofs need of them are named
  hypotheses (\<open>codec_ok\<close>, injectivity on the texts concerned), satisfied in the examples.

  \<^bold>\<open>Not modelled.\<close> Symbolic links, junctions and mount points; directory synchronisation (a completed
  write is durable); the coercions of the schema library before a validator runs; the command line,
  the agent adapters, the SQLite projection, migration, views, retrieval, ingestion and the other
  services that read documents or produce proposals. The manifest lists each with the reason.
\<close>

end
